(* ===== verification/V4_Prelude.thy ===== *)
theory V4_Prelude
  imports Main "HOL-Library.Word" "HOL-Library.List_Lexorder"
begin

text \<open>
  What every component shares.

  \<^item> \<open>prog\<close>: an imperative fragment is a function from the state to an optional pair of
    result and new state. \<open>None\<close> is a C fault: a read outside a buffer, the use of an
    uninitialised object, or a loop that never ends. \<open>wp\<close> is the total precondition (the
    fragment does not fault and the result satisfies the postcondition), \<open>wlp\<close> the partial
    one; both are computed by the rules collected in \<open>wp_simps\<close>.
  \<^item> \<open>os_state\<close>: the part of the state every daemon has. \<open>kern\<close> is the rest of the
    world (kernel tables, scheduler, clock), of an arbitrary type: a system call is a function
    of it that returns a result and the world after the call, so the world may change between
    any two calls. \<open>files\<close> holds the files that standard I/O reads and writes. \<open>out\<close> is
    the history of the effects the daemon asked for and of the messages it logged; no
    operation reads it.
  \<^item> checked reads from a byte buffer, little-endian fields, \<open>memcmp\<close>, and the pieces of
    the C library the daemons call (\<open>fgets\<close>, \<open>strncmp\<close>, \<open>atoi\<close>, \<open>getopt\<close>).
\<close>

unbundle bit_operations_syntax

named_theorems wp_simps
named_theorems rd_simps
named_theorems frame_intros
named_theorems safe_intros
named_theorems bnd_simps

section \<open>Programs that may fault\<close>

type_synonym ('s, 'a) prog = "'s \<Rightarrow> ('a \<times> 's) option"

definition ret :: "'a \<Rightarrow> ('s, 'a) prog" where
  "ret x = (\<lambda>s. Some (x, s))"

definition bnd :: "('s, 'a) prog \<Rightarrow> ('a \<Rightarrow> ('s, 'b) prog) \<Rightarrow> ('s, 'b) prog" where
  "bnd m f = (\<lambda>s. case m s of None \<Rightarrow> None | Some (x, s') \<Rightarrow> f x s')"

lemma bnd_ret: "bnd m ret = m"
  by (auto simp: bnd_def ret_def split: option.splits)

definition of_opt :: "'a option \<Rightarrow> ('s, 'a) prog" where
  "of_opt r = (\<lambda>s. case r of None \<Rightarrow> None | Some x \<Rightarrow> Some (x, s))"

definition gets :: "('s \<Rightarrow> 'a) \<Rightarrow> ('s, 'a) prog" where
  "gets f = (\<lambda>s. Some (f s, s))"

definition modify :: "('s \<Rightarrow> 's) \<Rightarrow> ('s, unit) prog" where
  "modify f = (\<lambda>s. Some ((), f s))"

definition wp :: "('s, 'a) prog \<Rightarrow> ('a \<Rightarrow> 's \<Rightarrow> bool) \<Rightarrow> 's \<Rightarrow> bool" where
  "wp m Q s = (case m s of None \<Rightarrow> False | Some (x, s') \<Rightarrow> Q x s')"

definition wlp :: "('s, 'a) prog \<Rightarrow> ('a \<Rightarrow> 's \<Rightarrow> bool) \<Rightarrow> 's \<Rightarrow> bool" where
  "wlp m Q s = (case m s of None \<Rightarrow> True | Some (x, s') \<Rightarrow> Q x s')"

lemma bnd_ret_left [bnd_simps]: "bnd (ret x) f = f x"
  by (simp add: bnd_def ret_def)

lemma bnd_assoc [bnd_simps]: "bnd (bnd m f) g = bnd m (\<lambda>x. bnd (f x) g)"
  by (rule ext) (simp add: bnd_def split: option.splits)

lemma bnd_if [bnd_simps]: "bnd (if b then m else n) f = (if b then bnd m f else bnd n f)"
  by simp

lemma bnd_option [bnd_simps]:
  "bnd (case r of None \<Rightarrow> m | Some x \<Rightarrow> f x) g =
    (case r of None \<Rightarrow> bnd m g | Some x \<Rightarrow> bnd (f x) g)"
  by (cases r) auto

lemma wp_ret [wp_simps]: "wp (ret x) Q s = Q x s"
  by (simp add: wp_def ret_def)

lemma wp_bnd [wp_simps]: "wp (bnd m f) Q s = wp m (\<lambda>x. wp (f x) Q) s"
  by (simp add: wp_def bnd_def split: option.splits)

lemma wp_of_opt [wp_simps]: "wp (of_opt r) Q s = (case r of None \<Rightarrow> False | Some x \<Rightarrow> Q x s)"
  by (simp add: wp_def of_opt_def split: option.splits)

lemma wp_gets [wp_simps]: "wp (gets f) Q s = Q (f s) s"
  by (simp add: wp_def gets_def)

lemma wp_modify [wp_simps]: "wp (modify f) Q s = Q () (f s)"
  by (simp add: wp_def modify_def)

lemma wp_if [wp_simps]: "wp (if b then m else n) Q s = (if b then wp m Q s else wp n Q s)"
  by simp

lemma wlp_ret [wp_simps]: "wlp (ret x) Q s = Q x s"
  by (simp add: wlp_def ret_def)

lemma wlp_bnd [wp_simps]: "wlp (bnd m f) Q s = wlp m (\<lambda>x. wlp (f x) Q) s"
  by (simp add: wlp_def bnd_def split: option.splits)

lemma wlp_of_opt [wp_simps]:
  "wlp (of_opt r) Q s = (case r of None \<Rightarrow> True | Some x \<Rightarrow> Q x s)"
  by (simp add: wlp_def of_opt_def split: option.splits)

lemma wlp_gets [wp_simps]: "wlp (gets f) Q s = Q (f s) s"
  by (simp add: wlp_def gets_def)

lemma wlp_modify [wp_simps]: "wlp (modify f) Q s = Q () (f s)"
  by (simp add: wlp_def modify_def)

lemma wlp_if [wp_simps]: "wlp (if b then m else n) Q s = (if b then wlp m Q s else wlp n Q s)"
  by simp

lemma wlp_mono: "wlp m Q s \<Longrightarrow> (\<And>x t. Q x t \<Longrightarrow> R x t) \<Longrightarrow> wlp m R s"
  by (auto simp: wlp_def split: option.splits)

lemma wp_mono: "wp m Q s \<Longrightarrow> (\<And>x t. Q x t \<Longrightarrow> R x t) \<Longrightarrow> wp m R s"
  by (auto simp: wp_def split: option.splits)

lemma wp_conj_wlp: "wp m (\<lambda>_ _. True) s \<Longrightarrow> wlp m Q s \<Longrightarrow> wp m Q s"
  by (auto simp: wp_def wlp_def split: option.splits)

lemma wlpD: "wlp m Q s \<Longrightarrow> m s = Some (x, t) \<Longrightarrow> Q x t"
  by (simp add: wlp_def)

lemma wpE:
  assumes "wp m Q s"
  obtains x t where "m s = Some (x, t)" and "Q x t"
  using assms by (auto simp: wp_def split: option.splits)

lemma wp_and_wlp: "wlp m P s \<Longrightarrow> wp m Q s \<Longrightarrow> wp m (\<lambda>x t. P x t \<and> Q x t) s"
  by (auto simp: wp_def wlp_def split: option.splits)

lemma wp_wlp: "wp m Q s \<Longrightarrow> wlp m Q s"
  by (auto simp: wp_def wlp_def split: option.splits)

lemma wlp_conj: "wlp m P s \<Longrightarrow> wlp m Q s \<Longrightarrow> wlp m (\<lambda>x t. P x t \<and> Q x t) s"
  by (auto simp: wlp_def split: option.splits)

lemma wlp_wp_conj: "wp m P s \<Longrightarrow> wlp m Q s \<Longrightarrow> wp m (\<lambda>x t. P x t \<and> Q x t) s"
  by (auto simp: wp_def wlp_def split: option.splits)

lemma wlp_true: "wlp m (\<lambda>_ _. True) s"
  by (auto simp: wlp_def split: option.splits)

section \<open>The world a daemon runs in\<close>

record ('k, 'e) os_state =
  kern :: 'k
  files :: "string \<Rightarrow> string option"
  out :: "'e list"

definition kcall :: "('k \<Rightarrow> 'a \<times> 'k) \<Rightarrow> (('k, 'e, 'z) os_state_scheme, 'a) prog" where
  "kcall f = (\<lambda>s. case f (kern s) of (x, k) \<Rightarrow> Some (x, s\<lparr>kern := k\<rparr>))"

definition emit :: "'e \<Rightarrow> (('k, 'e, 'z) os_state_scheme, unit) prog" where
  "emit e = modify (\<lambda>s. s\<lparr>out := out s @ [e]\<rparr>)"

lemma wp_kcall [wp_simps]:
  "wp (kcall f) Q s = Q (fst (f (kern s))) (s\<lparr>kern := snd (f (kern s))\<rparr>)"
  by (simp add: wp_def kcall_def split: prod.splits)

lemma wlp_kcall [wp_simps]:
  "wlp (kcall f) Q s = Q (fst (f (kern s))) (s\<lparr>kern := snd (f (kern s))\<rparr>)"
  by (simp add: wlp_def kcall_def split: prod.splits)

lemma wp_emit [wp_simps]: "wp (emit e) Q s = Q () (s\<lparr>out := out s @ [e]\<rparr>)"
  by (simp add: emit_def wp_simps)

lemma wlp_emit [wp_simps]: "wlp (emit e) Q s = Q () (s\<lparr>out := out s @ [e]\<rparr>)"
  by (simp add: emit_def wp_simps)

text \<open>A system call is quiet when it leaves the world as it found it.\<close>

definition quiet :: "('k \<Rightarrow> 'a \<times> 'k) \<Rightarrow> bool" where
  "quiet f \<longleftrightarrow> (\<forall>k. snd (f k) = k)"

lemma quietD [simp]: "quiet f \<Longrightarrow> snd (f k) = k"
  by (simp add: quiet_def)

lemma kcall_quiet: "quiet f \<Longrightarrow> kcall f s = Some (fst (f (kern s)), s)"
  by (simp add: kcall_def split: prod.split) (metis os_state.surjective os_state.update_convs(1) prod.sel(2) quietD)

lemma bnd_run: "m s = Some (x, t) \<Longrightarrow> bnd m f s = f x t"
  by (simp add: bnd_def)

lemma run_simps:
  "ret x s = Some (x, s)"
  "gets f s = Some (f s, s)"
  "modify h s = Some ((), h s)"
  "of_opt (Some x) s = Some (x, s)"
  by (simp_all add: ret_def gets_def modify_def of_opt_def)

text \<open>
  Two facts about a fragment that its callers rely on: it changes nothing but the world
  outside (\<open>kern_only\<close>), and it never faults (\<open>safe\<close>).
\<close>

definition kern_only :: "(('k, 'e, 'z) os_state_scheme, 'a) prog \<Rightarrow> bool" where
  "kern_only m \<longleftrightarrow> (\<forall>s x t. m s = Some (x, t) \<longrightarrow> (\<exists>k. t = s\<lparr>kern := k\<rparr>))"

definition safe :: "('s, 'a) prog \<Rightarrow> bool" where
  "safe m \<longleftrightarrow> (\<forall>s. m s \<noteq> None)"

lemma kern_onlyI: "(\<And>s x t. m s = Some (x, t) \<Longrightarrow> \<exists>k. t = s\<lparr>kern := k\<rparr>) \<Longrightarrow> kern_only m"
  by (simp add: kern_only_def)

lemma kern_onlyD: "kern_only m \<Longrightarrow> m s = Some (x, t) \<Longrightarrow> \<exists>k. t = s\<lparr>kern := k\<rparr>"
  by (simp add: kern_only_def)

lemma kern_same: "\<exists>k. s = s\<lparr>kern := k\<rparr>"
  by (rule exI [of _ "kern s"]) simp

lemma kern_only_ret [frame_intros]: "kern_only (ret x)"
  by (rule kern_onlyI) (auto simp: ret_def intro: kern_same)

lemma kern_only_of_opt [frame_intros]: "kern_only (of_opt r)"
  by (rule kern_onlyI) (auto simp: of_opt_def intro: kern_same split: option.splits)

lemma kern_only_gets [frame_intros]: "kern_only (gets f)"
  by (rule kern_onlyI) (auto simp: gets_def intro: kern_same)

lemma kern_only_kcall [frame_intros]: "kern_only (kcall f)"
  by (rule kern_onlyI) (auto simp: kcall_def split: prod.splits)

lemma kern_only_bnd [frame_intros]:
  assumes "kern_only m" and "\<And>x. kern_only (f x)"
  shows "kern_only (bnd m f)"
proof (rule kern_onlyI)
  fix s y t
  assume "bnd m f s = Some (y, t)"
  then obtain x s' where "m s = Some (x, s')" and "f x s' = Some (y, t)"
    by (auto simp: bnd_def split: option.splits)
  then obtain k k' where "s' = s\<lparr>kern := k\<rparr>" and "t = s'\<lparr>kern := k'\<rparr>"
    using kern_onlyD [OF assms(1)] kern_onlyD [OF assms(2)] by blast
  then show "\<exists>k. t = s\<lparr>kern := k\<rparr>" by auto
qed

lemma kern_only_if [frame_intros]:
  "kern_only m \<Longrightarrow> kern_only n \<Longrightarrow> kern_only (if b then m else n)"
  by simp

lemma kern_only_option [frame_intros]:
  "kern_only m \<Longrightarrow> (\<And>x. kern_only (f x)) \<Longrightarrow> kern_only (case r of None \<Rightarrow> m | Some x \<Rightarrow> f x)"
  by (cases r) auto

lemma kern_only_prod [frame_intros]:
  "(\<And>x y. kern_only (f x y)) \<Longrightarrow> kern_only (case r of (x, y) \<Rightarrow> f x y)"
  by (cases r) auto

lemma wlp_kern_only: "kern_only m \<Longrightarrow> (\<And>x k. Q x (s\<lparr>kern := k\<rparr>)) \<Longrightarrow> wlp m Q s"
  by (auto simp: wlp_def kern_only_def split: option.splits) metis

lemma safe_ret [safe_intros]: "safe (ret x)"
  by (simp add: safe_def ret_def)

lemma safe_gets [safe_intros]: "safe (gets f)"
  by (simp add: safe_def gets_def)

lemma safe_modify [safe_intros]: "safe (modify f)"
  by (simp add: safe_def modify_def)

lemma safe_kcall [safe_intros]: "safe (kcall f)"
  by (simp add: safe_def kcall_def split: prod.splits)

lemma safe_emit [safe_intros]: "safe (emit e)"
  by (simp add: emit_def safe_modify)

lemma safe_bnd [safe_intros]: "safe m \<Longrightarrow> (\<And>x. safe (f x)) \<Longrightarrow> safe (bnd m f)"
  by (auto simp: safe_def bnd_def split: option.splits)

lemma safe_if [safe_intros]: "(b \<Longrightarrow> safe m) \<Longrightarrow> (\<not> b \<Longrightarrow> safe n) \<Longrightarrow> safe (if b then m else n)"
  by simp

lemma safe_option [safe_intros]:
  "safe m \<Longrightarrow> (\<And>x. r = Some x \<Longrightarrow> safe (f x)) \<Longrightarrow> safe (case r of None \<Rightarrow> m | Some x \<Rightarrow> f x)"
  by (cases r) auto

lemma safe_prod [safe_intros]:
  "(\<And>x y. safe (f x y)) \<Longrightarrow> safe (case r of (x, y) \<Rightarrow> f x y)"
  by (cases r) auto

lemma safe_of_opt: "r \<noteq> None \<Longrightarrow> safe (of_opt r)"
  by (auto simp: safe_def of_opt_def)

lemma safeD: "safe m \<Longrightarrow> m s \<noteq> None"
  by (simp add: safe_def)

lemma safe_wp: "safe m \<Longrightarrow> wlp m Q s \<Longrightarrow> wp m Q s"
  by (auto simp: safe_def wlp_def wp_def split: option.splits)

text \<open>What a fragment returns, whatever it does to the state.\<close>

definition returns :: "('s, 'a) prog \<Rightarrow> ('a \<Rightarrow> bool) \<Rightarrow> bool" where
  "returns m P \<longleftrightarrow> (\<forall>s x t. m s = Some (x, t) \<longrightarrow> P x)"

lemma returns_True: "returns m (\<lambda>_. True)"
  by (simp add: returns_def)

lemma returns_ret: "P x \<Longrightarrow> returns (ret x) P"
  by (simp add: returns_def ret_def)

lemma returns_bnd: "(\<And>x. returns (f x) P) \<Longrightarrow> returns (bnd m f) P"
  by (auto simp: returns_def bnd_def split: option.splits)

lemma returns_bnd_from:
  "returns m R \<Longrightarrow> (\<And>x. R x \<Longrightarrow> returns (f x) P) \<Longrightarrow> returns (bnd m f) P"
  by (fastforce simp: returns_def bnd_def split: option.splits)

lemma returns_if: "returns m P \<Longrightarrow> returns n P \<Longrightarrow> returns (if b then m else n) P"
  by simp

lemma returns_option:
  "(r = None \<Longrightarrow> returns m P) \<Longrightarrow> (\<And>x. r = Some x \<Longrightarrow> returns (f x) P) \<Longrightarrow>
    returns (case r of None \<Rightarrow> m | Some x \<Rightarrow> f x) P"
  by (cases r) auto

lemma wlp_read:
  assumes "kern_only m" and "returns m P" and "\<And>x k. P x \<Longrightarrow> Q x (s\<lparr>kern := k\<rparr>)"
  shows "wlp m Q s"
proof (cases "m s")
  case (Some r)
  obtain x t where "m s = Some (x, t)" using Some by (cases r) auto
  moreover from this obtain k where "t = s\<lparr>kern := k\<rparr>" and "P x"
    using kern_onlyD [OF assms(1), of s x t] assms(2) unfolding returns_def by blast
  ultimately show ?thesis using assms(3) by (simp add: wlp_def)
qed (simp add: wlp_def)

lemma wp_read:
  assumes "safe m" and "kern_only m" and "returns m P" and "\<And>x k. P x \<Longrightarrow> Q x (s\<lparr>kern := k\<rparr>)"
  shows "wp m Q s"
  using assms by (intro safe_wp wlp_read)

text \<open>Replacing, creating or removing a file.\<close>

definition put_file :: "string \<Rightarrow> string option \<Rightarrow> (('k, 'e, 'z) os_state_scheme, unit) prog" where
  "put_file name c = modify (\<lambda>s. s\<lparr>files := (files s)(name := c)\<rparr>)"

text \<open>Doing something for each element of a list.\<close>

fun for_each :: "'a list \<Rightarrow> ('a \<Rightarrow> ('s, unit) prog) \<Rightarrow> ('s, unit) prog" where
  "for_each [] f = ret ()"
| "for_each (x # xs) f = bnd (f x) (\<lambda>_. for_each xs f)"

lemma wlp_for_each:
  assumes "\<And>x s. x \<in> set xs \<Longrightarrow> I s \<Longrightarrow> wlp (f x) (\<lambda>_. I) s"
  shows "I s \<Longrightarrow> wlp (for_each xs f) (\<lambda>_. I) s"
  using assms
proof (induction xs arbitrary: s)
  case Nil
  then show ?case by (simp add: wlp_ret)
next
  case (Cons x xs)
  show ?case
    unfolding for_each.simps wlp_bnd
    by (rule wlp_mono [OF Cons.prems(2)]) (use Cons in auto)
qed

lemma safe_for_each [safe_intros]: "(\<And>x. x \<in> set xs \<Longrightarrow> safe (f x)) \<Longrightarrow> safe (for_each xs f)"
  by (induction xs) (auto intro!: safe_intros)

text \<open>The invariant holds after each element, and what an element does is not undone by others.\<close>

lemma wlp_for_each_all:
  fixes f :: "'a \<Rightarrow> ('s, unit) prog"
  assumes inv: "I s" and step: "\<And>x s. x \<in> set xs \<Longrightarrow> I s \<Longrightarrow> wlp (f x) (\<lambda>_ t. I t \<and> P x t) s"
    and keep: "\<And>x y s. x \<in> set xs \<Longrightarrow> y \<in> set xs \<Longrightarrow> I s \<Longrightarrow> P y s \<Longrightarrow> wlp (f x) (\<lambda>_. P y) s"
  shows "wlp (for_each xs f) (\<lambda>_ t. I t \<and> (\<forall>x \<in> set xs. P x t)) s"
proof -
  have "wlp (for_each ys f) (\<lambda>_ t. I t \<and> (\<forall>x \<in> set xs. x \<in> D \<or> x \<in> set ys \<longrightarrow> P x t)) s"
    if "I s" "set ys \<subseteq> set xs" "\<forall>x \<in> set xs. x \<in> D \<longrightarrow> P x s" for ys D s
    using that
  proof (induction ys arbitrary: s D)
    case Nil
    then show ?case by (simp add: wlp_ret)
  next
    case (Cons y ys)
    have y: "y \<in> set xs" using Cons.prems(2) by simp
    have "wlp (f y) (\<lambda>_ t. \<forall>x \<in> set xs. x \<in> D \<longrightarrow> P x t) s"
      using keep [OF y _ Cons.prems(1)] Cons.prems(3)
      by (auto simp: wlp_def split: option.splits)
    then have "wlp (f y) (\<lambda>_ t. (I t \<and> P y t) \<and> (\<forall>x \<in> set xs. x \<in> D \<longrightarrow> P x t)) s"
      by (rule wlp_conj [OF step [OF y Cons.prems(1)]])
    then show ?case
      unfolding for_each.simps wlp_bnd
    proof (rule wlp_mono)
      fix u and t :: 's
      assume t: "(I t \<and> P y t) \<and> (\<forall>x \<in> set xs. x \<in> D \<longrightarrow> P x t)"
      have "wlp (for_each ys f) (\<lambda>_ t. I t \<and> (\<forall>x \<in> set xs. x \<in> insert y D \<or> x \<in> set ys \<longrightarrow> P x t)) t"
        using t Cons.prems(2) by (intro Cons.IH) auto
      then show "wlp (for_each ys f) (\<lambda>_ t. I t \<and> (\<forall>x \<in> set xs. x \<in> D \<or> x \<in> set (y # ys) \<longrightarrow> P x t)) t"
        by (rule wlp_mono) auto
    qed
  qed
  from this [of s xs "{}"] inv show ?thesis by (auto elim: wlp_mono)
qed

section \<open>Bytes\<close>

type_synonym byte = "8 word"
type_synonym u16 = "16 word"
type_synonym u32 = "32 word"

lemma byte_lt: "unat (b :: byte) < 256"
proof -
  have "unat b < 2 ^ LENGTH(8)" by (rule unsigned_less)
  then show ?thesis by simp
qed

definition rd8 :: "byte list \<Rightarrow> nat \<Rightarrow> byte option" where
  "rd8 buf i = (if i < length buf then Some (buf ! i) else None)"

definition rd_bytes :: "byte list \<Rightarrow> nat \<Rightarrow> nat \<Rightarrow> byte list option" where
  "rd_bytes buf i n = (if i + n \<le> length buf then Some (take n (drop i buf)) else None)"

text \<open>A little-endian integer of any width, and its bytes.\<close>

fun le_val :: "byte list \<Rightarrow> 'n::len word" where
  "le_val [] = 0"
| "le_val (b # bs) = ucast b OR push_bit 8 (le_val bs)"

definition le16 :: "u16 \<Rightarrow> byte list" where
  "le16 w = [ucast w, ucast (drop_bit 8 w)]"

definition le32 :: "u32 \<Rightarrow> byte list" where
  "le32 w = [ucast w, ucast (drop_bit 8 w), ucast (drop_bit 16 w), ucast (drop_bit 24 w)]"

definition rd16 :: "byte list \<Rightarrow> nat \<Rightarrow> u16 option" where
  "rd16 buf i = map_option le_val (rd_bytes buf i 2)"

definition rd32 :: "byte list \<Rightarrow> nat \<Rightarrow> u32 option" where
  "rd32 buf i = map_option le_val (rd_bytes buf i 4)"

lemma length_le16 [simp]: "length (le16 w) = 2"
  by (simp add: le16_def)

lemma length_le32 [simp]: "length (le32 w) = 4"
  by (simp add: le32_def)

lemma le_val_le16 [simp]: "le_val (le16 w) = w"
  by (simp add: le16_def) (rule bit_word_eqI, auto simp: bit_simps)

lemma le_val_le32 [simp]: "le_val (le32 w) = w"
proof (rule bit_word_eqI)
  fix n
  assume "n < LENGTH(32)"
  then consider "n < 8" | "8 \<le> n" "n < 16" | "16 \<le> n" "n < 24" | "24 \<le> n" "n < 32"
    by fastforce
  then show "bit (le_val (le32 w) :: u32) n \<longleftrightarrow> bit w n"
    by cases (auto simp: le32_def bit_simps)
qed

text \<open>Reads inside one segment of a buffer that is put together from several.\<close>

lemma rd8_mid [rd_simps]: "i < length xs \<Longrightarrow> rd8 (pre @ xs @ post) (length pre + i) = Some (xs ! i)"
  by (simp add: rd8_def nth_append)

lemma rd8_mid_Suc [rd_simps]:
  "1 < length xs \<Longrightarrow> rd8 (pre @ xs @ post) (Suc (length pre)) = Some (xs ! 1)"
  "2 < length xs \<Longrightarrow> rd8 (pre @ xs @ post) (Suc (Suc (length pre))) = Some (xs ! 2)"
  using rd8_mid [of 1 xs pre post] rd8_mid [of 2 xs pre post] by simp_all

lemma rd_bytes_mid [rd_simps]:
  "i + n \<le> length xs \<Longrightarrow>
    rd_bytes (pre @ xs @ post) (length pre + i) n = Some (take n (drop i xs))"
  by (simp add: rd_bytes_def)

lemma rd16_mid [rd_simps]:
  "i + 2 \<le> length xs \<Longrightarrow>
    rd16 (pre @ xs @ post) (length pre + i) = Some (le_val (take 2 (drop i xs)))"
  by (simp add: rd16_def rd_bytes_mid)

lemma rd32_mid [rd_simps]:
  "i + 4 \<le> length xs \<Longrightarrow>
    rd32 (pre @ xs @ post) (length pre + i) = Some (le_val (take 4 (drop i xs)))"
  by (simp add: rd32_def rd_bytes_mid)

text \<open>\<open>memcmp\<close> on two objects of the same size.\<close>

fun memcmp :: "byte list \<Rightarrow> byte list \<Rightarrow> int" where
  "memcmp (x # xs) (y # ys) = (if x = y then memcmp xs ys else uint x - uint y)"
| "memcmp _ _ = 0"

lemma memcmp_zero: "length xs = length ys \<Longrightarrow> memcmp xs ys = 0 \<longleftrightarrow> xs = ys"
  by (induction xs ys rule: memcmp.induct) (auto simp: word_uint_eq_iff)

lemma memcmp_ge: "length xs = length ys \<Longrightarrow> 0 \<le> memcmp xs ys \<longleftrightarrow> ys \<le> xs"
  by (induction xs ys rule: memcmp.induct)
    (auto simp: word_le_def word_less_def word_uint_eq_iff order_less_le)

section \<open>Addresses\<close>

text \<open>
  \<open>struct in6_addr\<close> and a MAC address are byte arrays of 16 and 6 bytes in network order.
\<close>

type_synonym in6_addr = "byte list"
type_synonym in_addr = "byte list"
type_synonym mac_addr = "byte list"

definition in6_linklocal :: "in6_addr \<Rightarrow> bool" where
  "in6_linklocal a \<longleftrightarrow> a ! 0 = 0xfe \<and> a ! 1 AND 0xc0 = 0x80"

definition in6_mc_linklocal :: "in6_addr \<Rightarrow> bool" where
  "in6_mc_linklocal a \<longleftrightarrow> a ! 0 = 0xff \<and> a ! 1 AND 0x0f = 0x02"

definition in6_unspecified :: "in6_addr \<Rightarrow> bool" where
  "in6_unspecified a \<longleftrightarrow> a = replicate 16 0"

section \<open>The C library\<close>

text \<open>
  A C string is the characters before its terminating NUL; reading at or past the end of the
  list is reading the NUL. \<open>fgets n\<close> takes at most \<open>n - 1\<close> characters, up to and with the
  first newline, and fails at the end of the file.
\<close>

definition nul :: char where
  "nul = CHR 0x00"

definition newline :: char where
  "newline = CHR 0x0A"

fun fgets_take :: "nat \<Rightarrow> string \<Rightarrow> string" where
  "fgets_take 0 _ = []"
| "fgets_take _ [] = []"
| "fgets_take (Suc n) (c # cs) = (if c = newline then [c] else c # fgets_take n cs)"

definition fgets :: "nat \<Rightarrow> string \<Rightarrow> string option" where
  "fgets n cs = (if cs = [] then None else Some (fgets_take (n - 1) cs))"

definition c_hd :: "string \<Rightarrow> char" where
  "c_hd s = (case s of [] \<Rightarrow> nul | c # _ \<Rightarrow> c)"

text \<open>Whether \<open>strncmp(a, b, n)\<close> returns 0.\<close>

fun strncmp_eq :: "string \<Rightarrow> string \<Rightarrow> nat \<Rightarrow> bool" where
  "strncmp_eq a b 0 = True"
| "strncmp_eq a b (Suc n) =
     (if c_hd a \<noteq> c_hd b then False
      else if c_hd a = nul then True
      else strncmp_eq (tl a) (tl b) n)"

lemma strncmp_eq_prefix:
  "nul \<notin> set b \<Longrightarrow> strncmp_eq a b (length b) \<longleftrightarrow> take (length b) a = b"
proof (induction b arbitrary: a)
  case Nil
  then show ?case by simp
next
  case (Cons c b)
  then show ?case by (cases a) (auto simp: c_hd_def)
qed

lemma fgets_take_length: "length (fgets_take n s) \<le> n"
  by (induction n s rule: fgets_take.induct) auto

lemma fgets_take_prefix:
  "newline \<notin> set b \<Longrightarrow> length b \<le> n \<Longrightarrow>
    take (length b) (fgets_take n s) = b \<longleftrightarrow> take (length b) s = b"
proof (induction b arbitrary: n s)
  case Nil
  then show ?case by simp
next
  case (Cons c b)
  then show ?case by (cases n; cases s) auto
qed

lemma strncmp_fgets:
  assumes "length b = n" and "nul \<notin> set b" and "newline \<notin> set b" and "n \<le> k"
  shows "strncmp_eq (fgets_take k s) b n \<longleftrightarrow> take n s = b"
  using strncmp_eq_prefix [of b "fgets_take k s"] fgets_take_prefix [of b k s] assms by simp

definition is_space :: "char \<Rightarrow> bool" where
  "is_space c \<longleftrightarrow> c \<in> {CHR '' '', CHR 0x09, CHR 0x0A, CHR 0x0B, CHR 0x0C, CHR 0x0D}"

definition lower_char :: "char \<Rightarrow> char" where
  "lower_char c = (let n = of_char c :: nat in if 65 \<le> n \<and> n \<le> 90 then char_of (n + 32) else c)"

definition is_digit :: "char \<Rightarrow> bool" where
  "is_digit c \<longleftrightarrow> 48 \<le> (of_char c :: nat) \<and> (of_char c :: nat) \<le> 57"

definition dec_val :: "string \<Rightarrow> nat" where
  "dec_val ds = foldl (\<lambda>n c. 10 * n + (of_char c - 48)) 0 ds"

text \<open>The greatest \<open>int\<close>.\<close>

definition int_max :: int where
  "int_max = 2 ^ 31 - 1"

text \<open>\<open>interval * 1000\<close> on C's \<open>int\<close>: an overflow is undefined.\<close>

definition c_mul :: "int \<Rightarrow> int \<Rightarrow> int option" where
  "c_mul a b = (let r = a * b in if - int_max - 1 \<le> r \<and> r \<le> int_max then Some r else None)"

lemma c_mul_1000: "1 \<le> i \<Longrightarrow> c_mul i 1000 = None \<longleftrightarrow> 2147483 < i"
  by (auto simp: c_mul_def int_max_def Let_def)

text \<open>
  \<open>atoi\<close> skips white space, reads an optional sign and the digits that follow, 0 when there
  are none. A value outside \<open>int\<close> is undefined behaviour: \<open>None\<close>.
\<close>

definition atoi :: "string \<Rightarrow> int option" where
  "atoi s =
     (let t = dropWhile is_space s;
          neg = (c_hd t = CHR ''-'');
          u = (if c_hd t \<in> {CHR ''-'', CHR ''+''} then tl t else t);
          v = int (dec_val (takeWhile is_digit u));
          r = (if neg then - v else v)
      in if - int_max - 1 \<le> r \<and> r \<le> int_max then Some r else None)"

text \<open>
  \<open>getopt\<close> over the arguments after the program's name, for an option string given as the
  list of its letters with whether each takes an argument. \<open>optind\<close> is what is left. It
  stops at the first argument that is no option, after \<open>--\<close>, and reports an unknown letter
  or a missing argument as \<open>Opt_bad\<close>, which makes every caller here stop.
\<close>

datatype opt = Opt char | Opt_arg char string | Opt_bad

fun getopt_cluster :: "(char \<times> bool) list \<Rightarrow> string \<Rightarrow> string list \<Rightarrow> opt list \<times> string list" where
  "getopt_cluster os [] rest = ([], rest)"
| "getopt_cluster os (c # cs) rest =
     (case map_of os c of
        None \<Rightarrow> ([Opt_bad], rest)
      | Some False \<Rightarrow> (case getopt_cluster os cs rest of (ps, r) \<Rightarrow> (Opt c # ps, r))
      | Some True \<Rightarrow>
          (if cs \<noteq> [] then ([Opt_arg c cs], rest)
           else case rest of [] \<Rightarrow> ([Opt_bad], []) | a # r \<Rightarrow> ([Opt_arg c a], r)))"

lemma getopt_cluster_rest: "length (snd (getopt_cluster os cs rest)) \<le> length rest"
  by (induction os cs rest rule: getopt_cluster.induct)
    (auto split: option.splits bool.splits prod.splits list.splits)

lemma getopt_cluster_rest_le:
  "(ps, r) = getopt_cluster os cs rest \<Longrightarrow> length r \<le> length rest"
  using getopt_cluster_rest [of os cs rest] by (metis snd_conv)

function getopt :: "(char \<times> bool) list \<Rightarrow> string list \<Rightarrow> opt list \<times> string list" where
  "getopt os [] = ([], [])"
| "getopt os (a # as) =
     (if a = ''--'' then ([], as)
      else if length a < 2 \<or> hd a \<noteq> CHR ''-'' then ([], a # as)
      else case getopt_cluster os (tl a) as of
             (ps, r) \<Rightarrow> (case getopt os r of (qs, r') \<Rightarrow> (ps @ qs, r')))"
  by pat_completeness auto
termination
  by (relation "measure (\<lambda>(os, as). length as)")
    (auto simp: le_imp_less_Suc dest: getopt_cluster_rest_le)

end
