(* ===== verification/Route_Msg.thy ===== *)
theory Route_Msg
  imports V4_Prelude "HOL-Library.Monad_Syntax"
begin

text \<open>
  The routing socket's message format, as the FreeBSD and macOS daemons read it from a
  \<open>sysctl\<close> dump: messages back to back, each a \<open>struct rt_msghdr\<close> followed by the socket
  addresses its \<open>rtm_addrs\<close> bits announce, each padded to the platform's alignment.

  The readers work on the raw bytes with checked reads; \<open>rtm_scan\<close> is the loop all of them
  share, \<open>rti_walk\<close> the walk over the packed addresses. \<open>enc_msg\<close> is the writer's side, what
  the kernel puts in a dump. The locale \<open>rt_scanner\<close> states the one law a loop body has to
  satisfy, that it reads an encoded message as \<open>sel\<close> says, and gives the behaviour of the
  whole scan: no fault, no endless loop, and the first selected message as the result. Each
  scanner of the two daemons interprets it.

  The header size, the padding and the value of \<open>AF_INET6\<close> differ between the platforms and
  are the fields of \<open>rt_abi\<close>; the offsets inside the header, the remaining constants and the
  socket address layouts are the same on both and are the ones \<^verbatim>\<open><net/route.h>\<close>,
  \<^verbatim>\<open><netinet/in.h>\<close> and \<^verbatim>\<open><net/if_dl.h>\<close> document.
\<close>

section \<open>Constants and layouts\<close>

record rt_abi =
  hdr_size :: nat   \<comment> \<open>\<open>sizeof(struct rt_msghdr)\<close>\<close>
  sa_align :: nat   \<comment> \<open>what a socket address is padded to\<close>
  af_inet6 :: byte

definition RTM_VERSION :: byte where "RTM_VERSION = 5"
definition AF_INET :: byte where "AF_INET = 2"
definition AF_LINK :: byte where "AF_LINK = 18"
definition RTF_UP :: u32 where "RTF_UP = 0x1"
definition RTF_GATEWAY :: u32 where "RTF_GATEWAY = 0x2"
definition RTF_STATIC :: u32 where "RTF_STATIC = 0x800"
definition RTAX_DST :: nat where "RTAX_DST = 0"
definition RTAX_GATEWAY :: nat where "RTAX_GATEWAY = 1"
definition RTAX_MAX :: nat where "RTAX_MAX = 8"

lemmas slot_index = RTAX_DST_def RTAX_GATEWAY_def RTAX_MAX_def

text \<open>\<open>SA_SIZE\<close> and \<open>ROUNDUP\<close>: the padded size of an address whose length byte is \<open>n\<close>.\<close>

definition sa_roundup :: "nat \<Rightarrow> nat \<Rightarrow> nat" where
  "sa_roundup al n = (if n > 0 then 1 + ((n - 1) OR (al - 1)) else al)"

text \<open>Fields of the header at \<open>p\<close> and of the socket address at \<open>q\<close>.\<close>

definition rtm_msglen :: "byte list \<Rightarrow> nat \<Rightarrow> u16 option" where
  "rtm_msglen buf p = rd16 buf p"

definition rtm_version :: "byte list \<Rightarrow> nat \<Rightarrow> byte option" where
  "rtm_version buf p = rd8 buf (p + 2)"

definition rtm_index :: "byte list \<Rightarrow> nat \<Rightarrow> u16 option" where
  "rtm_index buf p = rd16 buf (p + 4)"

definition rtm_flags :: "byte list \<Rightarrow> nat \<Rightarrow> u32 option" where
  "rtm_flags buf p = rd32 buf (p + 8)"

definition rtm_addrs :: "byte list \<Rightarrow> nat \<Rightarrow> u32 option" where
  "rtm_addrs buf p = rd32 buf (p + 12)"

definition rtm_pid :: "byte list \<Rightarrow> nat \<Rightarrow> u32 option" where
  "rtm_pid buf p = rd32 buf (p + 16)"

definition sa_family :: "byte list \<Rightarrow> nat \<Rightarrow> byte option" where
  "sa_family buf q = rd8 buf (q + 1)"

definition sin_addr :: "byte list \<Rightarrow> nat \<Rightarrow> in_addr option" where
  "sin_addr buf q = rd_bytes buf (q + 4) 4"

definition sin6_addr :: "byte list \<Rightarrow> nat \<Rightarrow> in6_addr option" where
  "sin6_addr buf q = rd_bytes buf (q + 8) 16"

definition sdl_alen :: "byte list \<Rightarrow> nat \<Rightarrow> byte option" where
  "sdl_alen buf q = rd8 buf (q + 6)"

text \<open>\<open>n\<close> bytes at \<open>LLADDR(sdl)\<close>, which follows the \<open>sdl_nlen\<close> bytes of the name.\<close>

definition sdl_lladdr :: "byte list \<Rightarrow> nat \<Rightarrow> nat \<Rightarrow> byte list option" where
  "sdl_lladdr buf q n = do { nlen \<leftarrow> rd8 buf (q + 5); rd_bytes buf (q + 8 + unat nlen) n }"

section \<open>Reading\<close>

text \<open>
  The offsets of the socket addresses of the slots \<open>is\<close>, \<open>None\<close> for an absent one. The
  length byte of every present address is read to step over it.
\<close>

fun rti_walk :: "rt_abi \<Rightarrow> byte list \<Rightarrow> u32 \<Rightarrow> nat list \<Rightarrow> nat \<Rightarrow> nat option list option" where
  "rti_walk A buf addrs [] q = Some []"
| "rti_walk A buf addrs (i # is) q =
     (if bit addrs i then
        do { len \<leftarrow> rd8 buf q;
             rest \<leftarrow> rti_walk A buf addrs is (q + sa_roundup (sa_align A) (unat len));
             Some (Some q # rest) }
      else
        do { rest \<leftarrow> rti_walk A buf addrs is q;
             Some (None # rest) })"

text \<open>
  The loop over a dump. \<open>body\<close> inspects the message at \<open>p\<close>; the next one starts
  \<open>rtm_msglen\<close> bytes later. A message of length 0 that the body does not stop at makes the
  loop run for ever, and a body that reads outside the buffer faults: both are \<open>None\<close>.
\<close>

datatype 'a ctl = Continue | Break 'a

partial_function (option) rtm_scan ::
    "(byte list \<Rightarrow> nat \<Rightarrow> 'a ctl option) \<Rightarrow> byte list \<Rightarrow> nat \<Rightarrow> 'a option option" where
  "rtm_scan body buf p =
     (if p < length buf then
        Option.bind (rtm_msglen buf p) (\<lambda>len.
        Option.bind (body buf p) (\<lambda>c.
          case c of
            Break x \<Rightarrow> Some (Some x)
          | Continue \<Rightarrow> rtm_scan body buf (p + unat len)))
      else Some None)"

section \<open>Writing: what a dump holds\<close>

text \<open>
  A message by its fields. Slot \<open>i\<close> holds the padded bytes of the address \<open>RTAX_i\<close>;
  \<open>rm_spare\<close> is the padding after \<open>rtm_index\<close>, \<open>rm_rest\<close> the header after \<open>rtm_addrs\<close>.
\<close>

record rt_msg =
  rm_version :: byte
  rm_type :: byte
  rm_index :: u16
  rm_spare :: "byte list"
  rm_flags :: u32
  rm_rest :: "byte list"
  rm_slots :: "byte list option list"

definition slot_bits :: "byte list option list \<Rightarrow> u32" where
  "slot_bits ss = horner_sum of_bool 2 (map (\<lambda>s. s \<noteq> None) ss)"

definition enc_slots :: "byte list option list \<Rightarrow> byte list" where
  "enc_slots ss = concat (map (\<lambda>s. case s of None \<Rightarrow> [] | Some sa \<Rightarrow> sa) ss)"

definition msg_len :: "rt_msg \<Rightarrow> nat" where
  "msg_len m = 16 + length (rm_rest m) + length (enc_slots (rm_slots m))"

definition enc_hdr :: "rt_msg \<Rightarrow> byte list" where
  "enc_hdr m = le16 (of_nat (msg_len m)) @ [rm_version m, rm_type m] @ le16 (rm_index m)
     @ rm_spare m @ le32 (rm_flags m) @ le32 (slot_bits (rm_slots m)) @ rm_rest m"

definition enc_msg :: "rt_msg \<Rightarrow> byte list" where
  "enc_msg m = enc_hdr m @ enc_slots (rm_slots m)"

definition enc_msgs :: "rt_msg list \<Rightarrow> byte list" where
  "enc_msgs ms = concat (map enc_msg ms)"

text \<open>
  A padded address is as long as its length byte says, and long enough for the fields of its
  family: 8 bytes up to the end of \<open>sin_addr\<close>, 24 up to the end of \<open>sin6_addr\<close>, the name and
  the link-layer address after the 8 fixed bytes of a \<open>sockaddr_dl\<close>.
\<close>

definition wf_sa :: "rt_abi \<Rightarrow> byte list \<Rightarrow> bool" where
  "wf_sa A sa \<longleftrightarrow> 2 \<le> length sa \<and> length sa = sa_roundup (sa_align A) (unat (sa ! 0)) \<and>
     (sa ! 1 = AF_INET \<longrightarrow> 8 \<le> length sa) \<and>
     (sa ! 1 = af_inet6 A \<longrightarrow> 24 \<le> length sa) \<and>
     (sa ! 1 = AF_LINK \<longrightarrow> 8 \<le> length sa \<and> 8 + unat (sa ! 5) + unat (sa ! 6) \<le> length sa)"

definition wf_msg :: "rt_abi \<Rightarrow> rt_msg \<Rightarrow> bool" where
  "wf_msg A m \<longleftrightarrow> length (rm_spare m) = 2 \<and> 16 + length (rm_rest m) = hdr_size A \<and>
     length (rm_slots m) = RTAX_MAX \<and> (\<forall>sa. Some sa \<in> set (rm_slots m) \<longrightarrow> wf_sa A sa) \<and>
     msg_len m < 2 ^ 16"

section \<open>Headers and slots read back\<close>

lemma length_enc_hdr: "length (rm_spare m) = 2 \<Longrightarrow> length (enc_hdr m) = 16 + length (rm_rest m)"
  by (simp add: enc_hdr_def)

lemma length_enc_msg: "wf_msg A m \<Longrightarrow> length (enc_msg m) = msg_len m"
  by (simp add: enc_msg_def length_enc_hdr wf_msg_def msg_len_def)

lemma msg_len_pos: "0 < msg_len m"
  by (simp add: msg_len_def)

lemma enc_msgs_Nil:
  assumes "\<forall>m \<in> set ms. wf_msg A m"
  shows "enc_msgs ms = [] \<longleftrightarrow> ms = []"
proof (cases ms)
  case (Cons m ms')
  then have "enc_msg m \<noteq> []"
    using assms length_enc_msg [of A m] msg_len_pos [of m] by auto
  then show ?thesis using Cons by (simp add: enc_msgs_def)
qed (simp add: enc_msgs_def)

lemma rd_hdr:
  assumes "wf_msg A m"
  shows "rtm_msglen (pre @ enc_msg m @ post) (length pre) = Some (of_nat (msg_len m))"
    and "rtm_version (pre @ enc_msg m @ post) (length pre) = Some (rm_version m)"
    and "rtm_index (pre @ enc_msg m @ post) (length pre) = Some (rm_index m)"
    and "rtm_flags (pre @ enc_msg m @ post) (length pre) = Some (rm_flags m)"
    and "rtm_addrs (pre @ enc_msg m @ post) (length pre) = Some (slot_bits (rm_slots m))"
proof -
  have sp: "length (rm_spare m) = 2"
    using assms by (simp add: wf_msg_def)
  have len: "16 \<le> length (enc_msg m)"
    using sp by (simp add: enc_msg_def length_enc_hdr)
  have 0: "rtm_msglen (pre @ enc_msg m @ post) (length pre) =
      Some (le_val (take 2 (drop 0 (enc_msg m))))"
    using rd16_mid [of 0 "enc_msg m" pre post] len by (simp add: rtm_msglen_def)
  then show "rtm_msglen (pre @ enc_msg m @ post) (length pre) = Some (of_nat (msg_len m))"
    by (simp add: enc_msg_def enc_hdr_def)
  show "rtm_version (pre @ enc_msg m @ post) (length pre) = Some (rm_version m)"
    using len by (simp add: rtm_version_def rd8_mid_Suc) (simp add: enc_msg_def enc_hdr_def nth_append)
  show "rtm_index (pre @ enc_msg m @ post) (length pre) = Some (rm_index m)"
    using len by (simp add: rtm_index_def rd16_mid) (simp add: enc_msg_def enc_hdr_def)
  show "rtm_flags (pre @ enc_msg m @ post) (length pre) = Some (rm_flags m)"
    using len sp by (simp add: rtm_flags_def rd32_mid) (simp add: enc_msg_def enc_hdr_def)
  show "rtm_addrs (pre @ enc_msg m @ post) (length pre) = Some (slot_bits (rm_slots m))"
    using len sp by (simp add: rtm_addrs_def rd32_mid) (simp add: enc_msg_def enc_hdr_def)
qed

lemma bit_slot_bits:
  "length ss = RTAX_MAX \<Longrightarrow> i < RTAX_MAX \<Longrightarrow> bit (slot_bits ss) i \<longleftrightarrow> ss ! i \<noteq> None"
  by (simp add: slot_bits_def RTAX_MAX_def bit_horner_sum_bit_word_iff)

text \<open>Where the walk finds the slots of an encoded message.\<close>

fun slot_offs :: "nat \<Rightarrow> byte list option list \<Rightarrow> nat option list" where
  "slot_offs q [] = []"
| "slot_offs q (None # ss) = None # slot_offs q ss"
| "slot_offs q (Some sa # ss) = Some q # slot_offs (q + length sa) ss"

lemma enc_slots_simps [simp]:
  "enc_slots [] = []"
  "enc_slots (None # ss) = enc_slots ss"
  "enc_slots (Some sa # ss) = sa @ enc_slots ss"
  by (simp_all add: enc_slots_def)

lemma enc_slots_append: "enc_slots (xs @ ys) = enc_slots xs @ enc_slots ys"
  by (simp add: enc_slots_def)

lemma rti_walk_enc:
  assumes "\<And>j. j < length ss \<Longrightarrow> bit addrs (k + j) \<longleftrightarrow> ss ! j \<noteq> None"
    and "\<And>sa. Some sa \<in> set ss \<Longrightarrow> wf_sa A sa"
  shows "rti_walk A (pre @ enc_slots ss @ post) addrs [k..<k + length ss] (length pre)
    = Some (slot_offs (length pre) ss)"
  using assms
proof (induction ss arbitrary: k pre)
  case Nil
  then show ?case by simp
next
  case (Cons s ss)
  have step: "rti_walk A (pre' @ enc_slots ss @ post) addrs [Suc k..<Suc k + length ss] (length pre')
      = Some (slot_offs (length pre') ss)" for pre'
  proof (rule Cons.IH)
    fix j
    assume "j < length ss"
    then show "bit addrs (Suc k + j) \<longleftrightarrow> ss ! j \<noteq> None"
      using Cons.prems(1) [of "Suc j"] by simp
  qed (simp add: Cons.prems(2))
  have k: "bit addrs k \<longleftrightarrow> s \<noteq> None"
    using Cons.prems(1) [of 0] by simp
  have upt: "[k..<k + length (s # ss)] = k # [Suc k..<Suc k + length ss]"
    by (simp add: upt_conv_Cons del: upt_Suc)
  show ?case
  proof (cases s)
    case None
    then show ?thesis unfolding upt using k step [of pre] by simp
  next
    case (Some sa)
    then have wf: "wf_sa A sa" using Cons.prems(2) by simp
    then have "rd8 (pre @ sa @ enc_slots ss @ post) (length pre + 0) = Some (sa ! 0)"
      by (intro rd8_mid) (simp add: wf_sa_def)
    moreover have "length sa = sa_roundup (sa_align A) (unat (sa ! 0))"
      using wf by (simp add: wf_sa_def)
    ultimately show ?thesis
      unfolding upt using Some k step [of "pre @ sa"] by simp
  qed
qed

lemma slot_offs_nth:
  "i < length ss \<Longrightarrow>
    slot_offs q ss ! i = map_option (\<lambda>_. q + length (enc_slots (take i ss))) (ss ! i)"
proof (induction q ss arbitrary: i rule: slot_offs.induct)
  case (2 q ss)
  then show ?case by (cases i) auto
next
  case (3 q sa ss)
  then show ?case by (cases i) (auto simp: add.assoc)
qed simp

lemma length_slot_offs [simp]: "length (slot_offs q ss) = length ss"
  by (induction q ss rule: slot_offs.induct) auto

lemma slot_offs_take: "n \<le> length ss \<Longrightarrow> slot_offs q (take n ss) = take n (slot_offs q ss)"
proof (induction q ss arbitrary: n rule: slot_offs.induct)
  case (2 q ss)
  then show ?case by (cases n) auto
next
  case (3 q sa ss)
  then show ?case by (cases n) auto
qed simp

text \<open>The start of a message's addresses and the offset of each of them.\<close>

definition slot_at :: "rt_abi \<Rightarrow> nat \<Rightarrow> rt_msg \<Rightarrow> nat \<Rightarrow> nat" where
  "slot_at A p m i = p + hdr_size A + length (enc_slots (take i (rm_slots m)))"

lemma walk_msg:
  assumes "wf_msg A m" and "n \<le> RTAX_MAX"
  shows "rti_walk A (pre @ enc_msg m @ post) (slot_bits (rm_slots m)) [0..<n]
      (length pre + hdr_size A)
    = Some (map (\<lambda>i. map_option (\<lambda>_. slot_at A (length pre) m i) (rm_slots m ! i)) [0..<n])"
proof -
  let ?ss = "rm_slots m"
  have hdr: "length (enc_hdr m) = hdr_size A"
    using assms(1) by (simp add: wf_msg_def length_enc_hdr)
  have "rti_walk A ((pre @ enc_hdr m) @ enc_slots (take n ?ss) @ (enc_slots (drop n ?ss) @ post))
      (slot_bits ?ss) [0..<0 + length (take n ?ss)] (length (pre @ enc_hdr m))
    = Some (slot_offs (length (pre @ enc_hdr m)) (take n ?ss))"
    using assms by (intro rti_walk_enc)
      (auto simp: bit_slot_bits wf_msg_def dest: in_set_takeD)
  moreover have "enc_slots (take n ?ss) @ enc_slots (drop n ?ss) = enc_slots ?ss"
    by (simp flip: enc_slots_append)
  then have buf: "(pre @ enc_hdr m) @ enc_slots (take n ?ss) @ (enc_slots (drop n ?ss) @ post)
      = pre @ enc_msg m @ post"
    by (metis append_assoc enc_msg_def)
  moreover have "length (take n ?ss) = n"
    using assms by (simp add: wf_msg_def)
  ultimately have "rti_walk A (pre @ enc_msg m @ post) (slot_bits ?ss) [0..<n]
      (length pre + hdr_size A) = Some (slot_offs (length pre + hdr_size A) (take n ?ss))"
    unfolding buf by (simp add: hdr del: take_all_iff append_assoc)
  moreover have "slot_offs (length pre + hdr_size A) (take n ?ss)
      = map (\<lambda>i. map_option (\<lambda>_. slot_at A (length pre) m i) (?ss ! i)) [0..<n]"
  proof (rule nth_equalityI)
    fix i
    assume "i < length (slot_offs (length pre + hdr_size A) (take n ?ss))"
    then have "i < n" by simp
    then show "slot_offs (length pre + hdr_size A) (take n ?ss) ! i =
        map (\<lambda>i. map_option (\<lambda>_. slot_at A (length pre) m i) (?ss ! i)) [0..<n] ! i"
      using assms by (simp add: slot_offs_nth slot_at_def wf_msg_def min_absorb1)
  qed (use assms in \<open>simp add: wf_msg_def\<close>)
  ultimately show ?thesis by simp
qed

text \<open>The fields of the address in slot \<open>i\<close>.\<close>

lemma slot_split:
  assumes "wf_msg A m" and "i < RTAX_MAX" and "rm_slots m ! i = Some sa"
  obtains pre' post' where "pre @ enc_msg m @ post = pre' @ sa @ post'"
    and "length pre' = slot_at A (length pre) m i" and "wf_sa A sa"
proof
  let ?ss = "rm_slots m"
  have i: "i < length ?ss"
    using assms by (simp add: wf_msg_def)
  have "?ss = take i ?ss @ Some sa # drop (Suc i) ?ss"
    using id_take_nth_drop [OF i] assms(3) by simp
  then have "enc_slots ?ss = enc_slots (take i ?ss) @ sa @ enc_slots (drop (Suc i) ?ss)"
    by (metis enc_slots_append enc_slots_simps(3))
  then show "pre @ enc_msg m @ post
      = (pre @ enc_hdr m @ enc_slots (take i ?ss)) @ sa @ (enc_slots (drop (Suc i) ?ss) @ post)"
    by (simp add: enc_msg_def)
  show "length (pre @ enc_hdr m @ enc_slots (take i ?ss)) = slot_at A (length pre) m i"
    using assms(1) by (simp add: slot_at_def wf_msg_def length_enc_hdr)
  have "Some sa \<in> set ?ss"
    using i assms(3) by (metis nth_mem)
  then show "wf_sa A sa"
    using assms(1) by (simp add: wf_msg_def)
qed

text \<open>What the fields of a padded address are, as bytes of it.\<close>

definition sa_fam :: "byte list \<Rightarrow> byte" where "sa_fam sa = sa ! 1"
definition sa_in :: "byte list \<Rightarrow> in_addr" where "sa_in sa = take 4 (drop 4 sa)"
definition sa_in6 :: "byte list \<Rightarrow> in6_addr" where "sa_in6 sa = take 16 (drop 8 sa)"
definition sa_alen :: "byte list \<Rightarrow> byte" where "sa_alen sa = sa ! 6"
definition sa_ll :: "byte list \<Rightarrow> nat \<Rightarrow> byte list" where
  "sa_ll sa n = take n (drop (8 + unat (sa ! 5)) sa)"

lemma rd_slot:
  assumes "wf_msg A m" and "i < RTAX_MAX" and "rm_slots m ! i = Some sa"
  shows "sa_family (pre @ enc_msg m @ post) (slot_at A (length pre) m i) = Some (sa_fam sa)"
    and "sa_fam sa = AF_INET \<Longrightarrow>
      sin_addr (pre @ enc_msg m @ post) (slot_at A (length pre) m i) = Some (sa_in sa)"
    and "sa_fam sa = af_inet6 A \<Longrightarrow>
      sin6_addr (pre @ enc_msg m @ post) (slot_at A (length pre) m i) = Some (sa_in6 sa)"
    and "sa_fam sa = AF_LINK \<Longrightarrow>
      sdl_alen (pre @ enc_msg m @ post) (slot_at A (length pre) m i) = Some (sa_alen sa)"
    and "sa_fam sa = AF_LINK \<Longrightarrow> n \<le> unat (sa_alen sa) \<Longrightarrow>
      sdl_lladdr (pre @ enc_msg m @ post) (slot_at A (length pre) m i) n = Some (sa_ll sa n)"
proof -
  obtain pre' post' where buf: "pre @ enc_msg m @ post = pre' @ sa @ post'"
    and at: "slot_at A (length pre) m i = length pre'" and wf: "wf_sa A sa"
    using slot_split [OF assms] by metis
  show "sa_family (pre @ enc_msg m @ post) (slot_at A (length pre) m i) = Some (sa_fam sa)"
    using wf by (simp add: buf at sa_family_def rd8_mid_Suc wf_sa_def sa_fam_def)
  show "sin_addr (pre @ enc_msg m @ post) (slot_at A (length pre) m i) = Some (sa_in sa)"
    if "sa_fam sa = AF_INET"
    using wf that by (simp add: buf at sin_addr_def rd_bytes_mid wf_sa_def sa_fam_def sa_in_def)
  show "sin6_addr (pre @ enc_msg m @ post) (slot_at A (length pre) m i) = Some (sa_in6 sa)"
    if "sa_fam sa = af_inet6 A"
    using wf that by (simp add: buf at sin6_addr_def rd_bytes_mid wf_sa_def sa_fam_def sa_in6_def)
  show "sdl_alen (pre @ enc_msg m @ post) (slot_at A (length pre) m i) = Some (sa_alen sa)"
    if "sa_fam sa = AF_LINK"
    using wf that by (simp add: buf at sdl_alen_def rd8_mid wf_sa_def sa_fam_def sa_alen_def)
  show "sdl_lladdr (pre @ enc_msg m @ post) (slot_at A (length pre) m i) n = Some (sa_ll sa n)"
    if "sa_fam sa = AF_LINK" and "n \<le> unat (sa_alen sa)"
    using wf that rd_bytes_mid [of "8 + unat (sa ! 5)" n sa pre' post']
    by (simp add: buf at sdl_lladdr_def rd8_mid wf_sa_def sa_fam_def sa_alen_def sa_ll_def add.assoc)
qed

lemmas rd_msg = rd_hdr walk_msg rd_slot

section \<open>The scan over a dump\<close>

fun first_some :: "('m \<Rightarrow> 'a option) \<Rightarrow> 'm list \<Rightarrow> 'a option" where
  "first_some f [] = None"
| "first_some f (x # xs) = (case f x of None \<Rightarrow> first_some f xs | Some y \<Rightarrow> Some y)"

lemma first_some_None: "first_some f xs = None \<longleftrightarrow> (\<forall>x \<in> set xs. f x = None)"
  by (induction xs) (auto split: option.splits)

lemma first_some_Some: "first_some f xs = Some y \<Longrightarrow> \<exists>x \<in> set xs. f x = Some y"
  by (induction xs) (auto split: option.splits)

text \<open>Whatever the buffer holds, a scan returns only what the body stopped with.\<close>

lemma rtm_scan_returns:
  assumes scan: "rtm_scan body buf p = Some r"
    and body: "\<And>buf p x. body buf p = Some (Break x) \<Longrightarrow> P x"
  shows "\<forall>x. r = Some x \<longrightarrow> P x"
proof -
  have "body = body \<longrightarrow> (\<forall>x. r = Some x \<longrightarrow> P x)"
  proof (rule rtm_scan.raw_induct [where P = "\<lambda>b buf p r. b = body \<longrightarrow> (\<forall>x. r = Some x \<longrightarrow> P x)",
      OF _ scan], intro impI allI)
    fix f :: "(byte list \<Rightarrow> nat \<Rightarrow> 'a ctl option) \<Rightarrow> byte list \<Rightarrow> nat \<Rightarrow> 'a option option"
      and b buf p r x
    assume IH: "\<And>b buf p r. f b buf p = Some r \<Longrightarrow> b = body \<longrightarrow> (\<forall>x. r = Some x \<longrightarrow> P x)"
      and eq: "(if p < length buf then
          Option.bind (rtm_msglen buf p) (\<lambda>len. Option.bind (b buf p) (\<lambda>c.
            case c of Continue \<Rightarrow> f b buf (p + unat len) | Break x \<Rightarrow> Some (Some x)))
        else Some None) = Some r"
      and b: "b = body" and r: "r = Some x"
    show "P x"
    proof (cases "p < length buf")
      case True
      obtain len where len: "rtm_msglen buf p = Some len"
        using eq True by (cases "rtm_msglen buf p") auto
      obtain c where c: "body buf p = Some c"
        using eq b True len by (cases "body buf p") auto
      have rest: "(case c of Continue \<Rightarrow> f body buf (p + unat len) | Break x \<Rightarrow> Some (Some x)) = Some r"
        using eq b True len c by simp
      show ?thesis
      proof (cases c)
        case Continue
        then show ?thesis using rest IH b r by simp
      next
        case (Break y)
        then show ?thesis using rest c r body by simp
      qed
    next
      case False
      then show ?thesis using eq r by simp
    qed
  qed
  then show ?thesis by simp
qed

locale rt_scanner =
  fixes A :: rt_abi
    and body :: "byte list \<Rightarrow> nat \<Rightarrow> 'a ctl option"
    and sel :: "rt_msg \<Rightarrow> 'a option"
  assumes body_enc: "wf_msg A m \<Longrightarrow>
    body (pre @ enc_msg m @ post) (length pre)
      = Some (case sel m of None \<Rightarrow> Continue | Some x \<Rightarrow> Break x)"
begin

lemma scan_at:
  "\<forall>m \<in> set ms. wf_msg A m \<Longrightarrow>
    rtm_scan body (pre @ enc_msgs ms) (length pre) = Some (first_some sel ms)"
proof (induction ms arbitrary: pre)
  case Nil
  then show ?case by (simp add: enc_msgs_def rtm_scan.simps)
next
  case (Cons m ms)
  have wf: "wf_msg A m"
    using Cons.prems by simp
  have buf: "pre @ enc_msgs (m # ms) = pre @ enc_msg m @ enc_msgs ms"
    by (simp add: enc_msgs_def)
  have pos: "length pre < length (pre @ enc_msg m @ enc_msgs ms)"
    using length_enc_msg [OF wf] msg_len_pos [of m] by simp
  have next_at: "length pre + unat (of_nat (msg_len m) :: u16) = length (pre @ enc_msg m)"
    using wf by (simp add: length_enc_msg [OF wf] unat_of_nat take_bit_nat_eq_self wf_msg_def)
  show ?case
  proof (cases "sel m")
    case None
    then have "rtm_scan body (pre @ enc_msgs (m # ms)) (length pre)
        = rtm_scan body ((pre @ enc_msg m) @ enc_msgs ms) (length (pre @ enc_msg m))"
      using wf pos next_at
      by (subst rtm_scan.simps) (simp add: buf body_enc rd_hdr)
    also have "\<dots> = Some (first_some sel ms)"
      using Cons by (intro Cons.IH) simp
    finally show ?thesis using None by simp
  next
    case (Some x)
    then show ?thesis
      using wf pos by (subst rtm_scan.simps) (simp add: buf body_enc rd_hdr)
  qed
qed

lemma scan_enc:
  "\<forall>m \<in> set ms. wf_msg A m \<Longrightarrow> rtm_scan body (enc_msgs ms) 0 = Some (first_some sel ms)"
  using scan_at [of ms "[]"] by simp

lemma scan_total: "\<forall>m \<in> set ms. wf_msg A m \<Longrightarrow> rtm_scan body (enc_msgs ms) 0 \<noteq> None"
  by (simp add: scan_enc)

end

text \<open>
  The padding: a positive length is rounded up to the next multiple of the alignment, so
  the size of a padded address is one and the walk never stands still.
\<close>

lemma sa_roundup_pos: "0 < al \<Longrightarrow> 0 < sa_roundup al n"
  by (simp add: sa_roundup_def)

lemma or_mask_div: "(n :: nat) OR mask k = 2 ^ k * (n div 2 ^ k) + (2 ^ k - 1)"
proof -
  have "n OR mask k = push_bit k (drop_bit k n) OR mask k"
    by (rule bit_eqI) (auto simp: bit_simps)
  also have "\<dots> = push_bit k (drop_bit k n) + mask k"
    by (rule disjunctive_add [symmetric]) (auto simp: bit_simps)
  finally show ?thesis
    by (simp add: push_bit_eq_mult drop_bit_eq_div mask_eq_exp_minus_1 mult.commute)
qed

lemma sa_roundup_ceil:
  assumes "0 < n"
  shows "sa_roundup (2 ^ k) n = 2 ^ k * ((n + 2 ^ k - 1) div 2 ^ k)"
proof -
  have "sa_roundup (2 ^ k) n = 2 ^ k * ((n - 1) div 2 ^ k) + 2 ^ k"
    using assms or_mask_div [of "n - 1" k]
    by (simp add: sa_roundup_def mask_eq_exp_minus_1)
  also have "\<dots> = 2 ^ k * ((n - 1) div 2 ^ k + 1)"
    by simp
  also have "(n - 1) div 2 ^ k + 1 = (n - 1 + 2 ^ k) div 2 ^ k"
    by (subst div_add_self2) simp_all
  finally show ?thesis using assms by (simp add: add.commute)
qed

end
