(* ===== verification/Bsd_Os.thy ===== *)
theory Bsd_Os
  imports Route_Msg
begin

text \<open>
  What the two BSD daemons call of the operating system, and the pieces of code both have.

  A field of \<open>bsd_sys\<close> is a system call: a function of the world that returns its result and
  the world after it. The calls are parameters, so a theorem about a daemon holds for every
  behaviour of the system unless it names a hypothesis about it; \<open>dump_ok\<close> is the one that
  says a routing dump consists of whole messages.
\<close>

section \<open>System calls\<close>

text \<open>
  The tables the daemons read with \<open>sysctl\<close>: the default router list, a routing table dump
  of a family, and the entries of a family that carry some flags.
\<close>

datatype mib = Nd6_drlist | Rt_dump byte | Rt_flags byte u32

record 'k bsd_sys =
  sys_if_nametoindex :: "string \<Rightarrow> 'k \<Rightarrow> u32 \<times> 'k"
  sys_sysctl_len :: "mib \<Rightarrow> 'k \<Rightarrow> nat option \<times> 'k"
    \<comment> \<open>\<open>sysctl\<close> with no buffer: the size it needs, or an error\<close>
  sys_malloc :: "nat \<Rightarrow> 'k \<Rightarrow> bool \<times> 'k"
  sys_sysctl :: "mib \<Rightarrow> nat \<Rightarrow> 'k \<Rightarrow> byte list option \<times> 'k"
    \<comment> \<open>\<open>sysctl\<close> with a buffer of that size: the bytes it wrote, or an error\<close>
  sys_fopen_r :: "string \<Rightarrow> 'k \<Rightarrow> bool \<times> 'k"
    \<comment> \<open>whether an existing file can be opened for reading\<close>
  sys_socket :: "'k \<Rightarrow> int \<times> 'k"
  sys_poll :: "int \<Rightarrow> 'k \<Rightarrow> int \<times> 'k"
  sys_read :: "nat \<Rightarrow> 'k \<Rightarrow> byte list option \<times> 'k"
  sys_getpid :: u32

definition sysctl_fetch ::
    "('k, 'x) bsd_sys_scheme \<Rightarrow> mib \<Rightarrow> (('k, 'e, 'z) os_state_scheme, byte list option) prog" where
  "sysctl_fetch S mib =
     bnd (kcall (sys_sysctl_len S mib)) (\<lambda>r.
     case r of
       None \<Rightarrow> ret None
     | Some len \<Rightarrow>
         if len = 0 then ret None
         else bnd (kcall (sys_malloc S len)) (\<lambda>ok.
              if \<not> ok then ret None else kcall (sys_sysctl S mib len)))"

text \<open>Opening a file and reading its first line into a buffer of \<open>n\<close> bytes.\<close>

definition read_line ::
    "('k, 'x) bsd_sys_scheme \<Rightarrow> string \<Rightarrow> nat \<Rightarrow> (('k, 'e, 'z) os_state_scheme, string option) prog" where
  "read_line S path n =
     bnd (gets files) (\<lambda>fs.
     case fs path of
       None \<Rightarrow> ret None
     | Some content \<Rightarrow>
         bnd (kcall (sys_fopen_r S path)) (\<lambda>ok.
         ret (if ok then fgets n content else None)))"

section \<open>What they keep and return\<close>

lemma kern_only_fetch [frame_intros]: "kern_only (sysctl_fetch S mib)"
  unfolding sysctl_fetch_def by (intro frame_intros)

lemma safe_fetch [safe_intros]: "safe (sysctl_fetch S mib)"
  unfolding sysctl_fetch_def by (intro safe_intros)

lemma kern_only_read_line [frame_intros]: "kern_only (read_line S path n)"
  unfolding read_line_def by (intro frame_intros)

lemma safe_read_line [safe_intros]: "safe (read_line S path n)"
  unfolding read_line_def by (intro safe_intros)

text \<open>Bytes that \<open>sysctl_fetch\<close> returns were written by the system call.\<close>

lemma fetch_from_sysctl:
  "sysctl_fetch S mib s = Some (Some bs, t) \<Longrightarrow> \<exists>len k. fst (sys_sysctl S mib len k) = Some bs"
  by (auto simp: sysctl_fetch_def bnd_def kcall_def ret_def split: option.splits prod.splits if_splits)
    (metis fst_conv)

text \<open>
  The documented form of a routing dump, for the platform \<open>A\<close>: whole messages. The lengths
  in them are positive, so the loops over a dump end.
\<close>

definition wf_dump :: "rt_abi \<Rightarrow> byte list \<Rightarrow> bool" where
  "wf_dump A bs \<longleftrightarrow> (\<exists>ms. (\<forall>m \<in> set ms. wf_msg A m) \<and> bs = enc_msgs ms)"

definition dump_ok :: "rt_abi \<Rightarrow> ('k, 'x) bsd_sys_scheme \<Rightarrow> bool" where
  "dump_ok A S \<longleftrightarrow> (\<forall>mib len k bs. mib \<noteq> Nd6_drlist \<longrightarrow>
     fst (sys_sysctl S mib len k) = Some bs \<longrightarrow> wf_dump A bs)"

lemma dump_okD:
  "dump_ok A S \<Longrightarrow> mib \<noteq> Nd6_drlist \<Longrightarrow> sysctl_fetch S mib s = Some (Some bs, t) \<Longrightarrow>
    \<exists>ms. (\<forall>m \<in> set ms. wf_msg A m) \<and> bs = enc_msgs ms"
  unfolding dump_ok_def wf_dump_def by (meson fetch_from_sysctl)

text \<open>A scanner over a fetched dump never faults.\<close>

context rt_scanner
begin

lemma safe_scan_dump:
  assumes ok: "dump_ok A S" "mib \<noteq> Nd6_drlist" and g: "safe g" and f: "\<And>r. safe (f r)"
  shows "safe (bnd (sysctl_fetch S mib) (\<lambda>buf.
    case buf of None \<Rightarrow> g | Some b \<Rightarrow> bnd (of_opt (rtm_scan body b 0)) f))"
    (is "safe ?m")
proof -
  have "?m s \<noteq> None" for s
  proof -
    obtain buf t where ft: "sysctl_fetch S mib s = Some (buf, t)"
      using safe_fetch [of S mib, THEN safeD, of s] by auto
    show ?thesis
    proof (cases buf)
      case None
      then show ?thesis using ft g by (simp add: bnd_def safeD)
    next
      case (Some bs)
      then obtain ms where "\<forall>m \<in> set ms. wf_msg A m" and "bs = enc_msgs ms"
        using dump_okD [OF ok] ft by blast
      then have "rtm_scan body bs 0 = Some (first_some sel ms)"
        by (simp add: scan_enc)
      then show ?thesis
        using ft Some f by (simp add: bnd_def of_opt_def safeD)
    qed
  qed
  then show ?thesis by (simp add: safe_def)
qed

end

section \<open>A world that stands still\<close>

definition quiet_reads :: "('k, 'x) bsd_sys_scheme \<Rightarrow> bool" where
  "quiet_reads S \<longleftrightarrow> (\<forall>n. quiet (sys_if_nametoindex S n)) \<and> (\<forall>m. quiet (sys_sysctl_len S m)) \<and>
     (\<forall>n. quiet (sys_malloc S n)) \<and> (\<forall>m n. quiet (sys_sysctl S m n)) \<and>
     (\<forall>p. quiet (sys_fopen_r S p))"

text \<open>The table a fetch returns, and the tables of one moment.\<close>

definition fetched :: "('k, 'x) bsd_sys_scheme \<Rightarrow> mib \<Rightarrow> 'k \<Rightarrow> byte list option" where
  "fetched S mib k =
     (case fst (sys_sysctl_len S mib k) of
        None \<Rightarrow> None
      | Some n \<Rightarrow>
          if n = 0 \<or> \<not> fst (sys_malloc S n k) then None else fst (sys_sysctl S mib n k))"

definition holds_table :: "byte list option \<Rightarrow> byte list \<Rightarrow> bool" where
  "holds_table r bs \<longleftrightarrow> r = Some bs \<or> r = None \<and> bs = []"

lemma quiet_readsD:
  assumes "quiet_reads S"
  shows "quiet (sys_if_nametoindex S n)" and "quiet (sys_sysctl_len S m)"
    and "quiet (sys_malloc S l)" and "quiet (sys_sysctl S m l)" and "quiet (sys_fopen_r S p)"
  using assms by (simp_all add: quiet_reads_def)

lemma fetch_quiet:
  "quiet_reads S \<Longrightarrow> sysctl_fetch S mib s = Some (fetched S mib (kern s), s)"
  by (simp add: sysctl_fetch_def fetched_def bnd_run [OF kcall_quiet] kcall_quiet quiet_readsD
      run_simps split: option.split)

context rt_scanner
begin

text \<open>What a fetch and a scan of the fetched table come to.\<close>

lemma scan_fetched:
  assumes "sysctl_fetch S mib s = Some (r, t)" and "holds_table r (enc_msgs ms)"
    and "\<forall>m \<in> set ms. wf_msg A m" and "g = f None"
  shows "bnd (sysctl_fetch S mib) (\<lambda>buf.
      case buf of None \<Rightarrow> g | Some b \<Rightarrow> bnd (of_opt (rtm_scan body b 0)) f) s
    = f (first_some sel ms) t"
proof (cases r)
  case None
  then have "ms = []"
    using assms(2) enc_msgs_Nil [OF assms(3)] by (simp add: holds_table_def)
  then show ?thesis using None assms by (simp add: bnd_def)
next
  case (Some b)
  then have "b = enc_msgs ms" using assms(2) by (simp add: holds_table_def)
  then show ?thesis
    using Some assms(1) scan_enc [OF assms(3)] by (simp add: bnd_def of_opt_def)
qed

end

section \<open>Embedded scope identifiers\<close>

text \<open>
  The KAME stack keeps the interface index of a link-local address in its bytes 2 and 3.
  \<open>embed_scope\<close> puts it there, \<open>strip_scope\<close> takes it out.
\<close>

definition embed_scope :: "u32 \<Rightarrow> in6_addr \<Rightarrow> in6_addr" where
  "embed_scope ifindex a =
     (if in6_linklocal a \<or> in6_mc_linklocal a
      then a[2 := ucast (drop_bit 8 ifindex AND 0xff), 3 := ucast (ifindex AND 0xff)]
      else a)"

definition strip_scope :: "in6_addr \<Rightarrow> in6_addr" where
  "strip_scope a = (if in6_linklocal a then a[2 := 0, 3 := 0] else a)"

lemma length_embed_scope [simp]: "length (embed_scope i a) = length a"
  by (simp add: embed_scope_def)

lemma length_strip_scope [simp]: "length (strip_scope a) = length a"
  by (simp add: strip_scope_def)

lemma linklocal_update [simp]:
  "in6_linklocal (a[2 := x, 3 := y]) = in6_linklocal a"
  "in6_mc_linklocal (a[2 := x, 3 := y]) = in6_mc_linklocal a"
  by (simp_all add: in6_linklocal_def in6_mc_linklocal_def)

lemma linklocal_scope [simp]:
  "in6_linklocal (strip_scope a) = in6_linklocal a"
  "in6_linklocal (embed_scope i a) = in6_linklocal a"
  "in6_mc_linklocal (strip_scope a) = in6_mc_linklocal a"
  "in6_mc_linklocal (embed_scope i a) = in6_mc_linklocal a"
  by (simp_all add: strip_scope_def embed_scope_def)

lemma update_again: "a[2 := x, 3 := y, 2 := u, 3 := v] = a[2 := u, 3 := v]" for a :: "byte list"
  by (metis list_update_overwrite list_update_swap n_not_Suc_n numeral_2_eq_2 numeral_3_eq_3)

lemma strip_embed: "in6_linklocal a \<Longrightarrow> strip_scope (embed_scope i a) = strip_scope a"
  by (simp add: strip_scope_def embed_scope_def update_again)

lemma embed_strip: "embed_scope i (strip_scope a) = embed_scope i a"
  by (simp add: strip_scope_def embed_scope_def update_again)

lemma embed_idem [simp]: "embed_scope i (embed_scope i a) = embed_scope i a"
  by (simp add: embed_scope_def update_again)

lemma strip_idem [simp]: "strip_scope (strip_scope a) = strip_scope a"
  by (simp add: strip_scope_def update_again)

end
