(* ===== verification/Freebsd_Select.thy ===== *)
theory Freebsd_Select
  imports Bsd_Os
begin

text \<open>
  Router selection of the FreeBSD daemon (\<open>pref_rank\<close> and \<open>select_router\<close> of
  \<^verbatim>\<open>host/freebsd/v4gwd.c\<close>): the loop over the kernel's default router list, an array of
  \<open>struct in6_defrouter\<close>, and its specification as a maximum.

  \<open>router_key\<close> orders routers by preference and then by falling address; the loop keeps the
  greatest key of the entries on the daemon's interface. The order of the list does not
  matter, no read leaves the buffer, and the loop ends on every buffer.
\<close>

section \<open>The code\<close>

text \<open>Default Router Preference (RFC 4191): bits 3 and 4 of the flags of an advertisement.\<close>

definition ND_RA_FLAG_RTPREF_MASK :: byte where "ND_RA_FLAG_RTPREF_MASK = 0x18"
definition ND_RA_FLAG_RTPREF_HIGH :: byte where "ND_RA_FLAG_RTPREF_HIGH = 0x08"
definition ND_RA_FLAG_RTPREF_MEDIUM :: byte where "ND_RA_FLAG_RTPREF_MEDIUM = 0x00"
definition ND_RA_FLAG_RTPREF_LOW :: byte where "ND_RA_FLAG_RTPREF_LOW = 0x18"

lemmas rtpref_defs = ND_RA_FLAG_RTPREF_MASK_def ND_RA_FLAG_RTPREF_HIGH_def
  ND_RA_FLAG_RTPREF_MEDIUM_def ND_RA_FLAG_RTPREF_LOW_def

definition pref_rank :: "byte \<Rightarrow> int" where
  "pref_rank raflags =
     (let p = raflags AND ND_RA_FLAG_RTPREF_MASK in
      if p = ND_RA_FLAG_RTPREF_HIGH then 2
      else if p = ND_RA_FLAG_RTPREF_MEDIUM then 1
      else if p = ND_RA_FLAG_RTPREF_LOW then 0
      else -1)"

text \<open>
  \<open>struct in6_defrouter\<close>, packed: a \<open>sockaddr_in6\<close> of 28 bytes with the address at 8, the
  flags, 10 bytes of lifetimes, the interface index.
\<close>

definition DR_SIZE :: nat where "DR_SIZE = 41"

definition dr_rtaddr :: "byte list \<Rightarrow> nat \<Rightarrow> in6_addr option" where
  "dr_rtaddr buf p = rd_bytes buf (p + 8) 16"

definition dr_flags :: "byte list \<Rightarrow> nat \<Rightarrow> byte option" where
  "dr_flags buf p = rd8 buf (p + 28)"

definition dr_if_index :: "byte list \<Rightarrow> nat \<Rightarrow> u16 option" where
  "dr_if_index buf p = rd16 buf (p + 39)"

text \<open>The variables of the loop; \<open>best\<close> is only read once \<open>found\<close> is set.\<close>

record sel =
  best :: in6_addr
  best_rank :: int
  found :: bool

definition sel_init :: sel where
  "sel_init = \<lparr>best = replicate 16 0, best_rank = -1, found = False\<rparr>"

definition select_step :: "u32 \<Rightarrow> byte list \<Rightarrow> nat \<Rightarrow> sel \<Rightarrow> sel option" where
  "select_step ifindex buf p st = do {
     idx \<leftarrow> dr_if_index buf p;
     if (ucast idx :: u32) \<noteq> ifindex then Some st
     else do {
       flags \<leftarrow> dr_flags buf p;
       let rank = pref_rank flags;
       if rank < best_rank st then Some st
       else do {
         addr \<leftarrow> dr_rtaddr buf p;
         if rank = best_rank st \<and> found st \<and> 0 \<le> memcmp addr (best st) then Some st
         else Some \<lparr>best = addr, best_rank = rank, found = True\<rparr>
       }
     }
   }"

function select_loop :: "u32 \<Rightarrow> byte list \<Rightarrow> nat \<Rightarrow> sel \<Rightarrow> sel option" where
  "select_loop ifindex buf p st =
     (if p + DR_SIZE \<le> length buf then
        do { st' \<leftarrow> select_step ifindex buf p st; select_loop ifindex buf (p + DR_SIZE) st' }
      else Some st)"
  by pat_completeness auto
termination
  by (relation "measure (\<lambda>(_, buf, p, _). length buf - p)") (auto simp: DR_SIZE_def)

declare select_loop.simps [simp del]

definition select_router_buf :: "u32 \<Rightarrow> byte list \<Rightarrow> in6_addr option option" where
  "select_router_buf ifindex buf = do {
     st \<leftarrow> select_loop ifindex buf 0 sel_init;
     Some (if found st then Some (best st) else None)
   }"

definition select_router ::
    "('k, 'x) bsd_sys_scheme \<Rightarrow> u32 \<Rightarrow> (('k, 'e, 'z) os_state_scheme, in6_addr option) prog" where
  "select_router S ifindex =
     bnd (sysctl_fetch S Nd6_drlist) (\<lambda>buf.
     case buf of
       None \<Rightarrow> ret None
     | Some b \<Rightarrow> of_opt (select_router_buf ifindex b))"

section \<open>Reads stay inside the buffer\<close>

lemma select_step_inside:
  "p + DR_SIZE \<le> length buf \<Longrightarrow> select_step ifindex buf p st \<noteq> None"
  by (simp add: select_step_def dr_if_index_def dr_flags_def dr_rtaddr_def rd16_def rd_bytes_def
      rd8_def DR_SIZE_def Let_def)

lemma select_loop_inside: "select_loop ifindex buf p st \<noteq> None"
proof (induction ifindex buf p st rule: select_loop.induct)
  case (1 ifindex buf p st)
  then show ?case
    using select_step_inside [of p buf ifindex st]
    by (subst select_loop.simps) (auto simp: bind_eq_None_conv)
qed

lemma select_router_buf_inside: "select_router_buf ifindex buf \<noteq> None"
  using select_loop_inside [of ifindex buf 0 sel_init] by (auto simp: select_router_buf_def)

lemma kern_only_select [frame_intros]: "kern_only (select_router S ifindex)"
  unfolding select_router_def by (intro frame_intros)

lemma safe_select [safe_intros]: "safe (select_router S ifindex)"
  unfolding select_router_def by (intro safe_intros safe_of_opt select_router_buf_inside)

text \<open>Every address it returns has 16 bytes.\<close>

lemma select_loop_length:
  "select_loop ifindex buf p st = Some st' \<Longrightarrow> length (best st) = 16 \<Longrightarrow> length (best st') = 16"
proof (induction ifindex buf p st rule: select_loop.induct)
  case (1 ifindex buf p st)
  have step: "length (best u) = 16" if "select_step ifindex buf p st = Some u" for u
    using that 1(3) by (auto simp: select_step_def dr_rtaddr_def rd_bytes_def Let_def
        bind_eq_Some_conv split: if_splits)
  show ?case
  proof (cases "p + DR_SIZE \<le> length buf")
    case True
    then obtain u where "select_step ifindex buf p st = Some u"
      and "select_loop ifindex buf (p + DR_SIZE) u = Some st'"
      using 1(2) by (subst (asm) select_loop.simps) (auto simp: bind_eq_Some_conv)
    then show ?thesis using 1(1) True step by blast
  next
    case False
    then show ?thesis using 1(2,3) by (subst (asm) select_loop.simps) simp
  qed
qed

definition addr_len_ok :: "in6_addr option \<Rightarrow> bool" where
  "addr_len_ok r \<longleftrightarrow> (\<forall>a. r = Some a \<longrightarrow> length a = 16)"

lemma select_router_length: "returns (select_router S ifindex) addr_len_ok"
proof -
  have "addr_len_ok r" if "select_router_buf ifindex b = Some r" for b r
    using that select_loop_length [of ifindex b 0 sel_init]
    by (auto simp: select_router_buf_def addr_len_ok_def sel_init_def bind_eq_Some_conv
        split: if_splits)
  then show ?thesis
    by (auto simp: returns_def select_router_def bnd_def ret_def of_opt_def addr_len_ok_def
        split: option.splits)
qed

section \<open>The order on routers\<close>

datatype router_key = Router_key (rk_rank: int) (rk_addr: in6_addr)

instantiation router_key :: linorder
begin

definition less_eq_router_key :: "router_key \<Rightarrow> router_key \<Rightarrow> bool" where
  "k \<le> l \<longleftrightarrow> rk_rank k < rk_rank l \<or> rk_rank k = rk_rank l \<and> rk_addr l \<le> rk_addr k"

definition less_router_key :: "router_key \<Rightarrow> router_key \<Rightarrow> bool" where
  "k < l \<longleftrightarrow> rk_rank k < rk_rank l \<or> rk_rank k = rk_rank l \<and> rk_addr l < rk_addr k"

instance
  by standard
    (auto simp: less_eq_router_key_def less_router_key_def intro: router_key.expand)

end

text \<open>Entries of the list, and what the daemon should make of them.\<close>

record drouter =
  d_head :: "byte list"
  d_addr :: in6_addr
  d_scope :: "byte list"
  d_flags :: byte
  d_times :: "byte list"
  d_ifindex :: u16

definition wf_drouter :: "drouter \<Rightarrow> bool" where
  "wf_drouter d \<longleftrightarrow> length (d_head d) = 8 \<and> length (d_addr d) = 16 \<and> length (d_scope d) = 4 \<and>
     length (d_times d) = 10"

definition enc_drouter :: "drouter \<Rightarrow> byte list" where
  "enc_drouter d = d_head d @ d_addr d @ d_scope d @ [d_flags d] @ d_times d @ le16 (d_ifindex d)"

definition enc_drlist :: "drouter list \<Rightarrow> byte list" where
  "enc_drlist ds = concat (map enc_drouter ds)"

definition drouter_key :: "drouter \<Rightarrow> router_key" where
  "drouter_key d = Router_key (pref_rank (d_flags d)) (d_addr d)"

definition candidates :: "u32 \<Rightarrow> drouter list \<Rightarrow> drouter list" where
  "candidates ifindex ds = filter (\<lambda>d. (ucast (d_ifindex d) :: u32) = ifindex) ds"

definition best_router :: "u32 \<Rightarrow> drouter list \<Rightarrow> in6_addr option" where
  "best_router ifindex ds =
     (if candidates ifindex ds = [] then None
      else Some (rk_addr (Max (drouter_key ` set (candidates ifindex ds)))))"

section \<open>The loop computes the maximum\<close>

definition step_abs :: "u32 \<Rightarrow> sel \<Rightarrow> drouter \<Rightarrow> sel" where
  "step_abs ifindex st d =
     (if (ucast (d_ifindex d) :: u32) \<noteq> ifindex \<or> pref_rank (d_flags d) < best_rank st
         \<or> pref_rank (d_flags d) = best_rank st \<and> found st \<and> 0 \<le> memcmp (d_addr d) (best st)
      then st
      else \<lparr>best = d_addr d, best_rank = pref_rank (d_flags d), found = True\<rparr>)"

lemma length_enc_drouter: "wf_drouter d \<Longrightarrow> length (enc_drouter d) = DR_SIZE"
  by (simp add: enc_drouter_def wf_drouter_def DR_SIZE_def)

lemma select_step_enc:
  assumes "wf_drouter d"
  shows "select_step ifindex (pre @ enc_drouter d @ post) (length pre) st
    = Some (step_abs ifindex st d)"
proof -
  let ?buf = "pre @ enc_drouter d @ post"
  have len: "length (enc_drouter d) = 41"
    using length_enc_drouter [OF assms] by (simp add: DR_SIZE_def)
  have "dr_if_index ?buf (length pre) = Some (le_val (take 2 (drop 39 (enc_drouter d))))"
    using len by (simp add: dr_if_index_def rd16_mid)
  then have 1: "dr_if_index ?buf (length pre) = Some (d_ifindex d)"
    using assms by (simp add: enc_drouter_def wf_drouter_def)
  have "dr_flags ?buf (length pre) = Some (enc_drouter d ! 28)"
    using len by (simp add: dr_flags_def rd8_mid)
  then have 2: "dr_flags ?buf (length pre) = Some (d_flags d)"
    using assms by (simp add: enc_drouter_def wf_drouter_def nth_append)
  have "dr_rtaddr ?buf (length pre) = Some (take 16 (drop 8 (enc_drouter d)))"
    using len by (simp add: dr_rtaddr_def rd_bytes_mid)
  then have 3: "dr_rtaddr ?buf (length pre) = Some (d_addr d)"
    using assms by (simp add: enc_drouter_def wf_drouter_def)
  show ?thesis
    unfolding select_step_def step_abs_def using 1 2 3 by (simp add: Let_def)
qed

lemma select_loop_enc:
  "\<forall>d \<in> set ds. wf_drouter d \<Longrightarrow>
    select_loop ifindex (pre @ enc_drlist ds) (length pre) st
      = Some (foldl (step_abs ifindex) st ds)"
proof (induction ds arbitrary: pre st)
  case Nil
  then show ?case by (simp add: select_loop.simps enc_drlist_def DR_SIZE_def)
next
  case (Cons d ds)
  have wf: "wf_drouter d" using Cons.prems by simp
  have buf: "pre @ enc_drlist (d # ds) = pre @ enc_drouter d @ enc_drlist ds"
    by (simp add: enc_drlist_def)
  have "select_loop ifindex (pre @ enc_drlist (d # ds)) (length pre) st
      = select_loop ifindex (pre @ enc_drlist (d # ds)) (length pre + DR_SIZE)
          (step_abs ifindex st d)"
    using wf by (subst select_loop.simps) (simp add: buf select_step_enc length_enc_drouter)
  also have "\<dots> = select_loop ifindex ((pre @ enc_drouter d) @ enc_drlist ds)
      (length (pre @ enc_drouter d)) (step_abs ifindex st d)"
    using wf by (simp add: buf length_enc_drouter)
  also have "\<dots> = Some (foldl (step_abs ifindex) (step_abs ifindex st d) ds)"
    using Cons by (intro Cons.IH) simp
  finally show ?case by simp
qed

text \<open>
  The preference as RFC 4191 defines it: the two bits after the flags M, O and H are a signed
  integer, and -2 is reserved.
\<close>

definition ra_preference :: "byte \<Rightarrow> int option" where
  "ra_preference flags =
     (let p = (ucast (drop_bit 3 flags) :: 2 word) in if p = 2 then None else Some (sint p))"

lemma prf_bits:
  "(f :: byte) AND 0x18 = (if bit f 3 then 8 else 0) OR (if bit f 4 then 16 else 0)"
  "(ucast (drop_bit 3 f) :: 2 word) = (if bit f 3 then 1 else 0) OR (if bit f 4 then 2 else 0)"
proof -
  show "f AND 0x18 = (if bit f 3 then 8 else 0) OR (if bit f 4 then 16 else 0)"
  proof (rule bit_word_eqI)
    fix n
    assume "n < LENGTH(8)"
    then have "n \<in> {0, 1, 2, 3, 4, 5, 6, 7}" by auto
    then show "bit (f AND 0x18) n = bit ((if bit f 3 then 8 else 0) OR (if bit f 4 then 16 else 0) :: byte) n"
      by (auto simp: bit_simps)
  qed
  show "(ucast (drop_bit 3 f) :: 2 word) = (if bit f 3 then 1 else 0) OR (if bit f 4 then 2 else 0)"
  proof (rule bit_word_eqI)
    fix n
    assume "n < LENGTH(2)"
    then have "n \<in> {0, 1}" by auto
    then show "bit (ucast (drop_bit 3 f) :: 2 word) n
        = bit ((if bit f 3 then 1 else 0) OR (if bit f 4 then 2 else 0) :: 2 word) n"
      by (auto simp: bit_simps)
  qed
qed

lemma pref_rank_ra:
  "ra_preference f = (if pref_rank f = -1 then None else Some (pref_rank f - 1))"
  unfolding ra_preference_def pref_rank_def rtpref_defs prf_bits Let_def
  by (cases "bit f 3"; cases "bit f 4"; simp)

lemma pref_rank_range: "-1 \<le> pref_rank f \<and> pref_rank f \<le> 2"
  by (simp add: pref_rank_def Let_def)

text \<open>What the loop has seen so far is in its variables.\<close>

definition sel_inv :: "drouter list \<Rightarrow> sel \<Rightarrow> bool" where
  "sel_inv cs st \<longleftrightarrow>
     (if cs = [] then st = sel_init
      else found st \<and> Router_key (best_rank st) (best st) = Max (drouter_key ` set cs)) \<and>
     length (best st) = 16"

lemma step_abs_inv:
  assumes "sel_inv (candidates ifindex ds) st" and "wf_drouter d"
  shows "sel_inv (candidates ifindex (ds @ [d])) (step_abs ifindex st d)"
proof (cases "(ucast (d_ifindex d) :: u32) = ifindex")
  case False
  then show ?thesis
    using assms by (simp add: candidates_def step_abs_def)
next
  case True
  then have cs: "candidates ifindex (ds @ [d]) = candidates ifindex ds @ [d]"
    by (simp add: candidates_def)
  have len: "length (d_addr d) = 16" "length (best st) = 16"
    using assms by (simp_all add: wf_drouter_def sel_inv_def)
  show ?thesis
  proof (cases "candidates ifindex ds = []")
    case True
    then have "st = sel_init" using assms(1) by (simp add: sel_inv_def)
    then have "step_abs ifindex st d = \<lparr>best = d_addr d, best_rank = pref_rank (d_flags d), found = True\<rparr>"
      using pref_rank_range [of "d_flags d"] \<open>ucast (d_ifindex d) = ifindex\<close>
      by (simp add: step_abs_def sel_init_def)
    then show ?thesis
      using len True by (simp add: cs sel_inv_def drouter_key_def)
  next
    case False
    then have f: "found st"
      and m: "Max (drouter_key ` set (candidates ifindex ds)) = Router_key (best_rank st) (best st)"
      using assms(1) by (auto simp: sel_inv_def)
    have "Max (drouter_key ` set (candidates ifindex ds @ [d]))
        = max (drouter_key d) (Router_key (best_rank st) (best st))"
      using False m by (simp add: Max_insert)
    then show ?thesis
      using f len \<open>ucast (d_ifindex d) = ifindex\<close>
      by (auto simp: cs sel_inv_def step_abs_def drouter_key_def max_def memcmp_ge
          less_eq_router_key_def)
  qed
qed

lemma foldl_step_inv:
  "\<forall>d \<in> set ds. wf_drouter d \<Longrightarrow> sel_inv (candidates ifindex ds) (foldl (step_abs ifindex) sel_init ds)"
proof (induction ds rule: rev_induct)
  case Nil
  then show ?case by (simp add: sel_inv_def candidates_def sel_init_def)
next
  case (snoc d ds)
  then show ?case by (simp add: step_abs_inv)
qed

lemma select_router_buf_enc:
  assumes "\<forall>d \<in> set ds. wf_drouter d"
  shows "select_router_buf ifindex (enc_drlist ds) = Some (best_router ifindex ds)"
proof -
  have "select_loop ifindex (enc_drlist ds) 0 sel_init = Some (foldl (step_abs ifindex) sel_init ds)"
    using select_loop_enc [OF assms, of ifindex "[]"] by simp
  moreover have "(if found st then Some (best st) else None) = best_router ifindex ds"
    if "sel_inv (candidates ifindex ds) st" for st
  proof (cases "candidates ifindex ds = []")
    case False
    then have "found st"
      and key: "Router_key (best_rank st) (best st) = Max (drouter_key ` set (candidates ifindex ds))"
      using that by (simp_all add: sel_inv_def)
    moreover have "rk_addr (Max (drouter_key ` set (candidates ifindex ds))) = best st"
      by (simp flip: key)
    ultimately show ?thesis using False by (simp add: best_router_def)
  qed (use that in \<open>simp add: best_router_def sel_inv_def sel_init_def\<close>)
  ultimately show ?thesis
    using foldl_step_inv [OF assms] by (simp add: select_router_buf_def)
qed

section \<open>What the maximum means\<close>

text \<open>The number an address is, most significant byte first.\<close>

definition be_val :: "byte list \<Rightarrow> nat" where
  "be_val bs = foldl (\<lambda>n b. 256 * n + unat b) 0 bs"

lemma be_val_snoc: "be_val (bs @ [b]) = 256 * be_val bs + unat b"
  by (simp add: be_val_def)

lemma be_val_Cons: "be_val (b # bs) = unat b * 256 ^ length bs + be_val bs"
proof (induction bs rule: rev_induct)
  case Nil
  then show ?case by (simp add: be_val_def)
next
  case (snoc c bs)
  have "be_val (b # bs @ [c]) = 256 * be_val (b # bs) + unat c"
    using be_val_snoc [of "b # bs" c] by simp
  then show ?case by (simp add: snoc be_val_snoc algebra_simps)
qed

lemma be_val_bound: "be_val bs < 256 ^ length bs"
proof (induction bs)
  case Nil
  then show ?case by (simp add: be_val_def)
next
  case (Cons b bs)
  have "unat b < 256" using unsigned_less [of b] by simp
  then have "(unat b + 1) * 256 ^ length bs \<le> 256 * 256 ^ length bs"
    by (intro mult_right_mono) auto
  then have "unat b * 256 ^ length bs + 256 ^ length bs \<le> 256 ^ length (b # bs)"
    by simp
  then show ?case using Cons by (simp only: be_val_Cons)
qed

lemma be_val_mono:
  "length xs = length ys \<Longrightarrow> xs \<le> ys \<longleftrightarrow> be_val xs \<le> be_val ys"
proof (induction xs ys rule: list_induct2)
  case Nil
  then show ?case by simp
next
  case (Cons x xs y ys)
  have b: "be_val xs < 256 ^ length ys" "be_val ys < 256 ^ length ys"
    using be_val_bound [of xs] be_val_bound [of ys] Cons.hyps by simp_all
  consider "unat x < unat y" | "x = y" | "unat y < unat x"
    by (metis linorder_neqE_nat unsigned_word_eqI)
  then show ?case
  proof cases
    case 1
    then have "(unat x + 1) * 256 ^ length ys \<le> unat y * 256 ^ length ys"
      by (intro mult_right_mono) auto
    then show ?thesis using 1 b Cons.hyps by (simp add: be_val_Cons word_less_nat_alt)
  next
    case 2
    then show ?thesis using Cons by (simp add: be_val_Cons)
  next
    case 3
    then have "(unat y + 1) * 256 ^ length ys \<le> unat x * 256 ^ length ys"
      by (intro mult_right_mono) auto
    then show ?thesis using 3 b Cons.hyps by (auto simp: be_val_Cons word_less_nat_alt)
  qed
qed

lemma best_router_None: "best_router ifindex ds = None \<longleftrightarrow> candidates ifindex ds = []"
  by (simp add: best_router_def)

lemma best_router_Some:
  assumes "\<forall>d \<in> set ds. wf_drouter d" and "best_router ifindex ds = Some a"
  obtains d where "d \<in> set (candidates ifindex ds)" and "d_addr d = a"
    and "\<forall>e \<in> set (candidates ifindex ds). pref_rank (d_flags e) < pref_rank (d_flags d) \<or>
      pref_rank (d_flags e) = pref_rank (d_flags d) \<and> be_val (d_addr d) \<le> be_val (d_addr e)"
proof -
  let ?ks = "drouter_key ` set (candidates ifindex ds)"
  have ne: "?ks \<noteq> {}" and a: "a = rk_addr (Max ?ks)"
    using assms(2) by (auto simp: best_router_def split: if_splits)
  have "Max ?ks \<in> ?ks" using ne by (intro Max_in) auto
  then obtain d where d: "d \<in> set (candidates ifindex ds)" and dk: "Max ?ks = drouter_key d"
    by auto
  have "pref_rank (d_flags e) < pref_rank (d_flags d) \<or>
      pref_rank (d_flags e) = pref_rank (d_flags d) \<and> be_val (d_addr d) \<le> be_val (d_addr e)"
    if e: "e \<in> set (candidates ifindex ds)" for e
  proof -
    have "drouter_key e \<le> drouter_key d"
      using e by (simp flip: dk)
    moreover have "length (d_addr d) = length (d_addr e)"
      using assms(1) d e by (simp add: wf_drouter_def candidates_def)
    ultimately show ?thesis
      by (auto simp: less_eq_router_key_def drouter_key_def be_val_mono)
  qed
  then show ?thesis
    using that [OF d] a dk by (simp add: drouter_key_def)
qed

lemma best_router_set:
  "set ds = set es \<Longrightarrow> best_router ifindex ds = best_router ifindex es"
proof -
  assume "set ds = set es"
  then have "set (candidates ifindex ds) = set (candidates ifindex es)"
    by (simp add: candidates_def)
  then show ?thesis
    by (metis best_router_def set_empty)
qed

end
