(* ===== verification/Freebsd_Sentinel.thy ===== *)
theory Freebsd_Sentinel
  imports Bsd_Os
begin

text \<open>
  The sentinel checks and the static fallback of the FreeBSD daemon (\<open>sentinel_in_file\<close>,
  \<open>sentinel_in_fib\<close> and \<open>static_default_router\<close> of \<^verbatim>\<open>host/freebsd/v4gwd.c\<close>).

  Both FIB scanners interpret \<open>rt_scanner\<close>: on a well-formed dump they return the first route
  that \<open>fb_is_sentinel\<close> resp. \<open>fb_static_gateway\<close> selects, predicates on the fields of a
  route message.
\<close>

section \<open>The platform\<close>

text \<open>FreeBSD on a 64-bit machine: \<open>SA_SIZE\<close> pads to \<open>sizeof(long)\<close>.\<close>

definition freebsd_abi :: rt_abi where
  "freebsd_abi = \<lparr>hdr_size = 152, sa_align = 8, af_inet6 = 28\<rparr>"

text \<open>\<open>htonl(0xc000000b)\<close>, the bytes of 192.0.0.11.\<close>

definition SENTINEL_ADDR :: in_addr where
  "SENTINEL_ADDR = [192, 0, 0, 11]"

definition INADDR_ANY :: in_addr where
  "INADDR_ANY = [0, 0, 0, 0]"

section \<open>The state file\<close>

definition sentinel_in_file ::
    "('k, 'x) bsd_sys_scheme \<Rightarrow> string \<Rightarrow> (('k, 'e, 'z) os_state_scheme, bool) prog" where
  "sentinel_in_file S sentinel_file =
     bnd (read_line S sentinel_file 64) (\<lambda>line.
     ret (case line of None \<Rightarrow> False | Some buf \<Rightarrow> strncmp_eq buf ''192.0.0.11'' 10))"

section \<open>Scanning the FIB\<close>

text \<open>
  The loop over \<open>RTA_DST\<close>, \<open>RTA_GATEWAY\<close> and \<open>RTA_NETMASK\<close>, the three lowest bits.
\<close>

definition fb_walk :: "byte list \<Rightarrow> u32 \<Rightarrow> nat \<Rightarrow> nat option list option" where
  "fb_walk buf addrs p = rti_walk freebsd_abi buf addrs [0..<3] (p + hdr_size freebsd_abi)"

definition fb_sentinel_body :: "byte list \<Rightarrow> nat \<Rightarrow> unit ctl option" where
  "fb_sentinel_body buf p = do {
     version \<leftarrow> rtm_version buf p;
     if version \<noteq> RTM_VERSION then Some Continue
     else do {
       addrs \<leftarrow> rtm_addrs buf p;
       sas \<leftarrow> fb_walk buf addrs p;
       case sas ! RTAX_DST of None \<Rightarrow> Some Continue | Some dst \<Rightarrow> (
       case sas ! RTAX_GATEWAY of None \<Rightarrow> Some Continue | Some gw \<Rightarrow> do {
           dfam \<leftarrow> sa_family buf dst;
           if dfam \<noteq> AF_INET then Some Continue
           else do {
             gfam \<leftarrow> sa_family buf gw;
             if gfam \<noteq> AF_INET then Some Continue
             else do {
               da \<leftarrow> sin_addr buf dst;
               if da \<noteq> INADDR_ANY then Some Continue
               else do {
                 flags \<leftarrow> rtm_flags buf p;
                 if flags AND RTF_GATEWAY = 0 then Some Continue
                 else do {
                   ga \<leftarrow> sin_addr buf gw;
                   if ga = SENTINEL_ADDR then Some (Break ()) else Some Continue
                 }
               }
             }
           }
         })
     }
   }"

definition sentinel_in_fib ::
    "('k, 'x) bsd_sys_scheme \<Rightarrow> (('k, 'e, 'z) os_state_scheme, bool) prog" where
  "sentinel_in_fib S =
     bnd (sysctl_fetch S (Rt_dump AF_INET)) (\<lambda>buf.
     case buf of
       None \<Rightarrow> ret False
     | Some b \<Rightarrow> bnd (of_opt (rtm_scan fb_sentinel_body b 0)) (\<lambda>r. ret (r \<noteq> None)))"

definition fb_static_body :: "u32 \<Rightarrow> byte list \<Rightarrow> nat \<Rightarrow> in6_addr ctl option" where
  "fb_static_body ifindex buf p = do {
     version \<leftarrow> rtm_version buf p;
     if version \<noteq> RTM_VERSION then Some Continue
     else do {
       index \<leftarrow> rtm_index buf p;
       if (ucast index :: u32) \<noteq> ifindex then Some Continue
       else do {
         flags \<leftarrow> rtm_flags buf p;
         if flags AND (RTF_GATEWAY OR RTF_STATIC) \<noteq> RTF_GATEWAY OR RTF_STATIC then Some Continue
         else do {
           addrs \<leftarrow> rtm_addrs buf p;
           sas \<leftarrow> fb_walk buf addrs p;
           case sas ! RTAX_DST of None \<Rightarrow> Some Continue | Some dst \<Rightarrow> (
           case sas ! RTAX_GATEWAY of None \<Rightarrow> Some Continue | Some gwsa \<Rightarrow> do {
               dfam \<leftarrow> sa_family buf dst;
               if dfam \<noteq> af_inet6 freebsd_abi then Some Continue
               else do {
                 gfam \<leftarrow> sa_family buf gwsa;
                 if gfam \<noteq> af_inet6 freebsd_abi then Some Continue
                 else do {
                   da \<leftarrow> sin6_addr buf dst;
                   if \<not> in6_unspecified da then Some Continue
                   else do {
                     ga \<leftarrow> sin6_addr buf gwsa;
                     Some (Break (strip_scope ga))
                   }
                 }
               }
             })
         }
       }
     }
   }"

definition static_default_router ::
    "('k, 'x) bsd_sys_scheme \<Rightarrow> u32 \<Rightarrow> (('k, 'e, 'z) os_state_scheme, in6_addr option) prog" where
  "static_default_router S ifindex =
     bnd (sysctl_fetch S (Rt_dump (af_inet6 freebsd_abi))) (\<lambda>buf.
     case buf of
       None \<Rightarrow> ret None
     | Some b \<Rightarrow> of_opt (rtm_scan (fb_static_body ifindex) b 0))"

section \<open>What they select\<close>

definition slot_in :: "byte list option \<Rightarrow> in_addr \<Rightarrow> bool" where
  "slot_in sl a \<longleftrightarrow> (\<exists>sa. sl = Some sa \<and> sa_fam sa = AF_INET \<and> sa_in sa = a)"

definition fb_is_sentinel :: "rt_msg \<Rightarrow> bool" where
  "fb_is_sentinel m \<longleftrightarrow> rm_version m = RTM_VERSION \<and> rm_flags m AND RTF_GATEWAY \<noteq> 0 \<and>
     slot_in (rm_slots m ! RTAX_DST) INADDR_ANY \<and> slot_in (rm_slots m ! RTAX_GATEWAY) SENTINEL_ADDR"

definition fb_static_gateway :: "u32 \<Rightarrow> rt_msg \<Rightarrow> in6_addr option" where
  "fb_static_gateway ifindex m =
     (case (rm_slots m ! RTAX_DST, rm_slots m ! RTAX_GATEWAY) of
        (Some d, Some g) \<Rightarrow>
          (if rm_version m = RTM_VERSION \<and> (ucast (rm_index m) :: u32) = ifindex \<and>
              rm_flags m AND (RTF_GATEWAY OR RTF_STATIC) = RTF_GATEWAY OR RTF_STATIC \<and>
              sa_fam d = af_inet6 freebsd_abi \<and> sa_fam g = af_inet6 freebsd_abi \<and>
              in6_unspecified (sa_in6 d)
           then Some (strip_scope (sa_in6 g)) else None)
      | _ \<Rightarrow> None)"

lemma fb_walk_msg:
  assumes "wf_msg freebsd_abi m"
  shows "fb_walk (pre @ enc_msg m @ post) (slot_bits (rm_slots m)) (length pre)
    = Some (map (\<lambda>i. map_option (\<lambda>_. slot_at freebsd_abi (length pre) m i) (rm_slots m ! i)) [0..<3])"
  using walk_msg [OF assms, of 3] by (simp add: fb_walk_def RTAX_MAX_def)

interpretation fb_sent: rt_scanner freebsd_abi fb_sentinel_body
  "\<lambda>m. if fb_is_sentinel m then Some () else None"
proof
  fix m pre post
  assume wf: "wf_msg freebsd_abi m"
  note rd = rd_hdr [OF wf] fb_walk_msg [OF wf] rd_slot [OF wf]
  show "fb_sentinel_body (pre @ enc_msg m @ post) (length pre)
      = Some (case if fb_is_sentinel m then Some () else None of None \<Rightarrow> Continue | Some x \<Rightarrow> Break x)"
    by (cases "rm_slots m ! 0"; cases "rm_slots m ! 1")
      (simp_all add: fb_sentinel_body_def fb_is_sentinel_def slot_in_def rd slot_index upt_rec)
qed

interpretation fb_static: rt_scanner freebsd_abi "fb_static_body ifindex" "fb_static_gateway ifindex"
  for ifindex
proof
  fix m pre post
  assume wf: "wf_msg freebsd_abi m"
  note rd = rd_hdr [OF wf] fb_walk_msg [OF wf] rd_slot [OF wf]
  show "fb_static_body ifindex (pre @ enc_msg m @ post) (length pre)
      = Some (case fb_static_gateway ifindex m of None \<Rightarrow> Continue | Some x \<Rightarrow> Break x)"
    by (cases "rm_slots m ! 0"; cases "rm_slots m ! 1")
      (simp_all add: fb_static_body_def fb_static_gateway_def rd slot_index upt_rec)
qed

lemma sentinel_scan_enc:
  assumes "\<forall>m \<in> set ms. wf_msg freebsd_abi m"
  shows "(rtm_scan fb_sentinel_body (enc_msgs ms) 0 = Some r) \<longleftrightarrow>
    r = (if \<exists>m \<in> set ms. fb_is_sentinel m then Some () else None)"
proof -
  have "first_some (\<lambda>m. if fb_is_sentinel m then Some () else None) ms
      = (if \<exists>m \<in> set ms. fb_is_sentinel m then Some () else None)"
    by (induction ms) auto
  then show ?thesis using fb_sent.scan_enc [OF assms] by auto
qed

section \<open>Frames\<close>

lemma kern_only_sentinel_in_file [frame_intros]: "kern_only (sentinel_in_file S f)"
  unfolding sentinel_in_file_def by (intro frame_intros)

lemma kern_only_sentinel_in_fib [frame_intros]: "kern_only (sentinel_in_fib S)"
  unfolding sentinel_in_fib_def by (intro frame_intros)

lemma kern_only_static [frame_intros]: "kern_only (static_default_router S i)"
  unfolding static_default_router_def by (intro frame_intros)

lemma safe_sentinel_in_file [safe_intros]: "safe (sentinel_in_file S f)"
  unfolding sentinel_in_file_def by (intro safe_intros)

lemma safe_sentinel_in_fib [safe_intros]: "dump_ok freebsd_abi S \<Longrightarrow> safe (sentinel_in_fib S)"
  unfolding sentinel_in_fib_def
  by (intro fb_sent.safe_scan_dump safe_intros) (simp_all)

lemma safe_static [safe_intros]: "dump_ok freebsd_abi S \<Longrightarrow> safe (static_default_router S i)"
proof -
  assume "dump_ok freebsd_abi S"
  then have "safe (bnd (sysctl_fetch S (Rt_dump (af_inet6 freebsd_abi))) (\<lambda>buf.
      case buf of None \<Rightarrow> ret None | Some b \<Rightarrow> bnd (of_opt (rtm_scan (fb_static_body i) b 0)) ret))"
    by (intro fb_static.safe_scan_dump safe_intros) (simp_all)
  then show ?thesis by (simp only: static_default_router_def bnd_ret)
qed

text \<open>The state file counts as soon as its first line starts with the sentinel's text.\<close>

lemma sentinel_line:
  "strncmp_eq (fgets_take 63 content) ''192.0.0.11'' 10 \<longleftrightarrow> take 10 content = ''192.0.0.11''"
  by (rule strncmp_fgets) (simp_all add: nul_def newline_def)

end
