(* ===== verification/Freebsd_Route.thy ===== *)
theory Freebsd_Route
  imports Freebsd_Sentinel
begin

text \<open>
  The FreeBSD daemon's state and its route programming (\<open>fill_gateway\<close>, \<open>route_msg\<close>,
  \<open>install\<close> and \<open>withdraw\<close> of \<^verbatim>\<open>host/freebsd/v4gwd.c\<close>): the bytes of the messages it
  writes to the routing socket and what it remembers of them.

  \<open>route_bytes\<close> builds a message in a zeroed buffer the way the code does, with checked
  copies; \<open>route_bytes_enc\<close> shows that the copies fit and that the result is the encoding of
  one well-formed route message, so the daemon's own readers, and the kernel's, find the
  IPv4 default destination and the IPv6 gateway in it. \<open>fib_of\<close> replays the accepted messages
  of the history; \<open>fb_inv\<close> ties the daemon's flag and address to it.
\<close>

section \<open>State\<close>

text \<open>
  The history: a message written to the routing socket with the result \<open>route_msg\<close>
  returns for it (0 or a negated \<open>errno\<close>), and the lines sent to \<open>syslog\<close>.
\<close>

datatype fb_event =
    Ev_route_msg "byte list" int
  | Log_install_failed int
  | Log_installed in6_addr string
  | Log_withdraw_failed int
  | Log_withdrew string

record 'k fb_state = "('k, fb_event) os_state" +
  fb_running :: bool
  fb_reload :: bool
  fb_ifname :: string
  fb_ifindex :: u32
  fb_require_route :: bool
  fb_sentinel_file :: "string option"
  fb_interval :: int
  fb_rtsock :: int
  fb_rtseq :: u32
  fb_installed :: bool   \<comment> \<open>\<open>route_installed\<close>\<close>
  fb_gw :: in6_addr      \<comment> \<open>\<open>installed_gw\<close>\<close>

record 'k fb_sys = "'k bsd_sys" +
  sys_write :: "byte list \<Rightarrow> 'k \<Rightarrow> (nat + nat) \<times> 'k"
    \<comment> \<open>\<open>write\<close> on the routing socket: an \<open>errno\<close> or the number of bytes\<close>
  sys_sysctlbyname :: "string \<Rightarrow> 'k \<Rightarrow> int option \<times> 'k"

definition RTM_ADD :: byte where "RTM_ADD = 1"
definition RTM_DELETE :: byte where "RTM_DELETE = 2"
definition RTM_CHANGE :: byte where "RTM_CHANGE = 3"
definition ESRCH :: int where "ESRCH = 3"
definition EEXIST :: int where "EEXIST = 17"
definition EINVAL :: int where "EINVAL = 22"

lemmas rtm_type_defs = RTM_ADD_def RTM_DELETE_def RTM_CHANGE_def

section \<open>Messages\<close>

text \<open>A \<open>sockaddr_in\<close> of the unspecified address, and the gateway's \<open>sockaddr_in6\<close>.\<close>

definition zero_sin :: "byte list" where
  "zero_sin = [16, AF_INET] @ replicate 14 0"

definition fill_gateway :: "u32 \<Rightarrow> in6_addr \<Rightarrow> byte list" where
  "fill_gateway ifindex gw =
     [28, af_inet6 freebsd_abi, 0, 0, 0, 0, 0, 0] @ embed_scope ifindex gw @ [0, 0, 0, 0]"

definition memcpy_at :: "nat \<Rightarrow> byte list \<Rightarrow> byte list \<Rightarrow> byte list option" where
  "memcpy_at off bs buf =
     (if off + length bs \<le> length buf then Some (take off buf @ bs @ drop (off + length bs) buf)
      else None)"

definition SA_SIZE :: "byte list \<Rightarrow> nat" where
  "SA_SIZE sa = sa_roundup (sa_align freebsd_abi) (unat (sa ! 0))"

text \<open>
  \<open>m\<close> before the write: the header and the 512 bytes of space, of which \<open>rtm_msglen\<close> are sent.
\<close>

definition route_bytes :: "u32 \<Rightarrow> u32 \<Rightarrow> u32 \<Rightarrow> byte \<Rightarrow> in6_addr \<Rightarrow> byte list option" where
  "route_bytes ifindex pid seq type gw = do {
     let dst = zero_sin;
     let mask = zero_sin;
     let gw6 = fill_gateway ifindex gw;
     sp \<leftarrow> memcpy_at 0 dst (replicate 512 0);
     let cp = SA_SIZE dst;
     sp \<leftarrow> memcpy_at cp gw6 sp;
     let cp = cp + SA_SIZE gw6;
     sp \<leftarrow> memcpy_at cp mask sp;
     let cp = cp + SA_SIZE mask;
     let msglen = (of_nat (hdr_size freebsd_abi + cp) :: u16);
     let hdr = le16 msglen @ [RTM_VERSION, type] @ le16 (ucast ifindex) @ [0, 0]
       @ le32 (RTF_UP OR RTF_GATEWAY OR RTF_STATIC) @ le32 (0x1 OR 0x2 OR 0x4)
       @ le32 pid @ le32 seq @ replicate (hdr_size freebsd_abi - 24) 0;
     Some (take (unat msglen) (hdr @ sp))
   }"

text \<open>
  \<open>rtseq\<close> is a C \<open>int\<close>; the model wraps at 32 bits, the code has undefined behaviour after
  \<open>2 ^ 31\<close> messages.
\<close>

definition route_msg :: "('k, 'x) fb_sys_scheme \<Rightarrow> byte \<Rightarrow> in6_addr \<Rightarrow> ('k fb_state, int) prog" where
  "route_msg S type gw =
     bnd (gets (\<lambda>s. route_bytes (fb_ifindex s) (sys_getpid S) (fb_rtseq s) type gw)) (\<lambda>m.
     bnd (of_opt m) (\<lambda>bs.
     bnd (modify (\<lambda>s. s\<lparr>fb_rtseq := fb_rtseq s + 1\<rparr>)) (\<lambda>_.
     bnd (kcall (sys_write S bs)) (\<lambda>w.
     let r = (case w of Inl e \<Rightarrow> - int e | Inr n \<Rightarrow> 0) in
     bnd (emit (Ev_route_msg bs r)) (\<lambda>_.
     ret r)))))"

definition install :: "('k, 'x) fb_sys_scheme \<Rightarrow> in6_addr \<Rightarrow> string \<Rightarrow> ('k fb_state, unit) prog" where
  "install S gw src =
     bnd (gets id) (\<lambda>s.
     if fb_installed s \<and> fb_gw s = gw then ret ()
     else
       bnd (route_msg S (if fb_installed s then RTM_CHANGE else RTM_ADD) gw) (\<lambda>r.
       bnd (if \<not> fb_installed s \<and> (r = - EEXIST \<or> r = - EINVAL)
            then route_msg S RTM_CHANGE gw else ret r) (\<lambda>r.
       if r < 0 then emit (Log_install_failed (- r))
       else
         bnd (emit (Log_installed gw src)) (\<lambda>_.
         modify (\<lambda>s. s\<lparr>fb_installed := True, fb_gw := gw\<rparr>)))))"

definition withdraw :: "('k, 'x) fb_sys_scheme \<Rightarrow> string \<Rightarrow> ('k fb_state, unit) prog" where
  "withdraw S reason =
     bnd (gets id) (\<lambda>s.
     if \<not> fb_installed s then ret ()
     else
       bnd (route_msg S RTM_DELETE (fb_gw s)) (\<lambda>r.
       bnd (if r < 0 \<and> r \<noteq> - ESRCH then emit (Log_withdraw_failed (- r))
            else emit (Log_withdrew reason)) (\<lambda>_.
       modify (\<lambda>s. s\<lparr>fb_installed := False\<rparr>))))"

section \<open>The messages are well-formed\<close>

definition route_rt_msg :: "u32 \<Rightarrow> u32 \<Rightarrow> u32 \<Rightarrow> byte \<Rightarrow> in6_addr \<Rightarrow> rt_msg" where
  "route_rt_msg ifindex pid seq type gw =
     \<lparr>rm_version = RTM_VERSION, rm_type = type, rm_index = ucast ifindex, rm_spare = [0, 0],
      rm_flags = RTF_UP OR RTF_GATEWAY OR RTF_STATIC,
      rm_rest = le32 pid @ le32 seq @ replicate 128 0,
      rm_slots = [Some zero_sin, Some (fill_gateway ifindex gw @ [0, 0, 0, 0]), Some zero_sin,
        None, None, None, None, None]\<rparr>"

lemma length_zero_sin [simp]: "length zero_sin = 16"
  by (simp add: zero_sin_def)

lemma length_fill_gateway [simp]: "length (fill_gateway i gw) = 12 + length gw"
  by (simp add: fill_gateway_def)

lemma sa_size_vals: "sa_roundup 8 16 = 16" "sa_roundup 8 28 = 32"
  using sa_roundup_ceil [of 16 3] sa_roundup_ceil [of 28 3] by simp_all

lemma sa_size_route [simp]: "SA_SIZE zero_sin = 16" "SA_SIZE (fill_gateway i gw) = 32"
  by (simp_all add: SA_SIZE_def zero_sin_def fill_gateway_def freebsd_abi_def sa_size_vals)

lemma wf_route_rt_msg:
  assumes "length gw = 16"
  shows "wf_msg freebsd_abi (route_rt_msg i pid seq type gw)"
proof -
  have "wf_sa freebsd_abi zero_sin"
    by (simp add: wf_sa_def zero_sin_def freebsd_abi_def sa_size_vals AF_INET_def AF_LINK_def)
  moreover have "wf_sa freebsd_abi (fill_gateway i gw @ [0, 0, 0, 0])"
    using assms by (simp add: wf_sa_def fill_gateway_def freebsd_abi_def sa_size_vals AF_INET_def
        AF_LINK_def)
  ultimately show ?thesis
    using assms
    by (auto simp: wf_msg_def route_rt_msg_def freebsd_abi_def RTAX_MAX_def msg_len_def)
qed

lemma slot_bits_route: "slot_bits (rm_slots (route_rt_msg i pid seq type gw)) = 7"
  by (simp add: slot_bits_def route_rt_msg_def)

lemma msg_len_route: "length gw = 16 \<Longrightarrow> msg_len (route_rt_msg i pid seq type gw) = 216"
  by (simp add: msg_len_def route_rt_msg_def)

lemma length_route_msg: "length gw = 16 \<Longrightarrow> length (enc_msg (route_rt_msg i pid seq type gw)) = 216"
  using length_enc_msg [OF wf_route_rt_msg] by (simp add: msg_len_route)

lemma sa_in6_fill: "length gw = 16 \<Longrightarrow> sa_in6 (fill_gateway i gw) = embed_scope i gw"
  by (simp add: sa_in6_def fill_gateway_def)

lemma route_bytes_enc:
  assumes "length gw = 16"
  shows "route_bytes i pid seq type gw = Some (enc_msg (route_rt_msg i pid seq type gw))"
proof -
  let ?m = "route_rt_msg i pid seq type gw"
  let ?tail = "replicate 448 0 :: byte list"
  have sp: "memcpy_at 0 zero_sin (replicate 512 0) = Some (zero_sin @ replicate 496 0)"
    "memcpy_at 16 (fill_gateway i gw) (zero_sin @ replicate 496 0)
      = Some (zero_sin @ fill_gateway i gw @ replicate 468 0)"
    "memcpy_at 48 zero_sin (zero_sin @ fill_gateway i gw @ replicate 468 0)
      = Some (zero_sin @ fill_gateway i gw @ [0, 0, 0, 0] @ zero_sin @ replicate 448 0)"
    using assms by (simp_all add: memcpy_at_def take_replicate flip: replicate_add)
      (simp add: numeral_eq_Suc)
  have hdr: "le16 (216 :: u16) @ [RTM_VERSION, type] @ le16 (ucast i) @ [0, 0]
       @ le32 (RTF_UP OR RTF_GATEWAY OR RTF_STATIC) @ le32 7
       @ le32 pid @ le32 seq @ replicate 128 0 = enc_hdr ?m"
    using assms by (simp add: enc_hdr_def msg_len_route slot_bits_route)
      (simp add: route_rt_msg_def)
  have slots: "enc_slots (rm_slots ?m) = zero_sin @ fill_gateway i gw @ [0, 0, 0, 0] @ zero_sin"
    by (simp add: route_rt_msg_def)
  have len: "length (enc_hdr ?m) = 152"
    using length_enc_hdr [of ?m] by (simp add: route_rt_msg_def)
  have "route_bytes i pid seq type gw
      = Some (take 216 (enc_hdr ?m @ zero_sin @ fill_gateway i gw @ [0, 0, 0, 0] @ zero_sin @ ?tail))"
    unfolding route_bytes_def Let_def
    by (simp add: sp freebsd_abi_def flip: hdr)
  also have "\<dots> = Some (enc_msg ?m)"
    using assms len by (simp add: enc_msg_def slots)
  finally show ?thesis .
qed

text \<open>The gateway a message carries, read the way a FIB dump is read.\<close>

definition sent_gateway :: "byte list \<Rightarrow> in6_addr option" where
  "sent_gateway bs = do {
     addrs \<leftarrow> rtm_addrs bs 0;
     sas \<leftarrow> fb_walk bs addrs 0;
     gw \<leftarrow> sas ! RTAX_GATEWAY;
     sin6_addr bs gw
   }"

definition sent_type :: "byte list \<Rightarrow> byte option" where
  "sent_type bs = rd8 bs 3"

lemma sent_gateway_route:
  assumes "length gw = 16"
  shows "sent_gateway (enc_msg (route_rt_msg i pid seq type gw)) = Some (embed_scope i gw)"
proof -
  let ?m = "route_rt_msg i pid seq type gw"
  have wf: "wf_msg freebsd_abi ?m" by (rule wf_route_rt_msg [OF assms])
  have "sa_in6 (fill_gateway i gw @ [0, 0, 0, 0]) = embed_scope i gw"
    using assms by (simp add: sa_in6_def fill_gateway_def)
  moreover have "sa_fam (fill_gateway i gw @ [0, 0, 0, 0]) = af_inet6 freebsd_abi"
    by (simp add: sa_fam_def fill_gateway_def)
  moreover have "rm_slots ?m ! 1 = Some (fill_gateway i gw @ [0, 0, 0, 0])"
    by (simp add: route_rt_msg_def)
  ultimately show ?thesis
    using rd_hdr(5) [OF wf, of "[]" "[]"] fb_walk_msg [OF wf, of "[]" "[]"]
      rd_slot(3) [OF wf, of 1 _ "[]" "[]"]
    by (simp add: sent_gateway_def slot_index upt_rec)
qed

lemma sent_type_route: "sent_type (enc_msg (route_rt_msg i pid seq type gw)) = Some type"
  by (simp add: sent_type_def rd8_def enc_msg_def enc_hdr_def route_rt_msg_def le16_def)

text \<open>
  What a kernel takes a message for: its type, the IPv4 prefix it is about, as destination and
  mask, and the IPv6 gateway. A message of another version or other address families, or without
  \<open>RTF_GATEWAY\<close>, is none of these.
\<close>

type_synonym in_prefix = "in_addr \<times> in_addr"

definition in_default :: in_prefix where "in_default = (INADDR_ANY, INADDR_ANY)"

definition RTAX_NETMASK :: nat where "RTAX_NETMASK = 2"

definition sent_route :: "byte list \<Rightarrow> (byte \<times> in_prefix \<times> in6_addr) option" where
  "sent_route bs = do {
     version \<leftarrow> rtm_version bs 0;
     type \<leftarrow> rd8 bs 3;
     flags \<leftarrow> rtm_flags bs 0;
     addrs \<leftarrow> rtm_addrs bs 0;
     sas \<leftarrow> fb_walk bs addrs 0;
     dst \<leftarrow> sas ! RTAX_DST;
     gw \<leftarrow> sas ! RTAX_GATEWAY;
     mask \<leftarrow> sas ! RTAX_NETMASK;
     dfam \<leftarrow> sa_family bs dst;
     gfam \<leftarrow> sa_family bs gw;
     mfam \<leftarrow> sa_family bs mask;
     da \<leftarrow> sin_addr bs dst;
     ga \<leftarrow> sin6_addr bs gw;
     ma \<leftarrow> sin_addr bs mask;
     if version = RTM_VERSION \<and> flags AND RTF_GATEWAY \<noteq> 0 \<and>
        dfam = AF_INET \<and> gfam = af_inet6 freebsd_abi \<and> mfam = AF_INET
     then Some (type, (da, ma), ga) else None
   }"

lemma sent_route_route:
  assumes "length gw = 16"
  shows "sent_route (enc_msg (route_rt_msg i pid seq type gw)) = Some (type, in_default, embed_scope i gw)"
proof -
  let ?m = "route_rt_msg i pid seq type gw"
  have wf: "wf_msg freebsd_abi ?m" by (rule wf_route_rt_msg [OF assms])
  have slots: "rm_slots ?m ! 0 = Some zero_sin" "rm_slots ?m ! Suc (Suc 0) = Some zero_sin"
    "rm_slots ?m ! Suc 0 = Some (fill_gateway i gw @ [0, 0, 0, 0])"
    by (simp_all add: route_rt_msg_def)
  have fields: "sa_fam zero_sin = AF_INET" "sa_in zero_sin = INADDR_ANY"
    "sa_fam (fill_gateway i gw @ [0, 0, 0, 0]) = af_inet6 freebsd_abi"
    "sa_in6 (fill_gateway i gw @ [0, 0, 0, 0]) = embed_scope i gw"
    using assms by (simp_all add: sa_fam_def sa_in_def sa_in6_def zero_sin_def fill_gateway_def
      INADDR_ANY_def numeral_eq_Suc)
  have hdr: "rm_version ?m = RTM_VERSION" "rm_flags ?m AND RTF_GATEWAY \<noteq> 0"
    by (simp_all add: route_rt_msg_def RTF_UP_def RTF_GATEWAY_def RTF_STATIC_def)
  have "rd8 (enc_msg ?m) 3 = Some type"
    using sent_type_route by (simp add: sent_type_def)
  then show ?thesis
    using rd_hdr [OF wf, of "[]" "[]"] fb_walk_msg [OF wf, of "[]" "[]"]
      rd_slot(1,2,3) [OF wf, of 0 _ "[]" "[]"] rd_slot(1,2,3) [OF wf, of "Suc 0" _ "[]" "[]"] rd_slot(1,2,3) [OF wf, of "Suc (Suc 0)" _ "[]" "[]"]
    by (simp add: sent_route_def slot_index RTAX_NETMASK_def numeral_2_eq_2 upt_rec slots fields hdr in_default_def)
qed

section \<open>What the daemon remembers\<close>

text \<open>The gateway of the IPv4 default that the accepted messages of a history leave, as raw bytes.\<close>

fun fib_step :: "in6_addr option \<Rightarrow> fb_event \<Rightarrow> in6_addr option" where
  "fib_step g (Ev_route_msg bs r) =
     (if r \<noteq> 0 then g
      else case sent_route bs of
        Some (type, p, gw) \<Rightarrow>
          if p \<noteq> in_default then g
          else if type = RTM_ADD \<or> type = RTM_CHANGE then Some gw
          else if type = RTM_DELETE then None else g
      | None \<Rightarrow> g)"
| "fib_step g _ = g"

definition fib_of :: "fb_event list \<Rightarrow> in6_addr option" where
  "fib_of es = foldl fib_step None es"

lemma fib_of_snoc [simp]: "fib_of (es @ [e]) = fib_step (fib_of es) e"
  by (simp add: fib_of_def)

definition fb_inv :: "'k fb_state \<Rightarrow> bool" where
  "fb_inv s \<longleftrightarrow> (fb_installed s \<longrightarrow> length (fb_gw s) = 16 \<and>
     (\<exists>i. fib_of (out s) = Some (embed_scope i (fb_gw s))))"

lemma wp_route_msg [wp_simps]:
  assumes "length gw = 16"
  shows "wp (route_msg S type gw) Q s =
    (let bs = enc_msg (route_rt_msg (fb_ifindex s) (sys_getpid S) (fb_rtseq s) type gw);
         w = sys_write S bs (kern s);
         r = (case fst w of Inl e \<Rightarrow> - int e | Inr n \<Rightarrow> 0)
     in Q r (s\<lparr>fb_rtseq := fb_rtseq s + 1, kern := snd w, out := out s @ [Ev_route_msg bs r]\<rparr>))"
  by (simp add: route_msg_def wp_simps route_bytes_enc assms Let_def split: sum.splits)

lemma wlp_route_msg [wp_simps]:
  assumes "length gw = 16"
  shows "wlp (route_msg S type gw) Q s = wp (route_msg S type gw) Q s"
  unfolding wp_route_msg [OF assms]
  by (simp add: route_msg_def wp_simps route_bytes_enc assms Let_def split: sum.splits)

text \<open>The state after a message, and what the history then says.\<close>

definition sent :: "('k, 'x) fb_sys_scheme \<Rightarrow> byte \<Rightarrow> in6_addr \<Rightarrow> int \<Rightarrow> 'k \<Rightarrow> 'k fb_state \<Rightarrow> 'k fb_state" where
  "sent S type gw r k s =
     s\<lparr>fb_rtseq := fb_rtseq s + 1, kern := k, out := out s @
       [Ev_route_msg (enc_msg (route_rt_msg (fb_ifindex s) (sys_getpid S) (fb_rtseq s) type gw)) r]\<rparr>"

lemma sent_frame [simp]:
  "fb_installed (sent S type gw r k s) = fb_installed s"
  "fb_gw (sent S type gw r k s) = fb_gw s"
  "fb_ifindex (sent S type gw r k s) = fb_ifindex s"
  "fb_ifname (sent S type gw r k s) = fb_ifname s"
  "fb_running (sent S type gw r k s) = fb_running s"
  by (simp_all add: sent_def)

lemma fib_of_sent:
  assumes "length gw = 16"
  shows "fib_of (out (sent S type gw r k s)) =
    (if r \<noteq> 0 then fib_of (out s)
     else if type = RTM_ADD \<or> type = RTM_CHANGE then Some (embed_scope (fb_ifindex s) gw)
     else if type = RTM_DELETE then None else fib_of (out s))"
  using assms by (simp add: sent_def sent_route_route)

lemma route_msg_rule:
  assumes "length gw = 16" and "\<And>r k. r \<le> 0 \<Longrightarrow> Q r (sent S type gw r k s)"
  shows "wp (route_msg S type gw) Q s"
proof -
  have "(case w of Inl e \<Rightarrow> - int e | Inr n \<Rightarrow> 0) \<le> 0" for w :: "nat + nat"
    by (cases w) auto
  then show ?thesis
    using assms(2) by (simp add: wp_route_msg [OF assms(1)] Let_def flip: sent_def)
qed

lemma fb_inv_failed: "fb_inv s \<Longrightarrow> length gw = 16 \<Longrightarrow> r \<noteq> 0 \<Longrightarrow> fb_inv (sent S type gw r k s)"
  by (simp add: fb_inv_def fib_of_sent)

lemma fb_inv_log: "fib_step (fib_of (out s)) e = fib_of (out s) \<Longrightarrow> fb_inv s \<Longrightarrow> fb_inv (s\<lparr>out := out s @ [e]\<rparr>)"
  by (simp add: fb_inv_def)

lemma install_inv:
  assumes inv: "fb_inv s" and gw: "length gw = 16"
  shows "wp (install S gw src) (\<lambda>_. fb_inv) s"
proof (cases "fb_installed s \<and> fb_gw s = gw")
  case True
  then show ?thesis using inv by (simp add: install_def wp_simps)
next
  case False
  have failed: "fb_inv (sent S type gw r k t\<lparr>out := out (sent S type gw r k t) @ [Log_install_failed (- r)]\<rparr>)"
    if "fb_inv t" "r < 0" for r type k t
    using that gw by (simp add: fb_inv_log fb_inv_failed)
  have succeeded: "fb_inv (sent S type gw 0 k t
      \<lparr>out := out (sent S type gw 0 k t) @ [Log_installed gw src], fb_installed := True, fb_gw := gw\<rparr>)"
    if "type = RTM_ADD \<or> type = RTM_CHANGE" for type k t
    using that gw fib_of_sent [OF gw, of S type 0 k t] by (auto simp: fb_inv_def)
  show ?thesis
    unfolding install_def wp_bnd wp_gets id_apply
    using False inv
    by (auto simp: wp_if wp_ret wp_bnd wp_emit wp_modify EEXIST_def EINVAL_def
        intro!: route_msg_rule gw failed succeeded fb_inv_failed)
qed

lemma withdraw_inv:
  assumes "fb_inv s"
  shows "wp (withdraw S reason) (\<lambda>_ t. fb_inv t \<and> \<not> fb_installed t) s"
proof (cases "fb_installed s")
  case True
  then show ?thesis
    using assms
    by (auto simp: withdraw_def wp_bnd wp_gets wp_emit wp_modify fb_inv_def intro!: route_msg_rule)
next
  case False
  then show ?thesis using assms by (simp add: withdraw_def wp_simps)
qed

text \<open>The whole effect of \<open>withdraw\<close>: at most one message, the flag off.\<close>

definition withdraw_log :: "int \<Rightarrow> string \<Rightarrow> fb_event" where
  "withdraw_log r reason =
     (if r < 0 \<and> r \<noteq> - ESRCH then Log_withdraw_failed (- r) else Log_withdrew reason)"

definition withdraw_out :: "('k, 'x) fb_sys_scheme \<Rightarrow> string \<Rightarrow> 'k fb_state \<Rightarrow> int \<Rightarrow> fb_event list" where
  "withdraw_out S reason s r =
     (if fb_installed s
      then [Ev_route_msg (enc_msg (route_rt_msg (fb_ifindex s) (sys_getpid S) (fb_rtseq s) RTM_DELETE
              (fb_gw s))) r, withdraw_log r reason]
      else [])"

lemma withdraw_effect:
  assumes "fb_installed s \<longrightarrow> length (fb_gw s) = 16"
  shows "wp (withdraw S reason) (\<lambda>_ t. \<not> fb_installed t \<and> fb_gw t = fb_gw s \<and>
    (\<exists>r. out t = out s @ withdraw_out S reason s r)) s"
proof (cases "fb_installed s")
  case True
  then show ?thesis
    using assms
    by (auto simp: withdraw_def wp_bnd wp_gets wp_emit wp_modify withdraw_out_def withdraw_log_def
        sent_def intro!: route_msg_rule)
next
  case False
  then show ?thesis by (simp add: withdraw_def wp_simps withdraw_out_def)
qed

end
