(* ===== verification/Daemon_Loop.thy ===== *)
theory Daemon_Loop
  imports V4_Prelude
begin

text \<open>
  The life of a daemon after its first pass: it waits and reconciles (\<open>iter\<close>) while
  \<open>running\<close> holds, the world, a signal handler or a callback may change its state between
  two of its own steps (\<open>env\<close>), and it runs \<open>stop\<close> once when \<open>running\<close> no longer holds.

  The locale \<open>daemon_loop\<close> states what a daemon owes to this life, that its pass and the
  world keep an invariant and that \<open>stop\<close> leaves nothing active, and concludes it for every
  reachable phase; \<open>safe_daemon_loop\<close> adds that no step faults, and concludes that the
  daemon is never stuck and can always finish. The daemons of the hosts and of
  the router interpret both.
\<close>

datatype 's phase = Running 's | Stopped 's | Crashed

inductive loop_step ::
    "('s \<Rightarrow> bool) \<Rightarrow> ('s \<Rightarrow> 's \<Rightarrow> bool) \<Rightarrow> ('s, unit) prog \<Rightarrow> ('s, unit) prog \<Rightarrow>
      's phase \<Rightarrow> 's phase \<Rightarrow> bool"
  for running env iter stop where
  iterate: "running s \<Longrightarrow> iter s = Some ((), t) \<Longrightarrow>
    loop_step running env iter stop (Running s) (Running t)"
| iter_fault: "running s \<Longrightarrow> iter s = None \<Longrightarrow>
    loop_step running env iter stop (Running s) Crashed"
| outside: "env s t \<Longrightarrow> loop_step running env iter stop (Running s) (Running t)"
| finish: "\<not> running s \<Longrightarrow> stop s = Some ((), t) \<Longrightarrow>
    loop_step running env iter stop (Running s) (Stopped t)"
| stop_fault: "\<not> running s \<Longrightarrow> stop s = None \<Longrightarrow>
    loop_step running env iter stop (Running s) Crashed"

inductive_cases loop_step_Stopped: "loop_step running env iter stop (Stopped s) p"
inductive_cases loop_step_Crashed: "loop_step running env iter stop Crashed p"
inductive_cases loop_step_Running: "loop_step running env iter stop (Running s) p"
inductive_simps loop_step_to_Stopped: "loop_step running env iter stop (Running s) (Stopped t)"

definition loop_reaches ::
    "('s \<Rightarrow> bool) \<Rightarrow> ('s \<Rightarrow> 's \<Rightarrow> bool) \<Rightarrow> ('s, unit) prog \<Rightarrow> ('s, unit) prog \<Rightarrow>
      's \<Rightarrow> 's phase \<Rightarrow> bool" where
  "loop_reaches running env iter stop s = (loop_step running env iter stop)\<^sup>*\<^sup>* (Running s)"

lemma loop_reaches_refl: "loop_reaches running env iter stop s (Running s)"
  by (simp add: loop_reaches_def)

lemma loop_reaches_step:
  "loop_reaches running env iter stop s p \<Longrightarrow> loop_step running env iter stop p q \<Longrightarrow>
    loop_reaches running env iter stop s q"
  by (simp add: loop_reaches_def)

text \<open>A stopped daemon got there by running \<open>stop\<close>.\<close>

lemma loop_reaches_Stopped:
  assumes "loop_reaches running env iter stop s (Stopped t)"
  obtains u where "loop_reaches running env iter stop s (Running u)" and "\<not> running u"
    and "stop u = Some ((), t)"
proof -
  obtain p where p: "loop_reaches running env iter stop s p"
    and step: "loop_step running env iter stop p (Stopped t)"
    using assms by (auto simp: loop_reaches_def elim: rtranclp.cases)
  obtain u where u: "p = Running u"
    using step by (cases p) (auto elim: loop_step_Stopped loop_step_Crashed)
  show thesis
    using that [of u] p step by (simp add: u loop_step_to_Stopped)
qed

fun phase_ok :: "('s \<Rightarrow> bool) \<Rightarrow> ('s \<Rightarrow> bool) \<Rightarrow> 's phase \<Rightarrow> bool" where
  "phase_ok invar active (Running s) = invar s"
| "phase_ok invar active (Stopped s) = (invar s \<and> \<not> active s)"
| "phase_ok invar active Crashed = True"

locale daemon_loop =
  fixes running :: "'s \<Rightarrow> bool"
    and env :: "'s \<Rightarrow> 's \<Rightarrow> bool"
    and iter stop :: "('s, unit) prog"
    and invar active :: "'s \<Rightarrow> bool"
  assumes iter_inv: "invar s \<Longrightarrow> running s \<Longrightarrow> wlp iter (\<lambda>_. invar) s"
    and env_inv: "invar s \<Longrightarrow> env s t \<Longrightarrow> invar t"
    and stop_inv: "invar s \<Longrightarrow> wlp stop (\<lambda>_ t. invar t \<and> \<not> active t) s"
begin

lemma step_ok:
  "loop_step running env iter stop p q \<Longrightarrow> phase_ok invar active p \<Longrightarrow> phase_ok invar active q"
proof (induction rule: loop_step.induct)
  case (iterate s t)
  then show ?case using wlpD [OF iter_inv [of s]] by simp
next
  case (outside s t)
  then show ?case using env_inv by simp
next
  case (finish s t)
  then show ?case using wlpD [OF stop_inv [of s]] by simp
qed auto

lemma reach_ok:
  assumes "loop_reaches running env iter stop s p" and "invar s"
  shows "phase_ok invar active p"
  using assms(1) unfolding loop_reaches_def
proof (induction rule: rtranclp_induct)
  case base
  then show ?case using assms(2) by simp
next
  case (step p q)
  then show ?case by (blast intro: step_ok)
qed

lemma stopped_inactive:
  "loop_reaches running env iter stop s (Stopped t) \<Longrightarrow> invar s \<Longrightarrow> \<not> active t"
  using reach_ok by fastforce

end

locale safe_daemon_loop = daemon_loop +
  assumes iter_safe: "invar s \<Longrightarrow> running s \<Longrightarrow> iter s \<noteq> None"
    and stop_safe: "invar s \<Longrightarrow> stop s \<noteq> None"
begin

lemma step_not_crashed:
  "loop_step running env iter stop p q \<Longrightarrow> phase_ok invar active p \<Longrightarrow> p \<noteq> Crashed \<Longrightarrow> q \<noteq> Crashed"
proof (induction rule: loop_step.induct)
  case (iter_fault s)
  then show ?case using iter_safe [of s] by simp
next
  case (stop_fault s)
  then show ?case using stop_safe [of s] by simp
qed simp_all

lemma never_crashes:
  assumes "loop_reaches running env iter stop s p" and "invar s"
  shows "p \<noteq> Crashed"
  using assms(1) unfolding loop_reaches_def
proof (induction rule: rtranclp_induct)
  case base
  then show ?case by simp
next
  case (step p q)
  have "phase_ok invar active p"
    using reach_ok step.hyps(1) assms(2) by (simp add: loop_reaches_def)
  then show ?case using step step_not_crashed by blast
qed

text \<open>A running daemon can always take a step of its own.\<close>

lemma own_step:
  assumes "invar s"
  shows "if running s then \<exists>t. loop_step running env iter stop (Running s) (Running t)
    else \<exists>t. loop_step running env iter stop (Running s) (Stopped t)"
proof (cases "running s")
  case True
  then obtain t where "iter s = Some ((), t)" using iter_safe [OF assms] by auto
  then show ?thesis using True by (auto intro: loop_step.iterate)
next
  case False
  then obtain t where "stop s = Some ((), t)" using stop_safe [OF assms] by auto
  then show ?thesis using False by (auto intro: loop_step.finish)
qed

text \<open>Once \<open>running\<close> is off, the daemon's only own step is to finish, inactive.\<close>

lemma finishes:
  assumes "loop_reaches running env iter stop s (Running t)" and "invar s" and "\<not> running t"
  shows "\<exists>u. loop_step running env iter stop (Running t) (Stopped u) \<and> \<not> active u"
proof -
  have inv_t: "invar t" using reach_ok [OF assms(1,2)] by simp
  then obtain u where u: "loop_step running env iter stop (Running t) (Stopped u)"
    using own_step [of t] assms(3) by auto
  then have "phase_ok invar active (Stopped u)"
    using step_ok [of "Running t" "Stopped u"] inv_t by simp
  then show ?thesis using u by auto
qed

text \<open>The whole life: no fault, an end once \<open>running\<close> is off, and nothing active after it.\<close>

lemma life:
  assumes reach: "loop_reaches running env iter stop s p" and inv: "invar s"
  shows "p \<noteq> Crashed \<and>
    (\<forall>u. p = Running u \<and> \<not> running u \<longrightarrow> (\<exists>t. loop_step running env iter stop p (Stopped t))) \<and>
    (\<forall>t. p = Stopped t \<longrightarrow> \<not> active t)"
proof (cases p)
  case (Running u)
  then show ?thesis
    using finishes [of s u] reach inv by blast
next
  case (Stopped t)
  then show ?thesis
    using stopped_inactive [of s t] reach inv by simp
next
  case Crashed
  then show ?thesis
    using never_crashes [OF reach inv] by simp
qed

end

end
