(* ===== verification/Entry_Keeper.thy ===== *)
theory Entry_Keeper
  imports V4_Prelude
begin

text \<open>
  What the four host daemons have in common: a pass decides to forget its entry (the interface is
  gone), to cease, or to pin a value, and carries the decision out. \<open>entry_keeper\<close> is the
  contract of the operations it uses and concludes what the kernel's entry is after the pass.
  The daemons differ in the entry (an IPv4 default route, an ARP entry, a neighbor entry) and in
  what a pinned value carries along (a source for the log, an own MAC for the map).
\<close>

datatype ('a, 'b) decision = Gone | Cease string | Pin 'a 'b

fun carry_out ::
    "('s, unit) prog \<Rightarrow> (string \<Rightarrow> ('s, unit) prog) \<Rightarrow> ('a \<Rightarrow> 'b \<Rightarrow> ('s, unit) prog) \<Rightarrow>
      ('a, 'b) decision \<Rightarrow> ('s, unit) prog" where
  "carry_out forget withdraw install Gone = forget"
| "carry_out forget withdraw install (Cease reason) = withdraw reason"
| "carry_out forget withdraw install (Pin x y) = install x y"

text \<open>The kernel's entry after a pass, from the one before it and whether the daemon had one.\<close>

fun entry_after :: "('a \<Rightarrow> 'e) \<Rightarrow> 'e \<Rightarrow> ('a, 'b) decision \<Rightarrow> bool \<Rightarrow> 'e \<Rightarrow> 'e" where
  "entry_after val none Gone was_active old = old"
| "entry_after val none (Cease reason) was_active old = (if was_active then none else old)"
| "entry_after val none (Pin x y) was_active old = val x"

definition fit_decision :: "('a \<Rightarrow> 'b \<Rightarrow> bool) \<Rightarrow> ('a, 'b) decision \<Rightarrow> bool" where
  "fit_decision fit d \<longleftrightarrow> (\<forall>x y. d = Pin x y \<longrightarrow> fit x y)"

lemma fit_decision_simps [simp]:
  "fit_decision fit Gone" "fit_decision fit (Cease reason)" "fit_decision fit (Pin x y) \<longleftrightarrow> fit x y"
  by (simp_all add: fit_decision_def)

text \<open>
  \<open>ok\<close> is the state in which a decision is carried out: the system keeps its promises and the
  daemon's memory is in order. \<open>val s x\<close> is the entry that pinning \<open>x\<close> makes.
\<close>

locale entry_keeper =
  fixes forget :: "('s, unit) prog"
    and withdraw :: "string \<Rightarrow> ('s, unit) prog"
    and install :: "'a \<Rightarrow> 'b \<Rightarrow> ('s, unit) prog"
    and entry :: "'s \<Rightarrow> 'e"
    and active :: "'s \<Rightarrow> bool"
    and ok :: "'s \<Rightarrow> bool"
    and fit :: "'a \<Rightarrow> 'b \<Rightarrow> bool"
    and val :: "'s \<Rightarrow> 'a \<Rightarrow> 'e"
    and none :: 'e
  assumes forget_law: "ok s \<Longrightarrow> wp forget (\<lambda>_ t. entry t = entry s \<and> \<not> active t) s"
    and withdraw_law: "ok s \<Longrightarrow> wp (withdraw reason)
      (\<lambda>_ t. entry t = (if active s then none else entry s) \<and> \<not> active t) s"
    and install_law: "ok s \<Longrightarrow> fit x y \<Longrightarrow> wp (install x y) (\<lambda>_ t. entry t = val s x \<and> active t) s"
begin

abbreviation carry :: "('a, 'b) decision \<Rightarrow> ('s, unit) prog" where
  "carry \<equiv> carry_out forget withdraw install"

lemma carry_sets:
  assumes "ok s" and "fit_decision fit d"
  shows "wp (carry d) (\<lambda>_ t. entry t = entry_after (val s) none d (active s) (entry s) \<and>
    (active t \<longleftrightarrow> (\<exists>x y. d = Pin x y))) s"
proof (cases d)
  case Gone
  then show ?thesis using forget_law [OF assms(1)] by simp
next
  case (Cease reason)
  then show ?thesis using withdraw_law [OF assms(1)] by simp
next
  case (Pin x y)
  then show ?thesis using install_law [OF assms(1)] assms(2) by simp
qed

text \<open>A pass that observes \<open>d\<close> and carries it out.\<close>

lemma pass_sets:
  assumes "observe s = Some (d, u)" and "ok u" and "fit_decision fit d"
  shows "wp (bnd observe carry) (\<lambda>_ t. entry t = entry_after (val u) none d (active u) (entry u) \<and>
    (active t \<longleftrightarrow> (\<exists>x y. d = Pin x y))) s"
  using carry_sets [OF assms(2,3)] assms(1) by (simp add: wp_def bnd_def)

end

text \<open>
  A keeper is steady when nothing is left to do after it has done something: what is withdrawn
  or forgotten stays so, and what has been installed is not installed again while \<open>shown\<close> holds,
  which says that the kernel's tables show the entry. \<open>frame d s t\<close> is what carrying out \<open>d\<close>
  leaves alone.
\<close>

locale steady_keeper = entry_keeper forget withdraw install entry active ok fit val none
  for forget :: "('s, unit) prog" and withdraw and install :: "'a \<Rightarrow> 'b \<Rightarrow> ('s, unit) prog"
    and entry :: "'s \<Rightarrow> 'e" and active ok fit val none +
  fixes shown :: "'s \<Rightarrow> bool"
    and frame :: "('a, 'b) decision \<Rightarrow> 's \<Rightarrow> 's \<Rightarrow> bool"
  assumes frame_law: "wlp (carry_out forget withdraw install d) (\<lambda>_. frame d s) s"
    and forget_idle: "\<not> active t \<Longrightarrow> forget t = Some ((), t)"
    and withdraw_idle: "\<not> active t \<Longrightarrow> withdraw reason t = Some ((), t)"
    and install_again: "ok s \<Longrightarrow> fit x y \<Longrightarrow>
      wp (install x y) (\<lambda>_ t. shown t \<longrightarrow> install x y t = Some ((), t)) s"
begin

lemma carry_idle:
  assumes "ok s" and "fit_decision fit d"
  shows "wp (carry d) (\<lambda>_ t. shown t \<longrightarrow> carry d t = Some ((), t)) s"
proof (cases d)
  case Gone
  then show ?thesis using wp_mono [OF forget_law [OF assms(1)]] forget_idle by simp
next
  case (Cease reason)
  then show ?thesis using wp_mono [OF withdraw_law [OF assms(1)]] withdraw_idle by simp
next
  case (Pin x y)
  then show ?thesis using install_again [OF assms(1)] assms(2) by simp
qed

lemma carry_again:
  "ok s \<Longrightarrow> fit_decision fit d \<Longrightarrow>
    wp (carry d) (\<lambda>_ t. frame d s t \<and> (shown t \<longrightarrow> carry d t = Some ((), t))) s"
  by (intro wp_and_wlp frame_law carry_idle)

end

end
