(* ===== verification/Freebsd_Daemon.thy ===== *)
theory Freebsd_Daemon
  imports Freebsd_Select Freebsd_Route Daemon_Loop Entry_Keeper
begin

text \<open>
  The FreeBSD daemon (\<open>reconcile\<close>, \<open>kernel_supports_rfc5549\<close>, the signal handler and
  \<open>main\<close> of \<^verbatim>\<open>host/freebsd/v4gwd.c\<close>).

  \<open>reconcile\<close> is the code; \<open>reconcile_split\<close> shows it equal to an observation of the world
  (\<open>fb_observe\<close>, which changes nothing but the interface index) followed by one action
  (\<open>fb_act\<close>). The lemmas on it are stated for every behaviour of the system calls; where a
  pass is compared with the kernel's tables (\<open>fb_sees\<close>), the reads are assumed not to
  change the world, which is the case of a world that stands still during the pass.
\<close>

section \<open>Reconciliation\<close>

definition reconcile :: "('k, 'x) fb_sys_scheme \<Rightarrow> ('k fb_state, unit) prog" where
  "reconcile S =
     bnd (gets fb_ifname) (\<lambda>ifname.
     bnd (kcall (sys_if_nametoindex S ifname)) (\<lambda>ifindex.
     bnd (modify (\<lambda>s. s\<lparr>fb_ifindex := ifindex\<rparr>)) (\<lambda>_.
     if ifindex = 0 then modify (\<lambda>s. s\<lparr>fb_installed := False\<rparr>)
     else
       bnd (gets fb_sentinel_file) (\<lambda>file.
       bnd (case file of None \<Rightarrow> ret True | Some f \<Rightarrow> sentinel_in_file S f) (\<lambda>ok.
       if \<not> ok then withdraw S ''sentinel state cleared; ceasing per draft s4''
       else
         bnd (gets fb_require_route) (\<lambda>require.
         bnd (if require then sentinel_in_fib S else ret True) (\<lambda>ok.
         if \<not> ok then withdraw S ''sentinel 192.0.0.11 route removed; ceasing per draft s4''
         else
           bnd (select_router S ifindex) (\<lambda>r.
           case r of
             Some gw \<Rightarrow> install S gw ''ND default router list''
           | None \<Rightarrow>
               bnd (static_default_router S ifindex) (\<lambda>r.
               case r of
                 Some gw \<Rightarrow> install S gw ''static IPv6 default route''
               | None \<Rightarrow> withdraw S ''no IPv6 next hop (ND list empty, no static default)'')))))))))"

section \<open>The loop, the signals and the start\<close>

definition SIGHUP :: int where "SIGHUP = 1"
definition SIGINT :: int where "SIGINT = 2"
definition SIGTERM :: int where "SIGTERM = 15"

definition handle_sig :: "int \<Rightarrow> 'k fb_state \<Rightarrow> 'k fb_state" where
  "handle_sig sig s =
     (if sig = SIGHUP then s\<lparr>fb_reload := True\<rparr> else s\<lparr>fb_running := False\<rparr>)"

text \<open>A message read back whole enough for a header that carries the daemon's process id.\<close>

definition own_echo :: "u32 \<Rightarrow> byte list option \<Rightarrow> bool" where
  "own_echo pid r =
     (case r of
        None \<Rightarrow> False
      | Some msgbuf \<Rightarrow> hdr_size freebsd_abi \<le> length msgbuf \<and> rtm_pid msgbuf 0 = Some pid)"

lemma own_echo_route: "length gw = 16 \<Longrightarrow>
    own_echo pid (Some (enc_msg (route_rt_msg i pid seq type gw)))"
  by (simp add: own_echo_def length_route_msg freebsd_abi_def rtm_pid_def rd32_def rd_bytes_def)
    (simp add: enc_msg_def enc_hdr_def route_rt_msg_def)

definition fb_iter :: "('k, 'x) fb_sys_scheme \<Rightarrow> ('k fb_state, unit) prog" where
  "fb_iter S =
     bnd (gets (\<lambda>s. c_mul (fb_interval s) 1000)) (\<lambda>t.
     bnd (of_opt t) (\<lambda>timeout.
     bnd (kcall (sys_poll S timeout)) (\<lambda>n.
     bnd (if n > 0 then bnd (kcall (sys_read S 2048)) (\<lambda>r. ret (own_echo (sys_getpid S) r))
          else ret False) (\<lambda>echo.
     if echo then ret ()
     else
       bnd (modify (\<lambda>s. if fb_reload s then s\<lparr>fb_reload := False\<rparr> else s)) (\<lambda>_.
       reconcile S)))))"

definition fb_stop :: "('k, 'x) fb_sys_scheme \<Rightarrow> ('k fb_state, unit) prog" where
  "fb_stop S = withdraw S ''daemon shutdown''"

text \<open>What may happen to the state between two steps of the daemon.\<close>

inductive fb_env :: "'k fb_state \<Rightarrow> 'k fb_state \<Rightarrow> bool" where
  fb_kernel: "fb_env s (s\<lparr>kern := k\<rparr>)"
| fb_files: "fb_env s (s\<lparr>files := fs\<rparr>)"
| fb_signal: "sig \<in> {SIGINT, SIGTERM, SIGHUP} \<Longrightarrow> fb_env s (handle_sig sig s)"

text \<open>
  The knob is absent on an old kernel, and then the daemon goes on.
\<close>

definition kernel_supports_rfc5549 ::
    "('k, 'x) fb_sys_scheme \<Rightarrow> ('k fb_state, bool) prog" where
  "kernel_supports_rfc5549 S =
     bnd (kcall (sys_sysctlbyname S ''kern.features.ipv4_rfc5549_support'')) (\<lambda>r.
     ret (case r of Some v \<Rightarrow> v \<noteq> 0 | None \<Rightarrow> True))"

text \<open>The statics before \<open>main\<close>.\<close>

definition fb_init :: "'k \<Rightarrow> (string \<Rightarrow> string option) \<Rightarrow> 'k fb_state" where
  "fb_init k fs =
     \<lparr>kern = k, files = fs, out = [], fb_running = True, fb_reload = False, fb_ifname = [],
      fb_ifindex = 0, fb_require_route = False, fb_sentinel_file = None, fb_interval = 15,
      fb_rtsock = -1, fb_rtseq = 1, fb_installed = False, fb_gw = replicate 16 0\<rparr>"

text \<open>The option loop; \<open>Some c\<close> is an exit with status \<open>c\<close>, and \<open>usage\<close> exits with 1.\<close>

fun fb_opts :: "opt list \<Rightarrow> ('k fb_state, int option) prog" where
  "fb_opts [] = ret None"
| "fb_opts (Opt c # os) =
     (if c = CHR ''r'' then bnd (modify (\<lambda>s. s\<lparr>fb_require_route := True\<rparr>)) (\<lambda>_. fb_opts os)
      else ret (Some 1))"
| "fb_opts (Opt_arg c optarg # os) =
     (if c = CHR ''f'' then
        bnd (modify (\<lambda>s. s\<lparr>fb_sentinel_file := Some optarg\<rparr>)) (\<lambda>_. fb_opts os)
      else if c = CHR ''i'' then
        bnd (of_opt (atoi optarg)) (\<lambda>n.
        bnd (modify (\<lambda>s. s\<lparr>fb_interval := n\<rparr>)) (\<lambda>_.
        if n < 1 then ret (Some 1) else fb_opts os))
      else ret (Some 1))"
| "fb_opts (Opt_bad # os) = ret (Some 1)"

text \<open>
  \<open>main\<close> up to and with the first pass: the exit status, or \<open>None\<close> when the loop is entered.
\<close>

definition fb_main :: "('k, 'x) fb_sys_scheme \<Rightarrow> string list \<Rightarrow> ('k fb_state, int option) prog" where
  "fb_main S args =
     (let (os, operands) = getopt [(CHR ''r'', False), (CHR ''f'', True), (CHR ''i'', True)] args in
      bnd (fb_opts os) (\<lambda>ex.
      case ex of
        Some c \<Rightarrow> ret (Some c)
      | None \<Rightarrow>
      bnd (gets id) (\<lambda>s.
      if length operands \<noteq> 1 \<or> fb_require_route s \<and> fb_sentinel_file s \<noteq> None then ret (Some 1)
      else
        bnd (modify (\<lambda>s. s\<lparr>fb_ifname := hd operands\<rparr>)) (\<lambda>_.
        bnd (kcall (sys_if_nametoindex S (hd operands))) (\<lambda>ifindex.
        bnd (modify (\<lambda>s. s\<lparr>fb_ifindex := ifindex\<rparr>)) (\<lambda>_.
        if ifindex = 0 then ret (Some 1)
        else
          bnd (kernel_supports_rfc5549 S) (\<lambda>supported.
          if \<not> supported then ret (Some 1)
          else
            bnd (kcall (sys_socket S)) (\<lambda>fd.
            bnd (modify (\<lambda>s. s\<lparr>fb_rtsock := fd\<rparr>)) (\<lambda>_.
            if fd < 0 then ret (Some 1)
            else bnd (reconcile S) (\<lambda>_. ret None))))))))))"

section \<open>Observation and action\<close>

text \<open>A gateway is pinned with the source it came from.\<close>

type_synonym fb_decision = "(in6_addr, string) decision"

definition fb_decide :: "('k, 'x) fb_sys_scheme \<Rightarrow> u32 \<Rightarrow> ('k fb_state, fb_decision) prog" where
  "fb_decide S ifindex =
     (if ifindex = 0 then ret Gone
      else
       bnd (gets fb_sentinel_file) (\<lambda>file.
       bnd (case file of None \<Rightarrow> ret True | Some f \<Rightarrow> sentinel_in_file S f) (\<lambda>ok.
       if \<not> ok then ret (Cease ''sentinel state cleared; ceasing per draft s4'')
       else
         bnd (gets fb_require_route) (\<lambda>require.
         bnd (if require then sentinel_in_fib S else ret True) (\<lambda>ok.
         if \<not> ok then ret (Cease ''sentinel 192.0.0.11 route removed; ceasing per draft s4'')
         else
           bnd (select_router S ifindex) (\<lambda>r.
           case r of
             Some gw \<Rightarrow> ret (Pin gw ''ND default router list'')
           | None \<Rightarrow>
               bnd (static_default_router S ifindex) (\<lambda>r.
               case r of
                 Some gw \<Rightarrow> ret (Pin gw ''static IPv6 default route'')
               | None \<Rightarrow> ret (Cease ''no IPv6 next hop (ND list empty, no static default)''))))))))"

definition fb_observe :: "('k, 'x) fb_sys_scheme \<Rightarrow> ('k fb_state, fb_decision) prog" where
  "fb_observe S =
     bnd (gets fb_ifname) (\<lambda>ifname.
     bnd (kcall (sys_if_nametoindex S ifname)) (\<lambda>ifindex.
     bnd (modify (\<lambda>s. s\<lparr>fb_ifindex := ifindex\<rparr>)) (\<lambda>_.
     fb_decide S ifindex)))"

definition fb_act :: "('k, 'x) fb_sys_scheme \<Rightarrow> fb_decision \<Rightarrow> ('k fb_state, unit) prog" where
  "fb_act S = carry_out (modify (\<lambda>s. s\<lparr>fb_installed := False\<rparr>)) (withdraw S) (install S)"

lemma fb_act_simps [simp]:
  "fb_act S Gone = modify (\<lambda>s. s\<lparr>fb_installed := False\<rparr>)"
  "fb_act S (Cease reason) = withdraw S reason"
  "fb_act S (Pin gw src) = install S gw src"
  by (simp_all add: fb_act_def)

lemma reconcile_split: "reconcile S = bnd (fb_observe S) (fb_act S)"
  unfolding reconcile_def fb_observe_def fb_decide_def
  by (simp add: bnd_simps cong: if_cong option.case_cong)

section \<open>Every pass keeps the invariant\<close>

lemma sin6_addr_length: "sin6_addr buf q = Some a \<Longrightarrow> length a = 16"
  by (auto simp: sin6_addr_def rd_bytes_def split: if_splits)

lemma static_router_length: "returns (static_default_router S ifindex) addr_len_ok"
proof -
  have body: "length a = 16" if "fb_static_body ifindex buf p = Some (Break a)" for buf p a
    using that
    by (auto simp: fb_static_body_def bind_eq_Some_conv split: if_split_asm option.split_asm)
      (metis length_strip_scope sin6_addr_length)
  have "addr_len_ok r" if "rtm_scan (fb_static_body ifindex) b 0 = Some r" for b r
    using rtm_scan_returns [OF that body] by (simp add: addr_len_ok_def)
  then show ?thesis
    by (auto simp: returns_def static_default_router_def bnd_def ret_def of_opt_def addr_len_ok_def
        split: option.splits)
qed

definition decision_ok :: "fb_decision \<Rightarrow> bool" where
  "decision_ok d \<longleftrightarrow> (\<forall>gw src. d = Pin gw src \<longrightarrow> length gw = 16)"

lemma kern_only_decide: "kern_only (fb_decide S i)"
  unfolding fb_decide_def by (intro frame_intros)

lemma safe_decide: "dump_ok freebsd_abi S \<Longrightarrow> safe (fb_decide S i)"
  unfolding fb_decide_def by (intro safe_intros)

lemma returns_decide: "returns (fb_decide S i) decision_ok"
  unfolding fb_decide_def
  by (intro returns_if returns_bnd returns_bnd_from [OF select_router_length]
      returns_bnd_from [OF static_router_length] returns_option returns_ret)
    (auto simp: decision_ok_def addr_len_ok_def)

lemma wlp_observe:
  assumes "\<And>d k i. decision_ok d \<Longrightarrow> Q d (s\<lparr>fb_ifindex := i, kern := k\<rparr>)"
  shows "wlp (fb_observe S) Q s"
proof -
  have "wlp (fb_decide S i) Q (s\<lparr>kern := k, fb_ifindex := i\<rparr>)" for k i
    using assms by (intro wlp_read [OF kern_only_decide returns_decide]) simp
  then show ?thesis by (simp add: fb_observe_def wp_simps)
qed

lemma wp_observe:
  assumes "dump_ok freebsd_abi S"
    and "\<And>d k i. decision_ok d \<Longrightarrow> Q d (s\<lparr>fb_ifindex := i, kern := k\<rparr>)"
  shows "wp (fb_observe S) Q s"
  using assms safe_decide [OF assms(1)]
  by (intro safe_wp wlp_observe) (auto simp: fb_observe_def intro!: safe_intros)

lemma act_inv:
  assumes "fb_inv s" and "decision_ok d"
  shows "wp (fb_act S d) (\<lambda>_. fb_inv) s"
proof (cases d)
  case Gone
  then show ?thesis by (simp add: wp_simps fb_inv_def)
next
  case (Cease reason)
  then show ?thesis using withdraw_inv [OF assms(1), of S reason] by (auto elim: wp_mono)
next
  case (Pin gw src)
  then show ?thesis using install_inv [OF assms(1)] assms(2) by (simp add: decision_ok_def)
qed

lemma fb_inv_frame: "fb_inv s \<Longrightarrow> fb_inv (s\<lparr>fb_ifindex := i, kern := k\<rparr>)"
  by (simp add: fb_inv_def)

lemma reconcile_inv: "fb_inv s \<Longrightarrow> wlp (reconcile S) (\<lambda>_. fb_inv) s"
  unfolding reconcile_split wlp_bnd
  by (intro wlp_observe wp_wlp act_inv fb_inv_frame)

lemma reconcile_safe_inv:
  "dump_ok freebsd_abi S \<Longrightarrow> fb_inv s \<Longrightarrow> wp (reconcile S) (\<lambda>_. fb_inv) s"
  unfolding reconcile_split wp_bnd
  by (intro wp_observe act_inv fb_inv_frame)

section \<open>The loop\<close>

text \<open>A pass leaves the settings and the flags of the signal handler alone.\<close>

definition same_config :: "'k fb_state \<Rightarrow> 'k fb_state \<Rightarrow> bool" where
  "same_config s t \<longleftrightarrow> fb_interval t = fb_interval s \<and> fb_running t = fb_running s \<and>
     fb_reload t = fb_reload s \<and> fb_ifname t = fb_ifname s \<and>
     fb_require_route t = fb_require_route s \<and> fb_sentinel_file t = fb_sentinel_file s"

definition keeps_config :: "('k fb_state, 'a) prog \<Rightarrow> bool" where
  "keeps_config m \<longleftrightarrow> (\<forall>s x t. m s = Some (x, t) \<longrightarrow> same_config s t)"

lemma keeps_bnd: "keeps_config m \<Longrightarrow> (\<And>x. keeps_config (f x)) \<Longrightarrow> keeps_config (bnd m f)"
  unfolding keeps_config_def bnd_def
  by (fastforce simp: same_config_def split: option.splits)

lemma keeps_kern_only: "kern_only m \<Longrightarrow> keeps_config m"
  by (auto simp: keeps_config_def same_config_def dest!: kern_onlyD)

lemma keeps_modify: "(\<And>s. same_config s (f s)) \<Longrightarrow> keeps_config (modify f)"
  by (simp add: keeps_config_def modify_def)

lemma keeps_if: "keeps_config m \<Longrightarrow> keeps_config n \<Longrightarrow> keeps_config (if b then m else n)"
  by simp

lemma keeps_emit: "keeps_config (emit e)"
  unfolding emit_def by (rule keeps_modify) (simp add: same_config_def)

lemmas keeps_intros = keeps_bnd keeps_if keeps_emit keeps_modify keeps_kern_only

lemma keeps_route_msg: "keeps_config (route_msg S type gw)"
  unfolding route_msg_def Let_def
  by (intro keeps_intros frame_intros) (simp_all add: same_config_def)

lemma keeps_act: "keeps_config (fb_act S d)"
proof (cases d)
  case Gone
  then show ?thesis by (auto intro: keeps_modify simp: same_config_def)
next
  case (Cease reason)
  have "keeps_config (withdraw S reason)"
    unfolding withdraw_def
    by (intro keeps_bnd keeps_if keeps_emit keeps_route_msg keeps_modify
        keeps_kern_only [OF kern_only_gets] keeps_kern_only [OF kern_only_ret])
      (simp_all add: same_config_def)
  then show ?thesis using Cease by simp
next
  case (Pin gw src)
  have "keeps_config (install S gw src)"
    unfolding install_def
    by (intro keeps_bnd keeps_if keeps_emit keeps_route_msg keeps_modify
        keeps_kern_only [OF kern_only_gets] keeps_kern_only [OF kern_only_ret])
      (simp_all add: same_config_def)
  then show ?thesis using Pin by simp
qed

lemma keeps_reconcile: "keeps_config (reconcile S)"
  unfolding reconcile_split fb_observe_def
  by (intro keeps_bnd keeps_act keeps_modify keeps_kern_only [OF kern_only_gets]
      keeps_kern_only [OF kern_only_kcall] keeps_kern_only [OF kern_only_decide])
    (simp add: same_config_def)

lemma wlp_keeps: "keeps_config m \<Longrightarrow> wlp m (\<lambda>_. same_config s) s"
  by (auto simp: keeps_config_def wlp_def split: option.splits)

text \<open>The invariant of a daemon whose interval fits C's \<open>int\<close> in milliseconds.\<close>

definition fb_loop_inv :: "('k, 'x) fb_sys_scheme \<Rightarrow> 'k fb_state \<Rightarrow> bool" where
  "fb_loop_inv S s \<longleftrightarrow> dump_ok freebsd_abi S \<and> c_mul (fb_interval s) 1000 \<noteq> None \<and> fb_inv s"

lemma fb_env_inv: "fb_env s t \<Longrightarrow> fb_inv s \<Longrightarrow> fb_inv t"
  by (induction rule: fb_env.induct) (auto simp: fb_inv_def handle_sig_def)

lemma fb_env_interval: "fb_env s t \<Longrightarrow> fb_interval t = fb_interval s"
  by (induction rule: fb_env.induct) (auto simp: handle_sig_def)

lemma fb_iter_wlp:
  assumes "\<And>k. Q () (s\<lparr>kern := k\<rparr>)"
    and "\<And>k b. wlp (reconcile S) Q (s\<lparr>kern := k, fb_reload := b\<rparr>)"
  shows "wlp (fb_iter S) Q s"
  unfolding fb_iter_def
  using assms assms(2) [where b = "fb_reload s"]
  by (simp add: wp_simps split: option.split)

lemma fb_iter_wp:
  assumes "c_mul (fb_interval s) 1000 \<noteq> None" and "\<And>k. Q () (s\<lparr>kern := k\<rparr>)"
    and "\<And>k b. wp (reconcile S) Q (s\<lparr>kern := k, fb_reload := b\<rparr>)"
  shows "wp (fb_iter S) Q s"
  unfolding fb_iter_def
  using assms assms(3) [where b = "fb_reload s"]
  by (auto simp: wp_simps)

lemma fb_inv_upd [simp]:
  "fb_inv (s\<lparr>kern := k\<rparr>) = fb_inv s"
  "fb_inv (s\<lparr>fb_reload := b\<rparr>) = fb_inv s"
  by (simp_all add: fb_inv_def)

lemma fb_iter_inv: "fb_inv s \<Longrightarrow> wlp (fb_iter S) (\<lambda>_. fb_inv) s"
  by (intro fb_iter_wlp reconcile_inv) simp_all

lemma fb_iter_loop_inv:
  assumes "fb_loop_inv S s"
  shows "wp (fb_iter S) (\<lambda>_. fb_loop_inv S) s"
proof (rule fb_iter_wp)
  fix k b
  let ?s = "s\<lparr>kern := k, fb_reload := b\<rparr>"
  have "wlp (reconcile S) (\<lambda>_. same_config ?s) ?s"
    by (rule wlp_keeps [OF keeps_reconcile])
  moreover have "wp (reconcile S) (\<lambda>_. fb_inv) ?s"
    using assms by (intro reconcile_safe_inv) (simp_all add: fb_loop_inv_def)
  ultimately show "wp (reconcile S) (\<lambda>_. fb_loop_inv S) ?s"
    using assms by (auto simp: wp_def wlp_def fb_loop_inv_def same_config_def split: option.splits)
qed (use assms in \<open>simp_all add: fb_loop_inv_def\<close>)

lemma fb_stop_loop_inv:
  assumes "fb_loop_inv S s"
  shows "wp (fb_stop S) (\<lambda>_ t. fb_loop_inv S t \<and> \<not> fb_installed t) s"
proof -
  have "keeps_config (fb_stop S)"
    using keeps_act [of S "Cease ''daemon shutdown''"] by (simp add: fb_stop_def)
  then have "wlp (fb_stop S) (\<lambda>_. same_config s) s"
    by (rule wlp_keeps)
  moreover have "wp (fb_stop S) (\<lambda>_ t. fb_inv t \<and> \<not> fb_installed t) s"
    unfolding fb_stop_def using assms by (intro withdraw_inv) (simp add: fb_loop_inv_def)
  ultimately show ?thesis
    using assms by (auto simp: wp_def wlp_def fb_loop_inv_def same_config_def split: option.splits)
qed

interpretation fb_life: daemon_loop fb_running fb_env "fb_iter S" "fb_stop S" fb_inv fb_installed
  for S :: "('k, 'x) fb_sys_scheme"
  by unfold_locales
    (auto intro: fb_iter_inv fb_env_inv withdraw_inv [THEN wp_wlp] simp: fb_stop_def)

interpretation fb_safe_life: safe_daemon_loop fb_running fb_env "fb_iter S" "fb_stop S"
  "fb_loop_inv S" fb_installed
  for S :: "('k, 'x) fb_sys_scheme"
proof
  fix s t :: "'k fb_state"
  assume "fb_loop_inv S s"
  then have iter: "wp (fb_iter S) (\<lambda>_. fb_loop_inv S) s"
    and stop: "wp (fb_stop S) (\<lambda>_ t. fb_loop_inv S t \<and> \<not> fb_installed t) s"
    by (rule fb_iter_loop_inv, rule fb_stop_loop_inv)
  show "wlp (fb_iter S) (\<lambda>_. fb_loop_inv S) s"
    and "wlp (fb_stop S) (\<lambda>_ t. fb_loop_inv S t \<and> \<not> fb_installed t) s"
    using iter stop by (simp_all add: wp_wlp)
  show "fb_iter S s \<noteq> None" and "fb_stop S s \<noteq> None"
    using iter stop by (auto elim: wpE)
  show "fb_loop_inv S t" if "fb_env s t"
    using that \<open>fb_loop_inv S s\<close> by (simp add: fb_loop_inv_def fb_env_inv fb_env_interval)
qed

section \<open>From the start\<close>

text \<open>
  What \<open>main\<close> hands to the loop: no route is claimed that no message asked for, the interval
  is positive, at most one sentinel check is configured, and no signal has come yet.
\<close>

definition fb_ready :: "'k fb_state \<Rightarrow> bool" where
  "fb_ready s \<longleftrightarrow> fb_inv s \<and> 1 \<le> fb_interval s \<and> fb_running s \<and>
     \<not> (fb_require_route s \<and> fb_sentinel_file s \<noteq> None)"

lemma fb_opts_wlp:
  "\<not> fb_installed s \<Longrightarrow> 1 \<le> fb_interval s \<Longrightarrow> fb_running s \<Longrightarrow>
    wlp (fb_opts os) (\<lambda>r t. \<not> fb_installed t \<and> (r = None \<longrightarrow> 1 \<le> fb_interval t \<and> fb_running t)) s"
proof (induction os arbitrary: s rule: fb_opts.induct)
  case (1 s)
  then show ?case by (simp add: wp_simps)
next
  case (2 c os s)
  then show ?case by (simp add: wp_simps)
next
  case (3 c optarg os s)
  then show ?case by (auto simp: wp_simps split: option.split)
next
  case (4 os s)
  then show ?case by (simp add: wp_simps)
qed

lemma reconcile_ready:
  assumes "fb_ready s"
  shows "wlp (reconcile S) (\<lambda>_. fb_ready) s"
proof -
  have "wlp (reconcile S) (\<lambda>_ t. fb_inv t \<and> same_config s t) s"
    using assms by (intro wlp_conj reconcile_inv wlp_keeps keeps_reconcile) (simp add: fb_ready_def)
  then show ?thesis
    using assms by (auto simp: fb_ready_def same_config_def elim!: wlp_mono)
qed

lemma fb_main_wlp:
  fixes S :: "('k, 'x) fb_sys_scheme"
  shows "wlp (fb_main S args) (\<lambda>r t. if r = None then fb_ready t else \<not> fb_installed t) (fb_init k fs)"
proof -
  obtain os operands where go:
    "getopt [(CHR ''r'', False), (CHR ''f'', True), (CHR ''i'', True)] args = (os, operands)"
    by fastforce
  define Q :: "int option \<Rightarrow> 'k fb_state \<Rightarrow> bool" where
    "Q r = (if r = None then fb_ready else (\<lambda>t. \<not> fb_installed t))" for r
  have Q: "Q None = fb_ready" "Q (Some c) t \<longleftrightarrow> \<not> fb_installed t" for c t
    by (simp_all add: Q_def)
  have ret: "wlp (ret None) Q = fb_ready"
    by (rule ext) (simp add: wlp_ret Q)
  define body where "body s =
    (if length operands \<noteq> 1 \<or> fb_require_route s \<and> fb_sentinel_file s \<noteq> None then ret (Some (1 :: int))
      else
        bnd (modify (\<lambda>s. s\<lparr>fb_ifname := hd operands\<rparr>)) (\<lambda>_.
        bnd (kcall (sys_if_nametoindex S (hd operands))) (\<lambda>ifindex.
        bnd (modify (\<lambda>s. s\<lparr>fb_ifindex := ifindex\<rparr>)) (\<lambda>_.
        if ifindex = 0 then ret (Some 1)
        else
          bnd (kernel_supports_rfc5549 S) (\<lambda>supported.
          if \<not> supported then ret (Some 1)
          else
            bnd (kcall (sys_socket S)) (\<lambda>fd.
            bnd (modify (\<lambda>s. s\<lparr>fb_rtsock := fd\<rparr>)) (\<lambda>_.
            if fd < 0 then ret (Some 1)
            else bnd (reconcile S) (\<lambda>_. ret None))))))))" for s :: "'k fb_state"
  have ready: "wlp (reconcile S) (\<lambda>_. fb_ready) t"
    if "\<not> fb_installed t" "1 \<le> fb_interval t" "fb_running t" "fb_require_route t \<longrightarrow> fb_sentinel_file t = None" for t
    using that by (intro reconcile_ready) (simp add: fb_ready_def fb_inv_def)
  have "wlp (body t) Q t" if "\<not> fb_installed t" "1 \<le> fb_interval t" "fb_running t" for t
    unfolding body_def kernel_supports_rfc5549_def
    using that by (auto simp: wp_simps Q ret intro!: ready)
  moreover have "wlp (fb_opts os)
      (\<lambda>r t. \<not> fb_installed t \<and> (r = None \<longrightarrow> 1 \<le> fb_interval t \<and> fb_running t)) (fb_init k fs)"
    by (rule fb_opts_wlp) (simp_all add: fb_init_def)
  ultimately have "wlp (bnd (fb_opts os) (\<lambda>ex. case ex of
      Some c \<Rightarrow> ret (Some c) | None \<Rightarrow> bnd (gets id) body)) Q (fb_init k fs)"
    unfolding wlp_bnd by (auto simp: wp_simps Q split: option.split elim!: wlp_mono)
  moreover have "fb_main S args = bnd (fb_opts os) (\<lambda>ex. case ex of
      Some c \<Rightarrow> ret (Some c) | None \<Rightarrow> bnd (gets id) body)"
    unfolding fb_main_def go body_def [abs_def] Let_def prod.case by (rule refl)
  moreover have "(\<lambda>r t. if r = None then fb_ready t else \<not> fb_installed t) = Q"
    by (simp add: Q_def fun_eq_iff)
  ultimately show ?thesis by simp
qed

section \<open>A pass over a world that stands still\<close>

record fb_view =
  v_ifindex :: u32
  v_file_ok :: bool
  v_routers :: "drouter list"
  v_routes4 :: "rt_msg list"
  v_routes6 :: "rt_msg list"

definition fb_sees :: "('k, 'x) fb_sys_scheme \<Rightarrow> 'k fb_state \<Rightarrow> fb_view \<Rightarrow> bool" where
  "fb_sees S s v \<longleftrightarrow>
     fst (sys_if_nametoindex S (fb_ifname s) (kern s)) = v_ifindex v \<and>
     (\<forall>f. fb_sentinel_file s = Some f \<longrightarrow> v_file_ok v =
        (\<exists>c. files s f = Some c \<and> fst (sys_fopen_r S f (kern s)) \<and> take 10 c = ''192.0.0.11'')) \<and>
     holds_table (fetched S Nd6_drlist (kern s)) (enc_drlist (v_routers v)) \<and>
     holds_table (fetched S (Rt_dump AF_INET) (kern s)) (enc_msgs (v_routes4 v)) \<and>
     holds_table (fetched S (Rt_dump (af_inet6 freebsd_abi)) (kern s)) (enc_msgs (v_routes6 v)) \<and>
     (\<forall>d \<in> set (v_routers v). wf_drouter d) \<and>
     (\<forall>m \<in> set (v_routes4 v). wf_msg freebsd_abi m) \<and>
     (\<forall>m \<in> set (v_routes6 v). wf_msg freebsd_abi m)"

text \<open>What the daemon should decide, from the tables.\<close>

definition fb_spec :: "bool \<Rightarrow> bool \<Rightarrow> fb_view \<Rightarrow> fb_decision" where
  "fb_spec from_file require v =
     (if v_ifindex v = 0 then Gone
      else if from_file \<and> \<not> v_file_ok v then
        Cease ''sentinel state cleared; ceasing per draft s4''
      else if require \<and> \<not> (\<exists>m \<in> set (v_routes4 v). fb_is_sentinel m) then
        Cease ''sentinel 192.0.0.11 route removed; ceasing per draft s4''
      else case best_router (v_ifindex v) (v_routers v) of
        Some gw \<Rightarrow> Pin gw ''ND default router list''
      | None \<Rightarrow>
        (case first_some (fb_static_gateway (v_ifindex v)) (v_routes6 v) of
           Some gw \<Rightarrow> Pin gw ''static IPv6 default route''
         | None \<Rightarrow> Cease ''no IPv6 next hop (ND list empty, no static default)''))"

lemma sentinel_file_wp:
  "wp (sentinel_in_file S f) (\<lambda>ok _. ok \<longleftrightarrow> (\<exists>c. files s f = Some c \<and>
    fst (sys_fopen_r S f (kern s)) \<and> take 10 c = ''192.0.0.11'')) s"
  by (auto simp: sentinel_in_file_def read_line_def wp_simps sentinel_line fgets_def
      split: option.splits)

lemma file_quiet:
  assumes "quiet_reads S"
  shows "sentinel_in_file S f s = Some (\<exists>c. files s f = Some c \<and>
    fst (sys_fopen_r S f (kern s)) \<and> take 10 c = ''192.0.0.11'', s)"
proof -
  have "wp (sentinel_in_file S f) (\<lambda>_ t. t = s) s"
    using kcall_quiet [OF quiet_readsD(5) [OF assms, of f], of s]
    by (auto simp: sentinel_in_file_def read_line_def wp_def bnd_def run_simps split: option.split)
  then show ?thesis
    using sentinel_file_wp [of S f s] by (auto simp: wp_def split: option.splits)
qed

lemma sentinel_fib_fetched:
  assumes "sysctl_fetch S (Rt_dump AF_INET) s = Some (r, t)" and "holds_table r (enc_msgs ms)"
    and "\<forall>m \<in> set ms. wf_msg freebsd_abi m"
  shows "sentinel_in_fib S s = Some (\<exists>m \<in> set ms. fb_is_sentinel m, t)"
proof -
  have "first_some (\<lambda>m. if fb_is_sentinel m then Some () else None) ms \<noteq> None \<longleftrightarrow>
      (\<exists>m \<in> set ms. fb_is_sentinel m)"
    by (simp add: first_some_None)
  then show ?thesis
    unfolding sentinel_in_fib_def
    by (subst fb_sent.scan_fetched [OF assms]) (simp_all add: run_simps)
qed

lemma static_fetched:
  assumes "sysctl_fetch S (Rt_dump (af_inet6 freebsd_abi)) s = Some (r, t)"
    and "holds_table r (enc_msgs ms)" and "\<forall>m \<in> set ms. wf_msg freebsd_abi m"
  shows "static_default_router S i s = Some (first_some (fb_static_gateway i) ms, t)"
proof -
  have "static_default_router S i s = bnd (sysctl_fetch S (Rt_dump (af_inet6 freebsd_abi))) (\<lambda>buf.
      case buf of None \<Rightarrow> ret None | Some b \<Rightarrow> bnd (of_opt (rtm_scan (fb_static_body i) b 0)) ret) s"
    unfolding static_default_router_def bnd_ret by (rule refl)
  then show ?thesis
    by (simp add: fb_static.scan_fetched [OF assms] run_simps)
qed

lemma select_quiet:
  assumes "quiet_reads S" and "holds_table (fetched S Nd6_drlist (kern s)) (enc_drlist ds)"
    and "\<forall>d \<in> set ds. wf_drouter d"
  shows "select_router S i s = Some (best_router i ds, s)"
proof -
  have "best_router i ds = None" if "enc_drlist ds = []"
  proof -
    have "ds = []"
      using that by (cases ds) (auto simp: enc_drlist_def enc_drouter_def)
    then show ?thesis by (simp add: best_router_def candidates_def)
  qed
  then show ?thesis
    using assms(2) select_router_buf_enc [OF assms(3), of i]
    by (auto simp: select_router_def bnd_run [OF fetch_quiet [OF assms(1)]]
        holds_table_def run_simps)
qed

lemma decide_spec:
  assumes q: "quiet_reads S" and sees: "fb_sees S s v"
  shows "fb_decide S (v_ifindex v) s
    = Some (fb_spec (fb_sentinel_file s \<noteq> None) (fb_require_route s) v, s)"
proof -
  have select: "select_router S (v_ifindex v) s = Some (best_router (v_ifindex v) (v_routers v), s)"
    using sees by (intro select_quiet [OF q]) (simp_all add: fb_sees_def)
  have static: "static_default_router S (v_ifindex v) s
      = Some (first_some (fb_static_gateway (v_ifindex v)) (v_routes6 v), s)"
    using sees by (intro static_fetched [OF fetch_quiet [OF q]]) (simp_all add: fb_sees_def)
  have fib: "sentinel_in_fib S s = Some (\<exists>m \<in> set (v_routes4 v). fb_is_sentinel m, s)"
    using sees by (intro sentinel_fib_fetched [OF fetch_quiet [OF q]]) (simp_all add: fb_sees_def)
  have state_file: "sentinel_in_file S f s = Some (v_file_ok v, s)" if "fb_sentinel_file s = Some f" for f
    using sees that by (simp add: file_quiet [OF q] fb_sees_def)
  show ?thesis
    by (cases "fb_sentinel_file s"; cases "fb_require_route s")
      (simp_all add: fb_decide_def fb_spec_def bnd_def run_simps select static fib state_file
        split: option.split)
qed

lemma fb_sees_ifindex [simp]: "fb_sees S (s\<lparr>fb_ifindex := i\<rparr>) v = fb_sees S s v"
  by (simp add: fb_sees_def)

lemma reconcile_spec:
  assumes q: "quiet_reads S" and sees: "fb_sees S s v"
  shows "reconcile S s = fb_act S (fb_spec (fb_sentinel_file s \<noteq> None) (fb_require_route s) v)
    (s\<lparr>fb_ifindex := v_ifindex v\<rparr>)"
proof -
  have idx: "fst (sys_if_nametoindex S (fb_ifname s) (kern s)) = v_ifindex v"
    using sees by (simp add: fb_sees_def)
  have "fb_sees S (s\<lparr>fb_ifindex := v_ifindex v\<rparr>) v"
    using sees by simp
  then show ?thesis
    using decide_spec [OF q, of "s\<lparr>fb_ifindex := v_ifindex v\<rparr>" v]
    by (simp add: reconcile_split fb_observe_def bnd_def run_simps
        kcall_quiet [OF quiet_readsD(1) [OF q]] idx)
qed

end
