(* ===== verification/Freebsd_Fib.thy ===== *)
theory Freebsd_Fib
  imports Freebsd_Daemon
begin

text \<open>
  The FreeBSD daemon against a kernel that treats route messages as the routing socket
  documents: what the IPv4 routes are after a pass. \<open>rib\<close> reads the routes of a world, by their
  prefix. The hypothesis \<open>rtsock_law\<close> is the documented answer to \<open>RTM_ADD\<close>, \<open>RTM_CHANGE\<close> and
  \<open>RTM_DELETE\<close>, for the prefix that the message carries. \<open>demo_sys\<close> is a small world that
  satisfies every hypothesis of this development about FreeBSD, for the witnesses.
\<close>

datatype ipv4_route = No_route | Via4 in_addr | Via6 in6_addr

section \<open>The routing socket\<close>

definition rtsock_law :: "('k, 'x) fb_sys_scheme \<Rightarrow> ('k \<Rightarrow> in_prefix \<Rightarrow> ipv4_route) \<Rightarrow> bool" where
  "rtsock_law S rib \<longleftrightarrow> (\<forall>bs type p g k r k'. sent_route bs = Some (type, p, g) \<longrightarrow> sys_write S bs k = (r, k') \<longrightarrow>
     (type = RTM_ADD \<longrightarrow>
       (if rib k p = No_route then (\<exists>n. r = Inr n) \<and> rib k' = (rib k)(p := Via6 g)
        else r \<in> {Inl 17, Inl 22} \<and> rib k' = rib k)) \<and>
     (type = RTM_CHANGE \<longrightarrow>
       (if rib k p = No_route then r = Inl 3 \<and> rib k' = rib k
        else (\<exists>n. r = Inr n) \<and> rib k' = (rib k)(p := Via6 g))) \<and>
     (type = RTM_DELETE \<longrightarrow>
       (if rib k p = Via6 g then (\<exists>n. r = Inr n) \<and> rib k' = (rib k)(p := No_route)
        else r = Inl 3 \<and> rib k' = rib k)))"

text \<open>The answer to each kind of message of the daemon, as a fact about \<open>route_msg\<close>.\<close>

definition answer ::
    "(in_prefix \<Rightarrow> ipv4_route) \<Rightarrow> byte \<Rightarrow> in6_addr \<Rightarrow> int \<Rightarrow> (in_prefix \<Rightarrow> ipv4_route) \<Rightarrow> bool" where
  "answer f type g r f' \<longleftrightarrow>
     (if type = RTM_ADD then
        (if f in_default = No_route then r = 0 \<and> f' = f(in_default := Via6 g)
         else r \<in> {- EEXIST, - EINVAL} \<and> f' = f)
      else if type = RTM_CHANGE then
        (if f in_default = No_route then r = - ESRCH \<and> f' = f else r = 0 \<and> f' = f(in_default := Via6 g))
      else
        (if f in_default = Via6 g then r = 0 \<and> f' = f(in_default := No_route) else r = - ESRCH \<and> f' = f))"

lemma route_msg_answer:
  assumes law: "rtsock_law S rib" and gw: "length gw = 16"
    and type: "type \<in> {RTM_ADD, RTM_CHANGE, RTM_DELETE}"
    and post: "\<And>r k. answer (rib (kern s)) type (embed_scope (fb_ifindex s) gw) r (rib k) \<Longrightarrow>
      Q r (sent S type gw r k s)"
  shows "wp (route_msg S type gw) Q s"
proof -
  let ?bs = "enc_msg (route_rt_msg (fb_ifindex s) (sys_getpid S) (fb_rtseq s) type gw)"
  obtain w k where w: "sys_write S ?bs (kern s) = (w, k)" by fastforce
  have "answer (rib (kern s)) type (embed_scope (fb_ifindex s) gw)
      (case w of Inl e \<Rightarrow> - int e | Inr n \<Rightarrow> 0) (rib k)"
    using law [unfolded rtsock_law_def, rule_format, OF sent_route_route [OF gw] w] type
    by (auto simp: answer_def rtm_type_defs EEXIST_def EINVAL_def ESRCH_def
        split: sum.splits if_splits)
  then show ?thesis
    using post by (simp add: wp_route_msg [OF gw] w sent_def)
qed

section \<open>The routes after an operation\<close>

text \<open>
  The daemon's memory agrees with the kernel when its flag implies that the default route is
  the one it installed.
\<close>

definition own_route :: "'k fb_state \<Rightarrow> ipv4_route" where
  "own_route s = Via6 (embed_scope (fb_ifindex s) (fb_gw s))"

definition in_step :: "('k \<Rightarrow> in_prefix \<Rightarrow> ipv4_route) \<Rightarrow> 'k fb_state \<Rightarrow> bool" where
  "in_step rib s \<longleftrightarrow> (fb_installed s \<longrightarrow> rib (kern s) in_default = own_route s \<and> length (fb_gw s) = 16)"

lemma install_fib:
  assumes law: "rtsock_law S rib" and gw: "length gw = 16" and sync: "in_step rib s"
  shows "wp (install S gw src) (\<lambda>_ t.
    rib (kern t) = (rib (kern s))(in_default := Via6 (embed_scope (fb_ifindex s) gw)) \<and>
    fb_installed t \<and> fb_gw t = gw \<and> fb_ifindex t = fb_ifindex s) s"
proof (cases "fb_installed s \<and> fb_gw s = gw")
  case True
  then show ?thesis using sync by (simp add: install_def wp_simps in_step_def own_route_def fun_upd_idem)
next
  case False
  show ?thesis
  proof (cases "fb_installed s")
    case True
    then have "rib (kern s) in_default \<noteq> No_route" using sync by (simp add: in_step_def own_route_def)
    then show ?thesis
      unfolding install_def wp_bnd wp_gets id_apply
      using False True
      by (auto simp: wp_ret wp_bnd wp_emit wp_modify answer_def rtm_type_defs sent_def
          intro!: route_msg_answer [OF law gw])
  next
    case not_installed: False
    show ?thesis
      unfolding install_def wp_bnd wp_gets id_apply
      using not_installed
      by (auto simp: wp_if wp_ret wp_bnd wp_emit wp_modify answer_def rtm_type_defs sent_def
          EEXIST_def EINVAL_def ESRCH_def intro!: route_msg_answer [OF law gw] split: if_splits)
  qed
qed

text \<open>A withdrawal takes away the route that the daemon remembers, when it is there, and no other.\<close>

lemma withdraw_exact:
  assumes law: "rtsock_law S rib" and gw: "fb_installed s \<longrightarrow> length (fb_gw s) = 16"
  shows "wp (withdraw S reason) (\<lambda>_ t. \<not> fb_installed t \<and> fb_ifindex t = fb_ifindex s \<and>
    rib (kern t) = (if fb_installed s \<and> rib (kern s) in_default = own_route s
      then (rib (kern s))(in_default := No_route) else rib (kern s))) s"
proof (cases "fb_installed s")
  case True
  then have "length (fb_gw s) = 16" using gw by simp
  then show ?thesis
    unfolding withdraw_def wp_bnd wp_gets id_apply
    using True
    by (auto simp: wp_if wp_bnd wp_emit wp_modify answer_def rtm_type_defs sent_def own_route_def
        intro!: route_msg_answer [OF law] split: if_splits)
next
  case False
  then show ?thesis by (simp add: withdraw_def wp_simps)
qed

lemma withdraw_fib:
  assumes law: "rtsock_law S rib" and sync: "in_step rib s"
  shows "wp (withdraw S reason) (\<lambda>_ t. \<not> fb_installed t \<and> fb_ifindex t = fb_ifindex s \<and>
    rib (kern t) = (if fb_installed s then (rib (kern s))(in_default := No_route) else rib (kern s))) s"
  using sync by (intro wp_mono [OF withdraw_exact [OF law]]) (auto simp: in_step_def)

lemma install_takeover:
  assumes law: "rtsock_law S rib" and gw: "length gw = 16" and "\<not> fb_installed s"
    and "rib (kern s) in_default \<noteq> No_route"
  shows "wp (install S gw src) (\<lambda>_ t.
    rib (kern t) = (rib (kern s))(in_default := Via6 (embed_scope (fb_ifindex s) gw)) \<and>
    fb_installed t \<and> fb_gw t = gw \<and>
    (\<exists>e \<in> {EEXIST, EINVAL}. out t = out s @
      [Ev_route_msg (enc_msg (route_rt_msg (fb_ifindex s) (sys_getpid S) (fb_rtseq s) RTM_ADD gw)) (- e),
       Ev_route_msg (enc_msg (route_rt_msg (fb_ifindex s) (sys_getpid S) (fb_rtseq s + 1) RTM_CHANGE gw)) 0,
       Log_installed gw src])) s"
  unfolding install_def wp_bnd wp_gets id_apply
  using assms(3,4)
  by (auto simp: wp_if wp_ret wp_bnd wp_emit wp_modify answer_def rtm_type_defs sent_def
      EEXIST_def EINVAL_def intro!: route_msg_answer [OF law gw])

text \<open>
  The flag is not checked against the kernel: once the default route has been removed by
  something else, no \<open>install\<close> brings it back.
\<close>

lemma install_after_flush:
  assumes law: "rtsock_law S rib" and gw: "length gw = 16"
    and "fb_installed s" and "rib (kern s) in_default = No_route"
  shows "wp (install S gw src) (\<lambda>_ t. rib (kern t) = rib (kern s) \<and> fb_installed t) s"
proof (cases "fb_gw s = gw")
  case True
  then show ?thesis using assms by (simp add: install_def wp_simps)
next
  case False
  then show ?thesis
    unfolding install_def wp_bnd wp_gets id_apply
    using assms(3,4)
    by (auto simp: wp_if wp_ret wp_bnd wp_emit wp_modify answer_def rtm_type_defs sent_def
        ESRCH_def intro!: route_msg_answer [OF law gw])
qed

section \<open>The default route after a pass\<close>

definition fib_after :: "fb_view \<Rightarrow> fb_decision \<Rightarrow> bool \<Rightarrow> ipv4_route \<Rightarrow> ipv4_route" where
  "fib_after v = entry_after (\<lambda>gw. Via6 (embed_scope (v_ifindex v) gw)) No_route"

interpretation fb_keeper: entry_keeper "modify (\<lambda>s. s\<lparr>fb_installed := False\<rparr>)" "withdraw S" "install S"
  "\<lambda>s. rib (kern s) in_default" fb_installed "\<lambda>s. rtsock_law S rib \<and> in_step rib s" "\<lambda>gw src. length gw = 16"
  "\<lambda>s gw. Via6 (embed_scope (fb_ifindex s) gw)" No_route
  for S :: "('k, 'x) fb_sys_scheme" and rib
proof
  fix s :: "'k fb_state" and reason gw src
  assume ok: "rtsock_law S rib \<and> in_step rib s"
  show "wp (modify (\<lambda>s. s\<lparr>fb_installed := False\<rparr>))
      (\<lambda>_ t. rib (kern t) in_default = rib (kern s) in_default \<and> \<not> fb_installed t) s"
    by (simp add: wp_simps)
  show "wp (withdraw S reason)
      (\<lambda>_ t. rib (kern t) in_default = (if fb_installed s then No_route else rib (kern s) in_default) \<and> \<not> fb_installed t) s"
    using ok by (intro wp_mono [OF withdraw_fib [where rib = rib]]) simp_all
  show "wp (install S gw src)
      (\<lambda>_ t. rib (kern t) in_default = Via6 (embed_scope (fb_ifindex s) gw) \<and> fb_installed t) s" if "length gw = 16"
    using ok that by (intro wp_mono [OF install_fib [where rib = rib]]) simp_all
qed

lemma fb_spec_gateway:
  assumes "\<forall>d \<in> set (v_routers v). wf_drouter d" and "\<forall>m \<in> set (v_routes6 v). wf_msg freebsd_abi m"
    and "fb_spec f r v = Pin gw src"
  shows "length gw = 16"
proof -
  consider "best_router (v_ifindex v) (v_routers v) = Some gw"
    | "first_some (fb_static_gateway (v_ifindex v)) (v_routes6 v) = Some gw"
    using assms(3) by (auto simp: fb_spec_def split: if_splits option.splits)
  then show ?thesis
  proof cases
    case 1
    then obtain d where "d \<in> set (candidates (v_ifindex v) (v_routers v))" and "d_addr d = gw"
      using best_router_Some [OF assms(1)] by metis
    then show ?thesis using assms(1) by (auto simp: candidates_def wf_drouter_def)
  next
    case 2
    then obtain m where m: "m \<in> set (v_routes6 v)" "fb_static_gateway (v_ifindex v) m = Some gw"
      using first_some_Some by metis
    then obtain g where g: "rm_slots m ! 1 = Some g" "sa_fam g = af_inet6 freebsd_abi"
      "gw = strip_scope (sa_in6 g)"
      by (auto simp: fb_static_gateway_def slot_index split: option.splits if_splits)
    have "length (rm_slots m) = RTAX_MAX"
      using m(1) assms(2) by (auto simp: wf_msg_def)
    then have "Some g \<in> set (rm_slots m)"
      using g(1) nth_mem [of 1 "rm_slots m"] by (simp add: RTAX_MAX_def)
    then have "wf_sa freebsd_abi g"
      using m(1) assms(2) by (auto simp: wf_msg_def)
    then show ?thesis
      using g by (auto simp: wf_sa_def sa_fam_def sa_in6_def)
  qed
qed

text \<open>No route but the default changes.\<close>

lemma act_others:
  assumes law: "rtsock_law S rib" and sync: "in_step rib s"
    and fit: "fit_decision (\<lambda>gw src. length gw = 16) d" and p: "p \<noteq> in_default"
  shows "wp (fb_act S d) (\<lambda>_ t. rib (kern t) p = rib (kern s) p) s"
proof (cases d)
  case Gone
  then show ?thesis by (simp add: wp_simps)
next
  case (Cease reason)
  then show ?thesis using p by (auto intro: wp_mono [OF withdraw_fib [OF law sync]])
next
  case (Pin gw src)
  then show ?thesis using p fit by (auto intro: wp_mono [OF install_fib [OF law _ sync]])
qed

lemma reconcile_fib:
  assumes q: "quiet_reads S" and law: "rtsock_law S rib" and sees: "fb_sees S s v"
    and sync: "in_step rib (s\<lparr>fb_ifindex := v_ifindex v\<rparr>)"
  shows "wp (reconcile S) (\<lambda>_ t. rib (kern t) = (rib (kern s))(in_default :=
    fib_after v (fb_spec (fb_sentinel_file s \<noteq> None) (fb_require_route s) v) (fb_installed s)
      (rib (kern s) in_default))) s"
proof -
  let ?d = "fb_spec (fb_sentinel_file s \<noteq> None) (fb_require_route s) v"
  let ?s = "s\<lparr>fb_ifindex := v_ifindex v\<rparr>"
  have fit: "fit_decision (\<lambda>gw src. length gw = 16) ?d"
    using sees fb_spec_gateway by (fastforce simp: fb_sees_def fit_decision_def)
  then have set: "wp (fb_act S ?d) (\<lambda>_ t. rib (kern t) in_default =
      fib_after v ?d (fb_installed s) (rib (kern s) in_default)) ?s"
    using law sync unfolding fb_act_def fib_after_def
    by (intro wp_mono [OF fb_keeper.carry_sets [where rib = rib]]) simp_all
  obtain x t where t: "fb_act S ?d ?s = Some (x, t)"
    and new: "rib (kern t) in_default = fib_after v ?d (fb_installed s) (rib (kern s) in_default)"
    using set by (elim wpE) blast
  have "rib (kern t) p = rib (kern s) p" if "p \<noteq> in_default" for p
    using wlpD [OF wp_wlp [OF act_others [OF law sync fit that]] t] by simp
  then have "rib (kern t) = (rib (kern s))(in_default :=
      fib_after v ?d (fb_installed s) (rib (kern s) in_default))"
    using new by auto
  then show ?thesis
    using t by (simp add: wp_def reconcile_spec [OF q sees])
qed

lemma act_ifindex: "wlp (fb_act S d) (\<lambda>_ t. fb_ifindex t = fb_ifindex s) s"
proof -
  have msg: "wlp (route_msg S type gw) Q s" if "\<And>r u. fb_ifindex u = fb_ifindex s \<Longrightarrow> Q r u" for Q type gw s
    using that by (auto simp: route_msg_def wp_simps Let_def split: option.split)
  show ?thesis
    by (cases d) (auto simp: withdraw_def install_def wp_simps intro!: msg)
qed

text \<open>
  Once an action has been carried out, carrying it out again changes nothing: an installed
  gateway is recognised by the daemon's memory alone.
\<close>

interpretation fb_steady: steady_keeper "modify (\<lambda>s. s\<lparr>fb_installed := False\<rparr>)" "withdraw S" "install S"
  "\<lambda>s. rib (kern s) in_default" fb_installed "\<lambda>s. rtsock_law S rib \<and> in_step rib s" "\<lambda>gw src. length gw = 16"
  "\<lambda>s gw. Via6 (embed_scope (fb_ifindex s) gw)" No_route "\<lambda>_. True"
  "\<lambda>d s t. same_config s t \<and> fb_ifindex t = fb_ifindex s"
  for S :: "('k, 'x) fb_sys_scheme" and rib
proof
  fix s t :: "'k fb_state" and d reason gw src
  show "wlp (carry_out (modify (\<lambda>s. s\<lparr>fb_installed := False\<rparr>)) (withdraw S) (install S) d)
      (\<lambda>_ t. same_config s t \<and> fb_ifindex t = fb_ifindex s) s"
    using wlp_conj [OF wlp_keeps [OF keeps_act] act_ifindex] by (simp add: fb_act_def)
  show "modify (\<lambda>s. s\<lparr>fb_installed := False\<rparr>) t = Some ((), t)" if "\<not> fb_installed t"
    using that by (simp add: run_simps)
  show "withdraw S reason t = Some ((), t)" if "\<not> fb_installed t"
    using that by (simp add: withdraw_def bnd_def run_simps)
  have "install S gw src t = Some ((), t)" if "fb_installed t" "fb_gw t = gw" for t
    using that by (simp add: install_def bnd_def run_simps)
  then show "wp (install S gw src) (\<lambda>_ t. True \<longrightarrow> install S gw src t = Some ((), t)) s"
    if "rtsock_law S rib \<and> in_step rib s" and "length gw = 16"
    using that by (intro wp_mono [OF install_fib [where rib = rib]]) simp_all
qed

lemma ifindex_same: "fb_ifindex t = i \<Longrightarrow> t\<lparr>fb_ifindex := i\<rparr> = t"
  by auto

text \<open>
  What a second pass may see: the same interface, state file, IPv6 routers and IPv6 routes. The
  IPv4 routes may differ, as they do when the first pass has changed the default, but under \<open>-r\<close>
  the sentinel route must still be there if it was.
\<close>

definition same_grounds :: "bool \<Rightarrow> fb_view \<Rightarrow> fb_view \<Rightarrow> bool" where
  "same_grounds require v w \<longleftrightarrow> v_ifindex w = v_ifindex v \<and> v_file_ok w = v_file_ok v \<and>
     v_routers w = v_routers v \<and> v_routes6 w = v_routes6 v \<and>
     (require \<longrightarrow> (\<exists>m \<in> set (v_routes4 w). fb_is_sentinel m) = (\<exists>m \<in> set (v_routes4 v). fb_is_sentinel m))"

lemma fb_spec_grounds: "same_grounds require v w \<Longrightarrow> fb_spec from_file require w = fb_spec from_file require v"
  by (cases require) (simp_all add: fb_spec_def same_grounds_def cong: option.case_cong)

lemma reconcile_again:
  assumes q: "quiet_reads S" and law: "rtsock_law S rib" and sees: "fb_sees S s v"
    and sync: "in_step rib (s\<lparr>fb_ifindex := v_ifindex v\<rparr>)"
  shows "wp (reconcile S) (\<lambda>_ t. \<forall>w. fb_sees S t w \<and> same_grounds (fb_require_route s) v w \<longrightarrow>
    reconcile S t = Some ((), t)) s"
proof -
  let ?d = "fb_spec (fb_sentinel_file s \<noteq> None) (fb_require_route s) v"
  let ?s = "s\<lparr>fb_ifindex := v_ifindex v\<rparr>"
  have "fit_decision (\<lambda>gw src. length gw = 16) ?d"
    using sees fb_spec_gateway by (fastforce simp: fb_sees_def fit_decision_def)
  then have "wp (fb_act S ?d) (\<lambda>_ t. same_config ?s t \<and> fb_ifindex t = fb_ifindex ?s \<and>
      fb_act S ?d t = Some ((), t)) ?s"
    using law sync unfolding fb_act_def
    by (intro wp_mono [OF fb_steady.carry_again [where rib = rib]]) simp_all
  then have "wp (fb_act S ?d) (\<lambda>_ t. \<forall>w. fb_sees S t w \<and> same_grounds (fb_require_route s) v w \<longrightarrow>
      reconcile S t = Some ((), t)) ?s"
  proof (rule wp_mono, intro allI impI, elim conjE)
    fix t w
    assume same: "same_config ?s t" and i: "fb_ifindex t = fb_ifindex ?s" and idle: "fb_act S ?d t = Some ((), t)"
      and sees_t: "fb_sees S t w" and grounds: "same_grounds (fb_require_route s) v w"
    have "fb_spec (fb_sentinel_file t \<noteq> None) (fb_require_route t) w = ?d"
      using same fb_spec_grounds [OF grounds] by (simp add: same_config_def)
    moreover have "v_ifindex w = fb_ifindex t" using i grounds by (simp add: same_grounds_def)
    ultimately show "reconcile S t = Some ((), t)"
      using idle by (simp add: reconcile_spec [OF q sees_t])
  qed
  then show ?thesis
    by (simp add: wp_def reconcile_spec [OF q sees])
qed

section \<open>A small world\<close>

text \<open>
  Its state is the IPv4 routes; it takes the default router list and both dumps as arguments, that
  of IPv4 as a function of the routes.
\<close>

type_synonym demo_rib = "in_prefix \<Rightarrow> ipv4_route"

definition demo_rib :: "ipv4_route \<Rightarrow> demo_rib" where
  "demo_rib r = (\<lambda>p. if p = in_default then r else No_route)"

lemma demo_rib_default [simp]: "demo_rib r in_default = r"
  by (simp add: demo_rib_def)

lemma demo_rib_upd [simp]: "(demo_rib r)(in_default := r') = demo_rib r'"
  by (auto simp: demo_rib_def)

definition demo_write :: "byte list \<Rightarrow> demo_rib \<Rightarrow> (nat + nat) \<times> demo_rib" where
  "demo_write bs f =
     (case sent_route bs of
        None \<Rightarrow> (Inl 22, f)
      | Some (type, p, g) \<Rightarrow>
          if type = RTM_ADD then
            (if f p = No_route then (Inr (length bs), f(p := Via6 g))
             else (Inl (case f p of Via4 _ \<Rightarrow> 22 | _ \<Rightarrow> 17), f))
          else if type = RTM_CHANGE then
            (if f p = No_route then (Inl 3, f) else (Inr (length bs), f(p := Via6 g)))
          else if type = RTM_DELETE then
            (if f p = Via6 g then (Inr (length bs), f(p := No_route)) else (Inl 3, f))
          else (Inl 22, f))"

definition demo_gen :: "drouter list \<Rightarrow> (demo_rib \<Rightarrow> rt_msg list) \<Rightarrow> rt_msg list \<Rightarrow> demo_rib fb_sys" where
  "demo_gen ds m4 m6 =
     (let tbl = (\<lambda>m k. case m of Nd6_drlist \<Rightarrow> enc_drlist ds
                   | Rt_dump a \<Rightarrow> (if a = AF_INET then enc_msgs (m4 k) else enc_msgs m6)
                   | Rt_flags a f \<Rightarrow> []) in
      \<lparr>sys_if_nametoindex = (\<lambda>n k. (if n = ''em0'' then 1 else 0, k)),
       sys_sysctl_len = (\<lambda>m k. (Some (length (tbl m k)), k)),
       sys_malloc = (\<lambda>n k. (True, k)),
       sys_sysctl = (\<lambda>m n k. (Some (tbl m k), k)),
       sys_fopen_r = (\<lambda>p k. (True, k)),
       sys_socket = (\<lambda>k. (3, k)),
       sys_poll = (\<lambda>t k. (0, k)),
       sys_read = (\<lambda>n k. (None, k)),
       sys_getpid = 4242,
       sys_write = demo_write,
       sys_sysctlbyname = (\<lambda>n k. (Some 1, k))\<rparr>)"

abbreviation demo_sys :: "drouter list \<Rightarrow> rt_msg list \<Rightarrow> rt_msg list \<Rightarrow> demo_rib fb_sys" where
  "demo_sys ds m4 m6 \<equiv> demo_gen ds (\<lambda>_. m4) m6"

lemma demo_law: "rtsock_law (demo_gen ds m4 m6) id"
  by (auto simp: rtsock_law_def demo_gen_def demo_write_def Let_def rtm_type_defs
      split: if_splits ipv4_route.splits)

lemma demo_quiet: "quiet_reads (demo_gen ds m4 m6)"
  by (simp add: quiet_reads_def quiet_def demo_gen_def Let_def)

lemma demo_fetched:
  "holds_table (fetched (demo_gen ds m4 m6) Nd6_drlist k) (enc_drlist ds)"
  "holds_table (fetched (demo_gen ds m4 m6) (Rt_dump AF_INET) k) (enc_msgs (m4 k))"
  "holds_table (fetched (demo_gen ds m4 m6) (Rt_dump (af_inet6 freebsd_abi)) k) (enc_msgs m6)"
  by (auto simp: demo_gen_def Let_def fetched_def holds_table_def freebsd_abi_def AF_INET_def)

lemma demo_dump_ok:
  assumes "\<forall>m \<in> set m4 \<union> set m6. wf_msg freebsd_abi m"
  shows "dump_ok freebsd_abi (demo_sys ds m4 m6)"
proof -
  have "wf_dump freebsd_abi (enc_msgs m4)" and "wf_dump freebsd_abi (enc_msgs m6)"
    and "wf_dump freebsd_abi []"
    using assms by (auto simp: wf_dump_def intro: exI [of _ "[]"] simp: enc_msgs_def)
  then show ?thesis
    by (auto simp: dump_ok_def demo_gen_def Let_def split: mib.splits)
qed

lemma demo_sees:
  assumes "\<forall>d \<in> set ds. wf_drouter d" and "\<forall>m \<in> set (m4 (kern s)) \<union> set m6. wf_msg freebsd_abi m"
    and "fb_ifname s = ''em0''" and "fb_sentinel_file s = None"
  shows "fb_sees (demo_gen ds m4 m6) s
    \<lparr>v_ifindex = 1, v_file_ok = False, v_routers = ds, v_routes4 = m4 (kern s), v_routes6 = m6\<rparr>"
  using assms demo_fetched [of ds m4 m6] by (simp add: fb_sees_def) (simp add: demo_gen_def Let_def)

text \<open>A router of that world, fe80::x on interface 1, and a daemon on \<open>em0\<close> before its first pass.\<close>

definition demo_router :: "byte \<Rightarrow> byte \<Rightarrow> drouter" where
  "demo_router x flags =
     \<lparr>d_head = replicate 8 0, d_addr = [0xfe, 0x80, 0, 0, 0, 0, 0, 0, 0, 0, 0, 0, 0, 0, 0, x], d_scope = replicate 4 0,
      d_flags = flags, d_times = replicate 10 0, d_ifindex = 1\<rparr>"

definition demo_state :: "'k \<Rightarrow> 'k fb_state" where
  "demo_state k = (fb_init k (\<lambda>_. None))\<lparr>fb_ifname := ''em0''\<rparr>"

lemma wf_demo_router [simp]: "wf_drouter (demo_router x flags)"
  by (simp add: wf_drouter_def demo_router_def)

lemma demo_router_simps [simp]:
  "d_flags (demo_router x flags) = flags" "d_ifindex (demo_router x flags) = 1"
  "d_addr (demo_router x flags) = [0xfe, 0x80, 0, 0, 0, 0, 0, 0, 0, 0, 0, 0, 0, 0, 0, x]"
  by (simp_all add: demo_router_def)

lemma demo_state_simps [simp]:
  "kern (demo_state k) = k" "fb_ifname (demo_state k) = ''em0''"
  "fb_sentinel_file (demo_state k) = None" "\<not> fb_require_route (demo_state k)"
  "\<not> fb_installed (demo_state k)" "fb_interval (demo_state k) = 15" "fb_running (demo_state k)"
  "out (demo_state k) = []" "fb_ifindex (demo_state k) = 0" "files (demo_state k) = (\<lambda>_. None)"
  by (simp_all add: demo_state_def fb_init_def)

text \<open>Routes of that world: the sentinel route, and a static IPv6 default via fe80::x.\<close>

definition demo_sentinel_route :: rt_msg where
  "demo_sentinel_route =
     \<lparr>rm_version = RTM_VERSION, rm_type = 4, rm_index = 1, rm_spare = [0, 0],
      rm_flags = RTF_UP OR RTF_GATEWAY, rm_rest = replicate 136 0,
      rm_slots = [Some zero_sin, Some ([16, AF_INET, 0, 0, 192, 0, 0, 11] @ replicate 8 0),
        Some zero_sin, None, None, None, None, None]\<rparr>"

definition demo_static_route :: "byte \<Rightarrow> rt_msg" where
  "demo_static_route x =
     \<lparr>rm_version = RTM_VERSION, rm_type = 4, rm_index = 1, rm_spare = [0, 0],
      rm_flags = RTF_UP OR RTF_GATEWAY OR RTF_STATIC, rm_rest = replicate 136 0,
      rm_slots = [Some ([28, 28] @ replicate 30 0),
        Some ([28, 28, 0, 0, 0, 0, 0, 0, 0xfe, 0x80, 0, 1, 0, 0, 0, 0, 0, 0, 0, 0, 0, 0, 0, x]
          @ replicate 8 0), None, None, None, None, None, None]\<rparr>"

lemma wf_demo_routes [simp]:
  "wf_msg freebsd_abi demo_sentinel_route" "wf_msg freebsd_abi (demo_static_route x)"
  by (auto simp: wf_msg_def demo_sentinel_route_def demo_static_route_def freebsd_abi_def
      RTAX_MAX_def msg_len_def wf_sa_def sa_size_vals AF_INET_def AF_LINK_def zero_sin_def)

text \<open>A dump that shows the default route: the sentinel, or the route the daemon made.\<close>

definition shown_default :: "demo_rib \<Rightarrow> rt_msg list" where
  "shown_default f =
     (case f in_default of
        Via4 a \<Rightarrow> if a = SENTINEL_ADDR then [demo_sentinel_route] else []
      | Via6 g \<Rightarrow> if length g = 16 then [route_rt_msg 0 0 0 4 g] else []
      | No_route \<Rightarrow> [])"

lemma wf_shown_default [simp]: "m \<in> set (shown_default f) \<Longrightarrow> wf_msg freebsd_abi m"
  by (auto simp: shown_default_def wf_route_rt_msg split: ipv4_route.splits if_splits)

lemma demo_is_sentinel [simp]: "fb_is_sentinel demo_sentinel_route"
  by (simp add: fb_is_sentinel_def demo_sentinel_route_def slot_in_def slot_index sa_fam_def
      sa_in_def INADDR_ANY_def SENTINEL_ADDR_def zero_sin_def RTF_UP_def RTF_GATEWAY_def)
    (simp add: numeral_eq_Suc)

lemma demo_static_gateway [simp]:
  "fb_static_gateway 1 (demo_static_route x)
    = Some [0xfe, 0x80, 0, 0, 0, 0, 0, 0, 0, 0, 0, 0, 0, 0, 0, x]"
  by (simp add: fb_static_gateway_def demo_static_route_def slot_index sa_fam_def sa_in6_def
      freebsd_abi_def in6_unspecified_def strip_scope_def in6_linklocal_def RTF_UP_def
      RTF_GATEWAY_def RTF_STATIC_def)

lemma demo_main:
  "\<exists>s. fb_main (demo_sys [] [] []) [''-i'', ''5'', ''em0''] (fb_init (demo_rib No_route) (\<lambda>_. None))
      = Some (None, s) \<and> \<not> fb_installed s \<and> fb_interval s = 5"
proof -
  let ?S = "demo_sys [] [] []"
  let ?s = "fb_init (demo_rib No_route) (\<lambda>_. None)\<lparr>fb_ifname := ''em0'', fb_ifindex := 1, fb_interval := 5,
    fb_rtsock := 3\<rparr>"
  let ?v = "\<lparr>v_ifindex = 1, v_file_ok = False, v_routers = [], v_routes4 = [], v_routes6 = []\<rparr>"
  have sees: "fb_sees ?S ?s ?v"
    using demo_sees [of "[]" "\<lambda>_. []" ?s "[]"] by (simp add: fb_init_def)
  have "reconcile ?S ?s = Some ((), ?s)"
    by (simp add: reconcile_spec [OF demo_quiet sees])
      (simp add: fb_init_def fb_spec_def best_router_def candidates_def withdraw_def bnd_def run_simps)
  moreover have "atoi ''5'' = Some 5"
    by code_simp
  moreover have "getopt [(CHR ''r'', False), (CHR ''f'', True), (CHR ''i'', True)] [''-i'', ''5'', ''em0'']
      = ([Opt_arg (CHR ''i'') ''5''], [''em0''])"
    by simp
  ultimately show ?thesis
    by (simp add: fb_main_def bnd_def run_simps fb_init_def kcall_def kernel_supports_rfc5549_def
        demo_gen_def Let_def)
qed

end
