(* ===== verification/Freebsd_Hook.thy ===== *)
theory Freebsd_Hook
  imports Freebsd_Daemon
begin

text \<open>
  The hook of FreeBSD's dhclient (\<^verbatim>\<open>host/freebsd/dhclient-exit-hooks\<close>), which tells the daemon by a
  file whether the lease of an interface designates 192.0.0.11 as its router, and what the daemon
  reads there (\<open>sentinel_in_file\<close>) after any number of lease events.
\<close>

section \<open>The hook\<close>

text \<open>The files the shell opens, writes and unlinks; a write may lose the end of the text.\<close>

record 'k hook_sys =
  hook_open :: "string \<Rightarrow> 'k \<Rightarrow> bool \<times> 'k"
  hook_write :: "string \<Rightarrow> string \<Rightarrow> 'k \<Rightarrow> nat \<times> 'k"
  hook_unlink :: "string \<Rightarrow> 'k \<Rightarrow> bool \<times> 'k"

definition V4GWD_STATE :: "string \<Rightarrow> string" where
  "V4GWD_STATE iface = ''/var/run/v4gwd.'' @ iface @ ''.router''"

definition echo_to :: "('k, 'x) hook_sys_scheme \<Rightarrow> string \<Rightarrow> string \<Rightarrow> (('k, 'e, 'z) os_state_scheme, unit) prog" where
  "echo_to H text path =
     bnd (kcall (hook_open H path)) (\<lambda>ok.
     if \<not> ok then ret ()
     else
       bnd (kcall (hook_write H path (text @ [newline]))) (\<lambda>n.
       put_file path (Some (take n (text @ [newline])))))"

definition rm_f :: "('k, 'x) hook_sys_scheme \<Rightarrow> string \<Rightarrow> (('k, 'e, 'z) os_state_scheme, unit) prog" where
  "rm_f H path =
     bnd (kcall (hook_unlink H path)) (\<lambda>ok.
     if ok then put_file path None else ret ())"

definition lease_reasons :: "string set" where
  "lease_reasons = {''BOUND'', ''RENEW'', ''REBIND'', ''REBOOT''}"

definition lost_reasons :: "string set" where
  "lost_reasons = {''EXPIRE'', ''RELEASE'', ''FAIL'', ''STOP''}"

definition dhclient_hook :: "('k, 'x) hook_sys_scheme \<Rightarrow> string \<times> string \<times> string \<Rightarrow>
    (('k, 'e, 'z) os_state_scheme, unit) prog" where
  "dhclient_hook H event =
     (case event of (iface, reason, new_routers) \<Rightarrow>
      if reason \<in> lease_reasons then
        if new_routers = ''192.0.0.11'' then echo_to H new_routers (V4GWD_STATE iface)
        else rm_f H (V4GWD_STATE iface)
      else if reason \<in> lost_reasons then rm_f H (V4GWD_STATE iface)
      else ret ())"

section \<open>What the daemon reads\<close>

text \<open>Whether the lease of an interface designates the gateway, after an event.\<close>

definition lease_designates :: "string \<Rightarrow> bool \<Rightarrow> string \<times> string \<times> string \<Rightarrow> bool" where
  "lease_designates ifname b event =
     (case event of (iface, reason, routers) \<Rightarrow>
      if iface \<noteq> ifname then b
      else if reason \<in> lease_reasons then routers = ''192.0.0.11''
      else if reason \<in> lost_reasons then False
      else b)"

text \<open>Files can be written whole and removed.\<close>

definition hook_works :: "('k, 'x) hook_sys_scheme \<Rightarrow> bool" where
  "hook_works H \<longleftrightarrow> (\<forall>p k. fst (hook_open H p k)) \<and> (\<forall>p t k. length t \<le> fst (hook_write H p t k)) \<and>
     (\<forall>p k. fst (hook_unlink H p k))"

definition designated :: "string \<Rightarrow> (string \<Rightarrow> string option) \<Rightarrow> bool" where
  "designated ifname fs \<longleftrightarrow> (\<exists>c. fs (V4GWD_STATE ifname) = Some c \<and> take 10 c = ''192.0.0.11'')"

lemma V4GWD_STATE_inj [simp]: "V4GWD_STATE i = V4GWD_STATE j \<longleftrightarrow> i = j"
  by (simp add: V4GWD_STATE_def)

lemma hook_step:
  assumes "hook_works H"
  shows "wp (dhclient_hook H e) (\<lambda>_ t. designated n (files t) = lease_designates n (designated n (files s)) e) s"
proof (cases e)
  case (fields iface reason routers)
  have put: "designated n ((files s)(V4GWD_STATE iface := c)) \<longleftrightarrow>
      (if iface = n then \<exists>x. c = Some x \<and> take 10 x = ''192.0.0.11'' else designated n (files s))" for c
    by (auto simp: designated_def)
  have echo: "wp (echo_to H c (V4GWD_STATE iface)) (\<lambda>_ t. designated n (files t) \<longleftrightarrow>
      (if iface = n then take 10 (c @ [newline]) = ''192.0.0.11'' else designated n (files s))) s" for c
  proof -
    have whole: "take (fst (hook_write H p t k)) t = t" for p t k
      using assms by (simp add: hook_works_def)
    show ?thesis
      using assms
      by (simp add: echo_to_def wp_simps put_file_def put hook_works_def whole del: take_append take_take take_all_iff)
  qed
  have rm: "wp (rm_f H (V4GWD_STATE iface)) (\<lambda>_ t. designated n (files t) \<longleftrightarrow>
      iface \<noteq> n \<and> designated n (files s)) s"
    using assms by (simp add: rm_f_def wp_simps put_file_def put hook_works_def)
  let ?new = "if routers = ''192.0.0.11'' then echo_to H routers (V4GWD_STATE iface) else rm_f H (V4GWD_STATE iface)"
  have new: "wp ?new (\<lambda>_ t. designated n (files t) \<longleftrightarrow>
      (if iface \<noteq> n then designated n (files s) else routers = ''192.0.0.11'')) s"
  proof (cases "routers = ''192.0.0.11''")
    case True
    show ?thesis unfolding if_P [OF True] by (rule wp_mono [OF echo]) (simp add: True)
  next
    case False
    show ?thesis unfolding if_not_P [OF False] by (rule wp_mono [OF rm]) (simp add: False)
  qed
  show ?thesis
  proof (cases "reason \<in> lease_reasons")
    case True
    show ?thesis
      unfolding fields dhclient_hook_def lease_designates_def prod.case if_P [OF True] by (rule new)
  next
    case no_lease: False
    show ?thesis
    proof (cases "reason \<in> lost_reasons")
      case True
      show ?thesis
        unfolding fields dhclient_hook_def lease_designates_def prod.case if_not_P [OF no_lease] if_P [OF True]
        by (rule wp_mono [OF rm]) simp
    next
      case False
      show ?thesis
        unfolding fields dhclient_hook_def lease_designates_def prod.case if_not_P [OF no_lease] if_not_P [OF False]
        by (simp add: wp_ret)
    qed
  qed
qed

lemma hooks_step:
  assumes "hook_works H"
  shows "wp (for_each es (dhclient_hook H)) (\<lambda>_ t. designated n (files t) \<longleftrightarrow>
    foldl (lease_designates n) (designated n (files s)) es) s"
proof (induction es arbitrary: s)
  case (Cons e es)
  show ?case
    unfolding for_each.simps wp_bnd
    by (rule wp_mono [OF hook_step [OF assms, where n = n]], rule wp_mono [OF Cons.IH]) simp
qed (simp add: wp_ret)

lemma hooks_reported:
  fixes s :: "('k, 'e, 'z) os_state_scheme"
  assumes "hook_works H" and "\<forall>k. fst (sys_fopen_r S (V4GWD_STATE n) k)"
  shows "wp (for_each es (dhclient_hook H)) (\<lambda>_. wp (sentinel_in_file S (V4GWD_STATE n)) (\<lambda>present _.
    present \<longleftrightarrow> foldl (lease_designates n) (designated n (files s)) es)) s"
proof (rule wp_mono [OF hooks_step [OF assms(1)]])
  fix t :: "('k, 'e, 'z) os_state_scheme"
  assume "designated n (files t) \<longleftrightarrow> foldl (lease_designates n) (designated n (files s)) es"
  then show "wp (sentinel_in_file S (V4GWD_STATE n)) (\<lambda>present _.
      present \<longleftrightarrow> foldl (lease_designates n) (designated n (files s)) es) t"
    using assms(2) by (intro wp_mono [OF sentinel_file_wp]) (simp add: designated_def)
qed

end
