(* ===== verification/Freebsd_Properties.thy ===== *)
theory Freebsd_Properties
  imports Freebsd_Fib Freebsd_Hook
begin

text \<open>
  The properties of the FreeBSD daemon, each with a witness on \<open>demo_sys\<close> or on concrete bytes.
\<close>

section \<open>A pass\<close>



text \<open>
  C2: What a pass of \<open>reconcile\<close> does, exactly, over tables that stand still: it records the
  interface index and takes the action \<open>fb_spec\<close> reads off the tables, with the reason or the
  source the code logs; nothing else in the state changes.
\<close>
theorem fb_reconcile_decision:
  assumes "quiet_reads S" and "fb_sees S s v"
  shows "reconcile S s = fb_act S (fb_spec (fb_sentinel_file s \<noteq> None) (fb_require_route s) v)
    (s\<lparr>fb_ifindex := v_ifindex v\<rparr>)"
  using assms by (rule reconcile_spec)

theorem fb_reconcile_decision_witness:
  "reconcile (demo_sys [] [] []) (demo_state (demo_rib No_route)\<lparr>fb_require_route := True\<rparr>)
    = Some ((), demo_state (demo_rib No_route)\<lparr>fb_require_route := True, fb_ifindex := 1\<rparr>)"
proof -
  let ?s = "demo_state (demo_rib No_route)\<lparr>fb_require_route := True\<rparr>"
  let ?v = "\<lparr>v_ifindex = 1, v_file_ok = False, v_routers = [], v_routes4 = [], v_routes6 = []\<rparr>"
  have "fb_sees (demo_sys [] [] []) ?s ?v"
    using demo_sees [of "[]" "\<lambda>_. []" ?s "[]"] by simp
  then show ?thesis
    using fb_reconcile_decision [OF demo_quiet, of "[]" "\<lambda>_. []" "[]" ?s ?v]
    by (simp add: fb_spec_def withdraw_def bnd_def run_simps)
qed



text \<open>
  Under \<open>-r\<close> the route that a pass installs replaces the sentinel it looks for; the pass that sees
  this takes the route away again, as the README warns.
\<close>
theorem fb_require_route_erases:
  assumes "quiet_reads S" and "rtsock_law S rib" and "fb_sees S s v" and "fb_require_route s"
    and "fb_sentinel_file s = None" and "fb_installed s" and "in_step rib s" and "v_ifindex v = fb_ifindex s"
    and "v_ifindex v \<noteq> 0" and "\<forall>m \<in> set (v_routes4 v). \<not> fb_is_sentinel m"
  shows "wp (reconcile S) (\<lambda>_ t. rib (kern t) = (rib (kern s))(in_default := No_route)) s"
proof -
  have "s\<lparr>fb_ifindex := v_ifindex v\<rparr> = s" using assms(8) by simp
  then show ?thesis
    using reconcile_fib [OF assms(1-3)] assms(4-) by (simp add: fb_spec_def fib_after_def)
qed

text \<open>
  Whatever the system calls return, and however the world changes between any two of them,
  a pass over well-formed routing dumps never reads outside a buffer, never loops for ever, and
  keeps the daemon's flag and address in agreement with the messages the kernel accepted.
\<close>
theorem fb_reconcile_safe:
  assumes "dump_ok freebsd_abi S" and "fb_inv s"
  shows "wp (reconcile S) (\<lambda>_. fb_inv) s"
  using assms by (rule reconcile_safe_inv)

theorem fb_reconcile_safe_witness:
  "wp (reconcile (demo_sys [demo_router 9 0x18] [] [])) (\<lambda>_. fb_inv) (demo_state (demo_rib No_route))"
  by (rule fb_reconcile_safe [OF demo_dump_ok]) (simp_all add: fb_inv_def)

section \<open>Router selection\<close>

text \<open>
  C4: On a default router list that names no router of the interface with the reserved preference,
  the loop returns a router of the interface that has the highest RFC 4191 preference and, among
  those, the numerically lowest address; it returns none only when the list has no router of the
  interface.
\<close>
theorem fb_select_best:
  assumes "\<forall>d \<in> set ds. wf_drouter d"
    and "\<forall>d \<in> set (candidates ifindex ds). ra_preference (d_flags d) \<noteq> None"
  shows "case select_router_buf ifindex (enc_drlist ds) of
      None \<Rightarrow> False
    | Some None \<Rightarrow> candidates ifindex ds = []
    | Some (Some a) \<Rightarrow> \<exists>d \<in> set (candidates ifindex ds). d_addr d = a \<and>
        (\<forall>e \<in> set (candidates ifindex ds).
          the (ra_preference (d_flags e)) < the (ra_preference (d_flags d)) \<or>
          ra_preference (d_flags e) = ra_preference (d_flags d) \<and> be_val (d_addr d) \<le> be_val (d_addr e))"
proof -
  have pref: "ra_preference (d_flags e) = Some (pref_rank (d_flags e) - 1)"
    if "e \<in> set (candidates ifindex ds)" for e
    using assms(2) that pref_rank_ra [of "d_flags e"] by (auto split: if_splits)
  show ?thesis
  proof (cases "best_router ifindex ds")
    case None
    then show ?thesis
      using best_router_None [of ifindex ds] by (simp add: select_router_buf_enc [OF assms(1)])
  next
    case (Some a)
    obtain d where "d \<in> set (candidates ifindex ds)" "d_addr d = a"
      and "\<forall>e \<in> set (candidates ifindex ds). pref_rank (d_flags e) < pref_rank (d_flags d) \<or>
        pref_rank (d_flags e) = pref_rank (d_flags d) \<and> be_val (d_addr d) \<le> be_val (d_addr e)"
      using best_router_Some [OF assms(1) Some] by metis
    then show ?thesis
      using Some by (auto simp: select_router_buf_enc [OF assms(1)] pref intro!: bexI [of _ d])
  qed
qed

theorem fb_select_best_witness:
  "case select_router_buf 1 (enc_drlist [demo_router 9 0x08, demo_router 3 0, demo_router 7 0x08]) of
     Some (Some a) \<Rightarrow> a = d_addr (demo_router 7 0x08)
   | _ \<Rightarrow> False"
proof -
  let ?ds = "[demo_router 9 0x08, demo_router 3 0, demo_router 7 0x08]"
  have "candidates 1 ?ds = ?ds"
    by (simp add: candidates_def)
  moreover have "ra_preference 0x08 = Some 1" "ra_preference 0 = Some 0"
    by (simp_all add: pref_rank_ra pref_rank_def rtpref_defs)
  ultimately show ?thesis
    using fb_select_best [of ?ds 1]
    by (auto simp: be_val_def split: option.splits)
qed

text \<open>
  The choice depends on which routers the kernel knows, not on the order or the repetition
  of the entries in its list.
\<close>
theorem fb_select_order_independent:
  assumes "\<forall>d \<in> set ds. wf_drouter d" and "set es = set ds"
  shows "select_router_buf ifindex (enc_drlist es) = select_router_buf ifindex (enc_drlist ds)"
  using assms by (simp add: select_router_buf_enc best_router_set [of es ds])

theorem fb_select_order_independent_witness:
  "select_router_buf 1 (enc_drlist [demo_router 9 0x08, demo_router 7 0x08, demo_router 9 0x08])
    = select_router_buf 1 (enc_drlist [demo_router 7 0x08, demo_router 9 0x08])"
  by (rule fb_select_order_independent) auto

text \<open>
  C5: On every buffer, of any length and content, the selection ends and reads no byte outside
  the buffer.
\<close>
theorem fb_select_in_bounds: "select_router_buf ifindex buf \<noteq> None"
  by (rule select_router_buf_inside)

section \<open>The sentinel and the static fallback\<close>

text \<open>
  On any IPv4 routing dump of well-formed messages \<open>sentinel_in_fib\<close> answers whether some
  message of the right version is a gateway route for 0.0.0.0 via 192.0.0.11; a failed or empty
  fetch counts as no route.
\<close>
theorem fb_sentinel_in_fib:
  assumes "sysctl_fetch S (Rt_dump AF_INET) s = Some (r, t)" and "holds_table r (enc_msgs ms)"
    and "\<forall>m \<in> set ms. wf_msg freebsd_abi m"
  shows "sentinel_in_fib S s = Some (\<exists>m \<in> set ms. fb_is_sentinel m, t)"
  using assms by (rule sentinel_fib_fetched)

theorem fb_sentinel_in_fib_witness:
  "sentinel_in_fib (demo_sys [] [demo_static_route 1, demo_sentinel_route] []) (demo_state (demo_rib No_route))
    = Some (True, demo_state (demo_rib No_route))"
  by (subst fb_sentinel_in_fib [OF fetch_quiet [OF demo_quiet] demo_fetched(2)]) simp_all

text \<open>
  On any IPv6 routing dump of well-formed messages \<open>static_default_router\<close> returns the
  gateway, with its embedded scope removed, of the first static gateway route for ::/0 on the
  daemon's interface, and none when there is no such route.
\<close>
theorem fb_static_default_router:
  assumes "sysctl_fetch S (Rt_dump (af_inet6 freebsd_abi)) s = Some (r, t)"
    and "holds_table r (enc_msgs ms)" and "\<forall>m \<in> set ms. wf_msg freebsd_abi m"
  shows "static_default_router S ifindex s = Some (first_some (fb_static_gateway ifindex) ms, t)"
  using assms by (rule static_fetched)

theorem fb_static_default_router_witness:
  "static_default_router (demo_sys [] [] [demo_static_route 5, demo_static_route 6]) 1
      (demo_state (demo_rib No_route))
    = Some (Some [0xfe, 0x80, 0, 0, 0, 0, 0, 0, 0, 0, 0, 0, 0, 0, 0, 5], demo_state (demo_rib No_route))"
  by (subst fb_static_default_router [OF fetch_quiet [OF demo_quiet] demo_fetched(3)]) simp_all

text \<open>
  The state file counts as holding the sentinel exactly when it can be opened and its
  content begins with the ten characters 192.0.0.11, whatever follows them.
\<close>
theorem fb_sentinel_in_file:
  "wp (sentinel_in_file S f) (\<lambda>ok _. ok \<longleftrightarrow> (\<exists>c. files s f = Some c \<and>
    fst (sys_fopen_r S f (kern s)) \<and> take 10 c = ''192.0.0.11'')) s"
  by (rule sentinel_file_wp)

text \<open>
  C6: The daemon learns of the lease what dhclient's hook was told: after any sequence of lease
  events, on any interfaces, the state file of an interface counts as holding the sentinel exactly
  when the last event that settled its lease granted one with 192.0.0.11 as the only router. A
  loss of the lease, or another router, takes it back; without such an event the file stays.
\<close>
theorem fb_hook_reported:
  fixes s :: "('k, 'e, 'z) os_state_scheme"
  assumes "hook_works H" and "\<forall>k. fst (sys_fopen_r S (V4GWD_STATE n) k)"
  shows "wp (for_each es (dhclient_hook H)) (\<lambda>_. wp (sentinel_in_file S (V4GWD_STATE n)) (\<lambda>present _.
    present \<longleftrightarrow> foldl (lease_designates n) (designated n (files s)) es)) s"
  using assms by (rule hooks_reported)

definition demo_hook :: "demo_rib hook_sys" where
  "demo_hook = \<lparr>hook_open = (\<lambda>p k. (True, k)), hook_write = (\<lambda>p t k. (length t, k)), hook_unlink = (\<lambda>p k. (True, k))\<rparr>"

theorem fb_hook_reported_witness:
  "wp (for_each [(''em0'', ''BOUND'', ''192.0.0.11''), (''em1'', ''EXPIRE'', [])] (dhclient_hook demo_hook))
    (\<lambda>_. wp (sentinel_in_file (demo_sys [] [] []) (V4GWD_STATE ''em0'')) (\<lambda>present _. present))
    (demo_state (demo_rib No_route))"
proof -
  have "hook_works demo_hook" by (simp add: hook_works_def demo_hook_def)
  moreover have "\<forall>k. fst (sys_fopen_r (demo_sys [] [] []) (V4GWD_STATE ''em0'') k)"
    by (simp add: demo_gen_def Let_def)
  moreover have "foldl (lease_designates ''em0'') b [(''em0'', ''BOUND'', ''192.0.0.11''), (''em1'', ''EXPIRE'', [])]" for b
    by (simp add: lease_designates_def lease_reasons_def)
  ultimately show ?thesis
    using fb_hook_reported [of demo_hook "demo_sys [] [] []" "''em0''"
        "[(''em0'', ''BOUND'', ''192.0.0.11''), (''em1'', ''EXPIRE'', [])]" "demo_state (demo_rib No_route)"] by simp
qed

text \<open>
  C7: A message of \<open>route_msg\<close> fits its buffer and is one well-formed route message of 216
  bytes: read back the way a dump is read it has the type, the IPv4 default destination and mask
  and the gateway with the interface index embedded, and the daemon recognises its echo.
\<close>
theorem fb_route_message:
  assumes "length gw = 16"
  shows "case route_bytes ifindex pid seq type gw of
      None \<Rightarrow> False
    | Some bs \<Rightarrow> bs = enc_msg (route_rt_msg ifindex pid seq type gw) \<and>
        wf_msg freebsd_abi (route_rt_msg ifindex pid seq type gw) \<and> length bs = 216 \<and>
        sent_type bs = Some type \<and> sent_gateway bs = Some (embed_scope ifindex gw) \<and>
        own_echo pid (Some bs)"
  using assms by (simp add: route_bytes_enc wf_route_rt_msg length_route_msg sent_type_route
      sent_gateway_route own_echo_route)

theorem fb_route_message_witness:
  "route_bytes 5 77 1 RTM_ADD (d_addr (demo_router 1 0)) \<noteq> None"
  using fb_route_message [of "d_addr (demo_router 1 0)" 5 77 1 RTM_ADD]
  by (auto split: option.splits)

text \<open>
  A gateway found in the FIB round-trips: when the kernel stores a static route's gateway
  with the daemon's interface embedded, the next message carries exactly the kernel's bytes.
\<close>
theorem fb_gateway_roundtrip:
  assumes "fb_static_gateway ifindex m = Some gw" and "rm_slots m ! RTAX_GATEWAY = Some g"
    and "sa_in6 g = embed_scope ifindex a" and "length a = 16"
  shows "sa_in6 (fill_gateway ifindex gw) = sa_in6 g"
proof -
  have "gw = strip_scope (sa_in6 g)"
    using assms(1,2) by (auto simp: fb_static_gateway_def split: option.splits if_splits)
  then show ?thesis
    using assms(3,4) by (simp add: sa_in6_fill embed_strip embed_idem)
qed

theorem fb_gateway_roundtrip_witness:
  "sa_in6 (fill_gateway 1 [0xfe, 0x80, 0, 0, 0, 0, 0, 0, 0, 0, 0, 0, 0, 0, 0, 5])
    = [0xfe, 0x80, 0, 1, 0, 0, 0, 0, 0, 0, 0, 0, 0, 0, 0, 5]"
  using fb_gateway_roundtrip [of 1 "demo_static_route 5" _ _
      "[0xfe, 0x80, 0, 0, 0, 0, 0, 0, 0, 0, 0, 0, 0, 0, 0, 5]"]
  by (simp add: demo_static_gateway) (simp add: demo_static_route_def slot_index sa_in6_def
      embed_scope_def in6_linklocal_def)

section \<open>Programming the route\<close>

text \<open>
  A foreign IPv4 default route, for example the one a DHCP client set up via 192.0.0.11,
  is taken over with exactly two messages: an RTM_ADD the kernel refuses with EEXIST or EINVAL,
  and the RTM_CHANGE that replaces it; then the daemon remembers its gateway.
\<close>
theorem fb_install_takeover:
  assumes "rtsock_law S rib" and "length gw = 16" and "\<not> fb_installed s"
    and "rib (kern s) in_default \<noteq> No_route"
  shows "wp (install S gw src) (\<lambda>_ t.
    rib (kern t) = (rib (kern s))(in_default := Via6 (embed_scope (fb_ifindex s) gw)) \<and>
    fb_installed t \<and> fb_gw t = gw \<and>
    (\<exists>e \<in> {EEXIST, EINVAL}. out t = out s @
      [Ev_route_msg (enc_msg (route_rt_msg (fb_ifindex s) (sys_getpid S) (fb_rtseq s) RTM_ADD gw)) (- e),
       Ev_route_msg (enc_msg (route_rt_msg (fb_ifindex s) (sys_getpid S) (fb_rtseq s + 1) RTM_CHANGE gw)) 0,
       Log_installed gw src])) s"
  using assms by (rule install_takeover)

theorem fb_install_takeover_witness:
  "wp (install (demo_sys [] [] []) (d_addr (demo_router 7 0)) ''ND default router list'')
    (\<lambda>_ t. fb_installed t \<and> length (out t) = 3) (demo_state (demo_rib (Via4 SENTINEL_ADDR)))"
  by (rule wp_mono [OF fb_install_takeover [OF demo_law]]) auto

text \<open>
  \<open>withdraw\<close> always ends with the flag off. It writes nothing when the flag was off, and
  otherwise exactly one RTM_DELETE for the remembered gateway, whatever the kernel answers: a
  refusal other than ESRCH is logged as a failure and never retried.
\<close>
theorem fb_withdraw_once:
  assumes "fb_installed s \<longrightarrow> length (fb_gw s) = 16"
  shows "wp (withdraw S reason) (\<lambda>_ t. \<not> fb_installed t \<and> fb_gw t = fb_gw s \<and>
    (\<exists>r. out t = out s @ withdraw_out S reason s r)) s"
  using assms by (rule withdraw_effect)

theorem fb_withdraw_once_witness:
  "wp (withdraw (demo_sys [] [] []) ''x'') (\<lambda>_ t. \<not> fb_installed t \<and> length (out t) = 2)
    (demo_state (demo_rib No_route)\<lparr>fb_installed := True, fb_gw := d_addr (demo_router 7 0)\<rparr>)"
  by (rule wp_mono [OF fb_withdraw_once]) (auto simp: withdraw_out_def)

text \<open>
  A default route that something else removes while the daemon runs is not restored: the
  daemon's flag stays on, so it either writes nothing or an RTM_CHANGE that the kernel refuses.
\<close>
theorem fb_install_after_flush:
  assumes "rtsock_law S rib" and "length gw = 16" and "fb_installed s"
    and "rib (kern s) in_default = No_route"
  shows "wp (install S gw src) (\<lambda>_ t. rib (kern t) = rib (kern s) \<and> fb_installed t) s"
  using assms by (rule install_after_flush)

theorem fb_install_after_flush_witness:
  "wp (install (demo_sys [] [] []) (d_addr (demo_router 7 0)) ''ND default router list'')
    (\<lambda>_ t. kern t = (demo_rib No_route) \<and> fb_installed t)
    (demo_state (demo_rib No_route)\<lparr>fb_installed := True, fb_gw := d_addr (demo_router 7 0)\<rparr>)"
  by (rule wp_mono [OF fb_install_after_flush [OF demo_law]]) auto

section \<open>The life of the daemon\<close>

text \<open>
  For every behaviour of the system, \<open>main\<close> enters its loop only with a positive interval,
  at most one sentinel check and a flag that agrees with the messages the kernel accepted; when
  it exits instead, it has installed no route.
\<close>
theorem fb_main_start:
  "wlp (fb_main S args) (\<lambda>r t. if r = None then fb_ready t else \<not> fb_installed t) (fb_init k fs)"
  by (rule fb_main_wlp)



text \<open>
  An iteration of the loop over well-formed dumps faults exactly when the interval in
  milliseconds does not fit C's \<open>int\<close>: an option \<open>-i\<close> above 2147483 is accepted by \<open>main\<close>
  and then overflows.
\<close>
theorem fb_iter_fault:
  assumes "dump_ok freebsd_abi S" and "fb_ready s"
  shows "fb_iter S s = None \<longleftrightarrow> 2147483 < fb_interval s"
proof -
  have c: "c_mul (fb_interval s) 1000 = None \<longleftrightarrow> 2147483 < fb_interval s"
    using assms(2) c_mul_1000 [of "fb_interval s"] by (auto simp: fb_ready_def)
  have "fb_iter S s \<noteq> None" if "c_mul (fb_interval s) 1000 \<noteq> None"
    using fb_iter_loop_inv [of S s] assms that by (auto simp: fb_ready_def fb_loop_inv_def elim!: wpE)
  moreover have "fb_iter S s = None" if "c_mul (fb_interval s) 1000 = None"
    using that by (simp add: fb_iter_def bnd_def gets_def of_opt_def)
  ultimately show ?thesis using c by metis
qed

theorem fb_iter_fault_witness:
  "fb_iter (demo_sys [] [] []) (demo_state (demo_rib No_route)\<lparr>fb_interval := 3000000\<rparr>) = None"
  using fb_iter_fault [OF demo_dump_ok, of "[]" "[]" "demo_state (demo_rib No_route)\<lparr>fb_interval := 3000000\<rparr>" "[]"]
  by (simp add: fb_ready_def fb_inv_def)

text \<open>
  C9: On a system whose routing dumps are well-formed the daemon faults in its loop, under some
  interleaving, exactly when its interval in milliseconds does not fit C's \<open>int\<close>, that is with an
  option \<open>-i\<close> above 2147483. Whatever the interval, once a signal has cleared \<open>running\<close> the daemon
  can finish.
\<close>
theorem fb_never_stuck:
  assumes "dump_ok freebsd_abi S" and "fb_main S args (fb_init k fs) = Some (None, s)"
  shows "(loop_reaches fb_running fb_env (fb_iter S) (fb_stop S) s Crashed \<longleftrightarrow> 2147483 < fb_interval s) \<and>
    (\<forall>t. loop_reaches fb_running fb_env (fb_iter S) (fb_stop S) s (Running t) \<and> \<not> fb_running t \<longrightarrow>
      (\<exists>u. loop_step fb_running fb_env (fb_iter S) (fb_stop S) (Running t) (Stopped u)))"
proof -
  have ready: "fb_ready s" using wlpD [OF fb_main_wlp assms(2)] by simp
  then have inv: "fb_inv s" and run: "fb_running s" by (simp_all add: fb_ready_def)
  have "loop_reaches fb_running fb_env (fb_iter S) (fb_stop S) s Crashed \<longleftrightarrow> 2147483 < fb_interval s"
  proof
    assume "2147483 < fb_interval s"
    then have "fb_iter S s = None" using fb_iter_fault [OF assms(1) ready] by simp
    then show "loop_reaches fb_running fb_env (fb_iter S) (fb_stop S) s Crashed"
      using run by (blast intro: loop_reaches_refl loop_reaches_step loop_step.iter_fault)
  next
    assume crash: "loop_reaches fb_running fb_env (fb_iter S) (fb_stop S) s Crashed"
    show "2147483 < fb_interval s"
    proof (rule ccontr)
      assume "\<not> 2147483 < fb_interval s"
      then have "fb_loop_inv S s"
        using ready assms(1) c_mul_1000 by (simp add: fb_ready_def fb_loop_inv_def)
      then show False using fb_safe_life.never_crashes [OF crash] by simp
    qed
  qed
  moreover have "\<exists>u. loop_step fb_running fb_env (fb_iter S) (fb_stop S) (Running t) (Stopped u)"
    if reach: "loop_reaches fb_running fb_env (fb_iter S) (fb_stop S) s (Running t)" and off: "\<not> fb_running t" for t
  proof -
    have "fb_inv t" using fb_life.reach_ok [OF reach inv] by simp
    then have "wp (fb_stop S) (\<lambda>_ t. fb_inv t \<and> \<not> fb_installed t) t"
      unfolding fb_stop_def by (rule withdraw_inv)
    then obtain u where "fb_stop S t = Some ((), u)" by (elim wpE) simp
    then show ?thesis using off by (blast intro: loop_step.finish)
  qed
  ultimately show ?thesis by blast
qed

theorem fb_never_stuck_witness:
  "\<exists>s. fb_main (demo_sys [] [] []) [''-i'', ''5'', ''em0''] (fb_init (demo_rib No_route) (\<lambda>_. None))
      = Some (None, s) \<and>
    \<not> loop_reaches fb_running fb_env (fb_iter (demo_sys [] [] [])) (fb_stop (demo_sys [] [] [])) s Crashed"
proof -
  let ?S = "demo_sys [] [] []"
  obtain s where main: "fb_main ?S [''-i'', ''5'', ''em0''] (fb_init (demo_rib No_route) (\<lambda>_. None))
      = Some (None, s)" and "fb_interval s = 5"
    using demo_main by blast
  then show ?thesis
    using fb_never_stuck [OF demo_dump_ok main] by auto
qed

text \<open>
  A wake-up by the echo of the daemon's own route message causes no pass: nothing but the
  world outside changes, so installing a route does not set off a chain of passes.
\<close>
theorem fb_own_echo_skipped:
  assumes "c_mul (fb_interval s) 1000 = Some ms" and "sys_poll S ms (kern s) = (n, k)" and "0 < n"
    and "sys_read S 2048 k = (Some (enc_msg (route_rt_msg i (sys_getpid S) seq type gw)), k')"
    and "length gw = 16"
  shows "fb_iter S s = Some ((), s\<lparr>kern := k'\<rparr>)"
  using assms by (simp add: fb_iter_def bnd_def run_simps kcall_def own_echo_route)

theorem fb_own_echo_skipped_witness:
  "fb_iter (demo_sys [] [] []\<lparr>sys_poll := \<lambda>t k. (1, k), sys_read := \<lambda>n k.
      (Some (enc_msg (route_rt_msg 1 4242 1 RTM_ADD (replicate 16 0))), k)\<rparr>) (demo_state (demo_rib No_route))
    = Some ((), demo_state (demo_rib No_route))"
proof -
  let ?S = "demo_sys [] [] []\<lparr>sys_poll := \<lambda>t k. (1, k), sys_read := \<lambda>n k.
      (Some (enc_msg (route_rt_msg 1 4242 1 RTM_ADD (replicate 16 0))), k)\<rparr>"
  have "c_mul (fb_interval (demo_state (demo_rib No_route))) 1000 = Some 15000"
    by (simp add: c_mul_def int_max_def)
  then show ?thesis
    using fb_own_echo_skipped [of "demo_state (demo_rib No_route)" 15000 ?S 1 "demo_rib No_route" 1 1 RTM_ADD
        "replicate 16 0" "demo_rib No_route"]
    by (simp add: demo_gen_def Let_def)
qed

section \<open>A reserved preference\<close>

text \<open>
  A router whose advertisement carries the reserved preference is not ignored, as the
  comment in \<open>pref_rank\<close> asks: when it is the only one on the interface it is selected.
\<close>
theorem fb_reserved_selected:
  assumes "wf_drouter d" and "d_flags d AND ND_RA_FLAG_RTPREF_MASK = 0x10"
    and "ucast (d_ifindex d) = ifindex"
  shows "pref_rank (d_flags d) = -1 \<and> select_router_buf ifindex (enc_drlist [d]) = Some (Some (d_addr d))"
  using assms by (simp add: pref_rank_def rtpref_defs select_router_buf_enc best_router_def
      candidates_def drouter_key_def)

theorem fb_reserved_selected_witness:
  "select_router_buf 1 (enc_drlist [demo_router 7 0x10]) = Some (Some (d_addr (demo_router 7 0x10)))"
  using fb_reserved_selected [of "demo_router 7 0x10" 1] by (simp add: rtpref_defs)

end
