(* ===== verification/Macos_Scan.thy ===== *)
theory Macos_Scan
  imports Bsd_Os
begin

text \<open>
  Discovery of the macOS daemon (\<open>get_rti_info\<close>, \<open>find_default_router\<close>, \<open>router_lladdr\<close>,
  \<open>arp_entry_present\<close> and \<open>sentinel_in_fib\<close> of \<^verbatim>\<open>host/macos/v4gwd-arp.c\<close>): four scans of
  routing and link-layer tables, each an interpretation of \<open>rt_scanner\<close> with the fields of a
  message it selects on.
\<close>

section \<open>The platform\<close>

text \<open>Darwin: a header of 92 bytes, addresses padded to \<open>sizeof(uint32_t)\<close>.\<close>

definition darwin_abi :: rt_abi where
  "darwin_abi = \<lparr>hdr_size = 92, sa_align = 4, af_inet6 = 30\<rparr>"

definition RTF_LLINFO :: u32 where "RTF_LLINFO = 0x400"

definition get_rti_info :: "byte list \<Rightarrow> u32 \<Rightarrow> nat \<Rightarrow> nat option list option" where
  "get_rti_info buf addrs sa = rti_walk darwin_abi buf addrs [0..<RTAX_MAX] sa"

definition strip_embedded_scope :: "in6_addr \<Rightarrow> in6_addr" where
  "strip_embedded_scope a = (if in6_linklocal a then a[2 := 0, 3 := 0] else a)"

text \<open>The FreeBSD daemon has the same code inline.\<close>

lemma strip_embedded_scope_eq: "strip_embedded_scope = strip_scope"
  by (simp add: fun_eq_iff strip_embedded_scope_def strip_scope_def)

section \<open>The code\<close>

definition mc_router_body :: "u32 \<Rightarrow> byte list \<Rightarrow> nat \<Rightarrow> in6_addr ctl option" where
  "mc_router_body ifindex buf p = do {
     version \<leftarrow> rtm_version buf p;
     if version \<noteq> RTM_VERSION then Some Continue
     else do {
       flags \<leftarrow> rtm_flags buf p;
       if flags AND (RTF_GATEWAY OR RTF_UP) \<noteq> RTF_GATEWAY OR RTF_UP then Some Continue
       else do {
         index \<leftarrow> rtm_index buf p;
         if (ucast index :: u32) \<noteq> ifindex then Some Continue
         else do {
           addrs \<leftarrow> rtm_addrs buf p;
           rti \<leftarrow> get_rti_info buf addrs (p + hdr_size darwin_abi);
           case rti ! RTAX_DST of None \<Rightarrow> Some Continue | Some dst \<Rightarrow> (
           case rti ! RTAX_GATEWAY of None \<Rightarrow> Some Continue | Some gw \<Rightarrow> do {
               dfam \<leftarrow> sa_family buf dst;
               if dfam \<noteq> af_inet6 darwin_abi then Some Continue
               else do {
                 gfam \<leftarrow> sa_family buf gw;
                 if gfam \<noteq> af_inet6 darwin_abi then Some Continue
                 else do {
                   da \<leftarrow> sin6_addr buf dst;
                   if \<not> in6_unspecified da then Some Continue
                   else do {
                     ga \<leftarrow> sin6_addr buf gw;
                     Some (Break (strip_embedded_scope ga))
                   }
                 }
               }
             })
         }
       }
     }
   }"

definition find_default_router ::
    "('k, 'x) bsd_sys_scheme \<Rightarrow> u32 \<Rightarrow> (('k, 'e, 'z) os_state_scheme, in6_addr option) prog" where
  "find_default_router S ifindex =
     bnd (sysctl_fetch S (Rt_dump (af_inet6 darwin_abi))) (\<lambda>buf.
     case buf of
       None \<Rightarrow> ret None
     | Some b \<Rightarrow> bnd (of_opt (rtm_scan (mc_router_body ifindex) b 0)) ret)"

definition mc_lladdr_body :: "u32 \<Rightarrow> in6_addr \<Rightarrow> byte list \<Rightarrow> nat \<Rightarrow> mac_addr ctl option" where
  "mc_lladdr_body ifindex gw buf p = do {
     version \<leftarrow> rtm_version buf p;
     if version \<noteq> RTM_VERSION then Some Continue
     else do {
       index \<leftarrow> rtm_index buf p;
       if (ucast index :: u32) \<noteq> ifindex then Some Continue
       else do {
         addrs \<leftarrow> rtm_addrs buf p;
         rti \<leftarrow> get_rti_info buf addrs (p + hdr_size darwin_abi);
         case rti ! RTAX_DST of None \<Rightarrow> Some Continue | Some dst \<Rightarrow> (
         case rti ! RTAX_GATEWAY of None \<Rightarrow> Some Continue | Some sdl \<Rightarrow> do {
             dfam \<leftarrow> sa_family buf dst;
             if dfam \<noteq> af_inet6 darwin_abi then Some Continue
             else do {
               gfam \<leftarrow> sa_family buf sdl;
               if gfam \<noteq> AF_LINK then Some Continue
               else do {
                 a \<leftarrow> sin6_addr buf dst;
                 if strip_embedded_scope a \<noteq> gw then Some Continue
                 else do {
                   alen \<leftarrow> sdl_alen buf sdl;
                   if alen \<noteq> 6 then Some Continue
                   else do {
                     mac \<leftarrow> sdl_lladdr buf sdl 6;
                     Some (Break mac)
                   }
                 }
               }
             }
           })
       }
     }
   }"

definition router_lladdr ::
    "('k, 'x) bsd_sys_scheme \<Rightarrow> u32 \<Rightarrow> in6_addr \<Rightarrow>
      (('k, 'e, 'z) os_state_scheme, mac_addr option) prog" where
  "router_lladdr S ifindex gw =
     bnd (sysctl_fetch S (Rt_flags (af_inet6 darwin_abi) RTF_LLINFO)) (\<lambda>buf.
     case buf of
       None \<Rightarrow> ret None
     | Some b \<Rightarrow> bnd (of_opt (rtm_scan (mc_lladdr_body ifindex gw) b 0)) ret)"

text \<open>The first entry for the sentinel decides; \<open>Break found\<close> is the code's \<open>break\<close>.\<close>

definition mc_arp_body :: "u32 \<Rightarrow> in_addr \<Rightarrow> mac_addr \<Rightarrow> byte list \<Rightarrow> nat \<Rightarrow> bool ctl option" where
  "mc_arp_body ifindex sentinel_addr mac buf p = do {
     version \<leftarrow> rtm_version buf p;
     if version \<noteq> RTM_VERSION then Some Continue
     else do {
       index \<leftarrow> rtm_index buf p;
       if (ucast index :: u32) \<noteq> ifindex then Some Continue
       else do {
         addrs \<leftarrow> rtm_addrs buf p;
         rti \<leftarrow> get_rti_info buf addrs (p + hdr_size darwin_abi);
         case rti ! RTAX_DST of None \<Rightarrow> Some Continue | Some dst \<Rightarrow> (
         case rti ! RTAX_GATEWAY of None \<Rightarrow> Some Continue | Some sdl \<Rightarrow> do {
             dfam \<leftarrow> sa_family buf dst;
             if dfam \<noteq> AF_INET then Some Continue
             else do {
               gfam \<leftarrow> sa_family buf sdl;
               if gfam \<noteq> AF_LINK then Some Continue
               else do {
                 da \<leftarrow> sin_addr buf dst;
                 if da \<noteq> sentinel_addr then Some Continue
                 else do {
                   alen \<leftarrow> sdl_alen buf sdl;
                   if alen \<noteq> 6 then Some (Break False)
                   else do {
                     ll \<leftarrow> sdl_lladdr buf sdl 6;
                     if memcmp ll mac \<noteq> 0 then Some (Break False)
                     else do {
                       flags \<leftarrow> rtm_flags buf p;
                       Some (Break (flags AND RTF_STATIC \<noteq> 0))
                     }
                   }
                 }
               }
             }
           })
       }
     }
   }"

definition arp_entry_present ::
    "('k, 'x) bsd_sys_scheme \<Rightarrow> u32 \<Rightarrow> in_addr \<Rightarrow> mac_addr \<Rightarrow>
      (('k, 'e, 'z) os_state_scheme, bool) prog" where
  "arp_entry_present S ifindex sentinel_addr mac =
     bnd (sysctl_fetch S (Rt_flags AF_INET RTF_LLINFO)) (\<lambda>buf.
     case buf of
       None \<Rightarrow> ret False
     | Some b \<Rightarrow> bnd (of_opt (rtm_scan (mc_arp_body ifindex sentinel_addr mac) b 0))
         (\<lambda>found. ret (found = Some True)))"

definition mc_sentinel_body :: "in_addr \<Rightarrow> byte list \<Rightarrow> nat \<Rightarrow> unit ctl option" where
  "mc_sentinel_body sentinel_addr buf p = do {
     version \<leftarrow> rtm_version buf p;
     if version \<noteq> RTM_VERSION then Some Continue
     else do {
       flags \<leftarrow> rtm_flags buf p;
       if flags AND RTF_GATEWAY = 0 then Some Continue
       else do {
         addrs \<leftarrow> rtm_addrs buf p;
         rti \<leftarrow> get_rti_info buf addrs (p + hdr_size darwin_abi);
         case rti ! RTAX_DST of None \<Rightarrow> Some Continue | Some dst \<Rightarrow> (
         case rti ! RTAX_GATEWAY of None \<Rightarrow> Some Continue | Some gw \<Rightarrow> do {
             dfam \<leftarrow> sa_family buf dst;
             if dfam \<noteq> AF_INET then Some Continue
             else do {
               gfam \<leftarrow> sa_family buf gw;
               if gfam \<noteq> AF_INET then Some Continue
               else do {
                 da \<leftarrow> sin_addr buf dst;
                 if da \<noteq> [0, 0, 0, 0] then Some Continue
                 else do {
                   ga \<leftarrow> sin_addr buf gw;
                   if ga = sentinel_addr then Some (Break ()) else Some Continue
                 }
               }
             }
           })
       }
     }
   }"

definition sentinel_in_fib_arp ::
    "('k, 'x) bsd_sys_scheme \<Rightarrow> in_addr \<Rightarrow> (('k, 'e, 'z) os_state_scheme, bool) prog" where
  "sentinel_in_fib_arp S sentinel_addr =
     bnd (sysctl_fetch S (Rt_dump AF_INET)) (\<lambda>buf.
     case buf of
       None \<Rightarrow> ret False
     | Some b \<Rightarrow> bnd (of_opt (rtm_scan (mc_sentinel_body sentinel_addr) b 0)) (\<lambda>r. ret (r \<noteq> None)))"

section \<open>What they select\<close>

text \<open>A message of the right version that has both addresses, and what \<open>f\<close> makes of them.\<close>

definition on_pair :: "rt_msg \<Rightarrow> (byte list \<Rightarrow> byte list \<Rightarrow> 'a option) \<Rightarrow> 'a option" where
  "on_pair m f =
     (case (rm_slots m ! RTAX_DST, rm_slots m ! RTAX_GATEWAY) of
        (Some d, Some g) \<Rightarrow> if rm_version m = RTM_VERSION then f d g else None
      | _ \<Rightarrow> None)"

definition mc_gateway :: "u32 \<Rightarrow> rt_msg \<Rightarrow> in6_addr option" where
  "mc_gateway ifindex m = on_pair m (\<lambda>d g.
     if rm_flags m AND (RTF_GATEWAY OR RTF_UP) = RTF_GATEWAY OR RTF_UP \<and>
        (ucast (rm_index m) :: u32) = ifindex \<and> sa_fam d = af_inet6 darwin_abi \<and>
        sa_fam g = af_inet6 darwin_abi \<and> in6_unspecified (sa_in6 d)
     then Some (strip_embedded_scope (sa_in6 g)) else None)"

definition mc_neighbor :: "u32 \<Rightarrow> in6_addr \<Rightarrow> rt_msg \<Rightarrow> mac_addr option" where
  "mc_neighbor ifindex gw m = on_pair m (\<lambda>d g.
     if (ucast (rm_index m) :: u32) = ifindex \<and> sa_fam d = af_inet6 darwin_abi \<and>
        sa_fam g = AF_LINK \<and> strip_embedded_scope (sa_in6 d) = gw \<and> sa_alen g = 6
     then Some (sa_ll g 6) else None)"

definition mc_arp :: "u32 \<Rightarrow> in_addr \<Rightarrow> rt_msg \<Rightarrow> mac_addr option option" where
  "mc_arp ifindex sentinel_addr m = on_pair m (\<lambda>d g.
     if (ucast (rm_index m) :: u32) = ifindex \<and> sa_fam d = AF_INET \<and> sa_fam g = AF_LINK \<and>
        sa_in d = sentinel_addr
     then Some (if sa_alen g = 6 \<and> rm_flags m AND RTF_STATIC \<noteq> 0 then Some (sa_ll g 6) else None)
     else None)"

definition mc_sentinel :: "in_addr \<Rightarrow> rt_msg \<Rightarrow> unit option" where
  "mc_sentinel sentinel_addr m = on_pair m (\<lambda>d g.
     if rm_flags m AND RTF_GATEWAY \<noteq> 0 \<and> sa_fam d = AF_INET \<and> sa_fam g = AF_INET \<and>
        sa_in d = [0, 0, 0, 0] \<and> sa_in g = sentinel_addr
     then Some () else None)"

lemma rti_msg:
  assumes "wf_msg darwin_abi m"
  shows "get_rti_info (pre @ enc_msg m @ post) (slot_bits (rm_slots m)) (length pre + hdr_size darwin_abi)
    = Some (map (\<lambda>i. map_option (\<lambda>_. slot_at darwin_abi (length pre) m i) (rm_slots m ! i)) [0..<8])"
  using walk_msg [OF assms, of 8] by (simp add: get_rti_info_def RTAX_MAX_def)

interpretation mc_router: rt_scanner darwin_abi "mc_router_body ifindex" "mc_gateway ifindex"
  for ifindex
proof
  fix m pre post
  assume wf: "wf_msg darwin_abi m"
  note rd = rd_hdr [OF wf] rti_msg [OF wf] rd_slot [OF wf]
  show "mc_router_body ifindex (pre @ enc_msg m @ post) (length pre)
      = Some (case mc_gateway ifindex m of None \<Rightarrow> Continue | Some x \<Rightarrow> Break x)"
    by (cases "rm_slots m ! 0"; cases "rm_slots m ! 1")
      (simp_all add: mc_router_body_def mc_gateway_def on_pair_def rd slot_index upt_rec)
qed

interpretation mc_lladdr: rt_scanner darwin_abi "mc_lladdr_body ifindex gw" "mc_neighbor ifindex gw"
  for ifindex gw
proof
  fix m pre post
  assume wf: "wf_msg darwin_abi m"
  note rd = rd_hdr [OF wf] rti_msg [OF wf] rd_slot [OF wf]
  show "mc_lladdr_body ifindex gw (pre @ enc_msg m @ post) (length pre)
      = Some (case mc_neighbor ifindex gw m of None \<Rightarrow> Continue | Some x \<Rightarrow> Break x)"
    by (cases "rm_slots m ! 0"; cases "rm_slots m ! 1")
      (simp_all add: mc_lladdr_body_def mc_neighbor_def on_pair_def rd slot_index upt_rec)
qed

interpretation mc_fib: rt_scanner darwin_abi "mc_sentinel_body sentinel_addr" "mc_sentinel sentinel_addr"
  for sentinel_addr
proof
  fix m pre post
  assume wf: "wf_msg darwin_abi m"
  note rd = rd_hdr [OF wf] rti_msg [OF wf] rd_slot [OF wf]
  show "mc_sentinel_body sentinel_addr (pre @ enc_msg m @ post) (length pre)
      = Some (case mc_sentinel sentinel_addr m of None \<Rightarrow> Continue | Some x \<Rightarrow> Break x)"
    by (cases "rm_slots m ! 0"; cases "rm_slots m ! 1")
      (simp_all add: mc_sentinel_body_def mc_sentinel_def on_pair_def rd slot_index upt_rec)
qed

text \<open>Whether the decisive entry is permanent with a given address.\<close>

definition mc_arp_is :: "u32 \<Rightarrow> in_addr \<Rightarrow> mac_addr \<Rightarrow> rt_msg \<Rightarrow> bool option" where
  "mc_arp_is ifindex sentinel_addr mac m = map_option
     (\<lambda>e. case e of None \<Rightarrow> False | Some ll \<Rightarrow> memcmp ll mac = 0) (mc_arp ifindex sentinel_addr m)"

interpretation mc_arp: rt_scanner darwin_abi "mc_arp_body ifindex sentinel_addr mac"
  "mc_arp_is ifindex sentinel_addr mac" for ifindex sentinel_addr mac
proof
  fix m pre post
  assume wf: "wf_msg darwin_abi m"
  note rd = rd_hdr [OF wf] rti_msg [OF wf] rd_slot [OF wf]
  show "mc_arp_body ifindex sentinel_addr mac (pre @ enc_msg m @ post) (length pre)
      = Some (case mc_arp_is ifindex sentinel_addr mac m of None \<Rightarrow> Continue | Some x \<Rightarrow> Break x)"
    by (cases "rm_slots m ! 0"; cases "rm_slots m ! 1")
      (simp_all add: mc_arp_body_def mc_arp_is_def mc_arp_def on_pair_def rd slot_index upt_rec)
qed

end
