(* ===== verification/Mac_Text.thy ===== *)
theory Mac_Text
  imports V4_Prelude
begin

text \<open>
  MAC addresses as text, as the macOS and the Windows daemon write and read them, and the
  interface of their persistent map from the own MAC of an interface to the MAC of its router.

  \<open>scan_hex\<close> is a conversion with \<open>%x\<close>: white space, a sign, an optional 0x and the hex
  digits, converted with the saturating 64-bit conversion of the C library and narrowed to a
  byte. The locale \<open>mac_codec\<close> states that a printed address reads back, \<open>mac_cache\<close> what a
  lookup and an update of the map promise, whatever fails underneath; both daemons interpret
  both.
\<close>

section \<open>Printing\<close>

definition hex_digit :: "bool \<Rightarrow> nat \<Rightarrow> char" where
  "hex_digit upper n = char_of (if n < 10 then 48 + n else (if upper then 55 else 87) + n)"

text \<open>\<open>%02x\<close> resp. \<open>%02X\<close> of a byte.\<close>

definition hex_byte :: "bool \<Rightarrow> byte \<Rightarrow> string" where
  "hex_byte upper b = [hex_digit upper (unat b div 16), hex_digit upper (unat b mod 16)]"

text \<open>What \<open>snprintf\<close> with a buffer of \<open>n\<close> bytes leaves in it.\<close>

definition snprintf :: "nat \<Rightarrow> string \<Rightarrow> string" where
  "snprintf n s = take (n - 1) s"

fun join :: "char \<Rightarrow> string list \<Rightarrow> string" where
  "join sep [] = []"
| "join sep [s] = s"
| "join sep (s # ss) = s @ sep # join sep ss"

text \<open>The six bytes of a \<open>uint8_t[6]\<close>.\<close>

definition mac_text :: "bool \<Rightarrow> char \<Rightarrow> mac_addr \<Rightarrow> string" where
  "mac_text upper sep mac = snprintf 18 (join sep (map (hex_byte upper) mac))"

definition mac_str :: "mac_addr \<Rightarrow> string" where
  "mac_str mac = mac_text False (CHR '':'') mac"

section \<open>Scanning\<close>

definition hex_val :: "char \<Rightarrow> nat option" where
  "hex_val c =
     (let n = of_char c in
      if 48 \<le> n \<and> n \<le> 57 then Some (n - 48)
      else if 65 \<le> n \<and> n \<le> 70 then Some (n - 55)
      else if 97 \<le> n \<and> n \<le> 102 then Some (n - 87)
      else None)"

definition is_hex :: "char \<Rightarrow> bool" where
  "is_hex c \<longleftrightarrow> hex_val c \<noteq> None"

definition hex_num :: "string \<Rightarrow> nat" where
  "hex_num ds = foldl (\<lambda>n c. 16 * n + (case hex_val c of Some d \<Rightarrow> d | None \<Rightarrow> 0)) 0 ds"

text \<open>The unsigned 64-bit value of a sign and digits, saturating.\<close>

definition strtou64 :: "bool \<Rightarrow> nat \<Rightarrow> 64 word" where
  "strtou64 neg v = (if 2 ^ 64 \<le> v then - 1 else if neg then - of_nat v else of_nat v)"

definition scan_hex :: "string \<Rightarrow> (byte \<times> string) option" where
  "scan_hex s =
     (let t = dropWhile is_space s;
          neg = (c_hd t = CHR ''-'');
          u = (if c_hd t \<in> {CHR ''-'', CHR ''+''} then tl t else t);
          v = (case u of z # x # d # r \<Rightarrow>
                 if z = CHR ''0'' \<and> x \<in> {CHR ''x'', CHR ''X''} \<and> is_hex d then d # r else u
               | _ \<Rightarrow> u);
          ds = takeWhile is_hex v
      in if ds = [] then None
         else Some (ucast (strtou64 neg (hex_num ds)), dropWhile is_hex v))"

text \<open>\<open>n\<close> conversions with the literal \<open>sep\<close> between them; \<open>None\<close> when one does not match.\<close>

fun scan_bytes :: "char \<Rightarrow> nat \<Rightarrow> string \<Rightarrow> byte list option" where
  "scan_bytes sep 0 s = Some []"
| "scan_bytes sep (Suc n) s =
     (case scan_hex s of
        None \<Rightarrow> None
      | Some (b, r) \<Rightarrow>
          if n = 0 then Some [b]
          else case r of
            [] \<Rightarrow> None
          | c # r' \<Rightarrow> if c = sep then map_option (Cons b) (scan_bytes sep n r') else None)"

definition scan_mac :: "char \<Rightarrow> string \<Rightarrow> mac_addr option" where
  "scan_mac sep s = scan_bytes sep 6 (takeWhile (\<lambda>c. c \<noteq> nul) s)"

section \<open>A printed address reads back\<close>

lemma hex_digit_val: "n < 16 \<Longrightarrow> hex_val (hex_digit upper n) = Some n"
  by (auto simp: hex_val_def hex_digit_def Let_def)

lemma hex_digit_is_hex [simp]: "n < 16 \<Longrightarrow> is_hex (hex_digit upper n)"
  by (simp add: is_hex_def hex_digit_val)

lemma hex_byte_digits: "unat b div 16 < 16" "unat b mod 16 < 16" for b :: byte
  using byte_lt [of b] by (simp_all add: less_mult_imp_div_less)

lemma is_hex_not:
  "\<not> is_hex (CHR ''-'')" "\<not> is_hex (CHR ''+'')" "\<not> is_hex (CHR '':'')" "\<not> is_hex newline"
  "\<not> is_hex nul" "\<not> is_hex (CHR ''x'')" "\<not> is_hex (CHR ''X'')"
  by code_simp+

lemma is_hex_not_space: "is_hex c \<Longrightarrow> \<not> is_space c"
  by (auto simp: is_space_def) (code_simp+)

lemma byte_via_64: "ucast (ucast b :: 64 word) = b" for b :: byte
  by (rule bit_word_eqI) (simp add: bit_simps)

lemma scan_hex_byte:
  assumes "r = [] \<or> \<not> is_hex (hd r)"
  shows "scan_hex (hex_byte upper b @ r) = Some (b, r)"
proof -
  define h l where hl: "h = hex_digit upper (unat b div 16)" "l = hex_digit upper (unat b mod 16)"
  have hex: "is_hex h" "is_hex l"
    using hex_byte_digits [of b] by (simp_all add: hl)
  have nx: "h \<noteq> CHR ''-''" "h \<noteq> CHR ''+''" "l \<noteq> CHR ''x''" "l \<noteq> CHR ''X''"
    using hex is_hex_not by metis+
  have "takeWhile is_hex r = []" and "dropWhile is_hex r = r"
    using assms by (cases r; simp)+
  moreover have "hex_num [h, l] = 16 * (unat b div 16) + unat b mod 16"
    using hex_byte_digits [of b] by (simp add: hex_num_def hl hex_digit_val)
  moreover have "(case h # l # r of z # x # d # r' \<Rightarrow>
      if z = CHR ''0'' \<and> x \<in> {CHR ''x'', CHR ''X''} \<and> is_hex d then d # r' else h # l # r
    | _ \<Rightarrow> h # l # r) = h # l # r"
    using nx by (cases r) auto
  moreover have "unat b < 2 ^ 64"
    using byte_lt [of b] by simp
  ultimately show ?thesis
    using hex nx is_hex_not_space [OF hex(1)]
    by (simp add: hex_byte_def scan_hex_def strtou64_def c_hd_def byte_via_64 flip: hl)
qed

lemma scan_bytes_join:
  assumes "\<not> is_hex sep" and "r = [] \<or> \<not> is_hex (hd r)" and "m \<noteq> []"
  shows "scan_bytes sep (length m) (join sep (map (hex_byte upper) m) @ r) = Some m"
  using assms(3)
proof (induction m rule: list_nonempty_induct)
  case (single b)
  then show ?case using assms(2) by (simp add: scan_hex_byte)
next
  case (cons b m)
  then obtain s ss where m: "map (hex_byte upper) m = s # ss"
    by (cases m) auto
  have "scan_hex (hex_byte upper b @ sep # (join sep (map (hex_byte upper) m) @ r))
      = Some (b, sep # (join sep (map (hex_byte upper) m) @ r))"
    using assms(1) by (intro scan_hex_byte) simp
  then show ?case using cons m by simp
qed

lemma length_join:
  "\<forall>s \<in> set ss. length s = 2 \<Longrightarrow> length (join sep ss) = 3 * length ss - 1"
  by (induction sep ss rule: join.induct) auto

lemma length_hex_byte [simp]: "length (hex_byte upper b) = 2"
  by (simp add: hex_byte_def)

lemma set_join: "set (join sep ss) \<subseteq> insert sep (\<Union> (set ` set ss))"
  by (induction sep ss rule: join.induct) auto

text \<open>Six bytes fit the buffer of 18.\<close>

lemma mac_text_fits:
  assumes "length m = 6"
  shows "mac_text upper sep m = join sep (map (hex_byte upper) m)" and "length (mac_text upper sep m) = 17"
proof -
  have "length (join sep (map (hex_byte upper) m)) = 17"
    using assms by (subst length_join) simp_all
  then show "mac_text upper sep m = join sep (map (hex_byte upper) m)"
    and "length (mac_text upper sep m) = 17"
    by (simp_all add: mac_text_def snprintf_def)
qed

lemma mac_text_chars:
  assumes "length m = 6" and "c \<in> set (mac_text upper sep m)"
  shows "c = sep \<or> is_hex c"
proof -
  have "c \<in> insert sep (\<Union> (set ` set (map (hex_byte upper) m)))"
    using assms set_join [of sep "map (hex_byte upper) m"] by (auto simp: mac_text_fits)
  then show ?thesis
    using hex_byte_digits by (auto simp: hex_byte_def)
qed

lemma scan_mac_text:
  assumes "length m = 6" and "\<not> is_hex sep" and "sep \<noteq> nul" and "r = [] \<or> hd r = nul \<or> \<not> is_hex (hd r)"
  shows "scan_mac sep (mac_text upper sep m @ r) = Some m"
proof -
  have "c \<noteq> nul" if "c \<in> set (mac_text upper sep m)" for c
    using mac_text_chars [OF assms(1) that] assms(3) is_hex_not(5) by metis
  then have "takeWhile (\<lambda>c. c \<noteq> nul) (mac_text upper sep m @ r)
      = mac_text upper sep m @ takeWhile (\<lambda>c. c \<noteq> nul) r"
    by (simp add: takeWhile_append2)
  moreover have "takeWhile (\<lambda>c. c \<noteq> nul) r = [] \<or> \<not> is_hex (hd (takeWhile (\<lambda>c. c \<noteq> nul) r))"
    using assms(4) by (cases r) auto
  then have "scan_bytes sep (length m) (join sep (map (hex_byte upper) m) @ takeWhile (\<lambda>c. c \<noteq> nul) r)
      = Some m"
    using assms(1,2) by (intro scan_bytes_join) auto
  ultimately show ?thesis
    using assms(1) by (simp add: scan_mac_def mac_text_fits)
qed

section \<open>Interfaces\<close>

text \<open>A codec of MAC addresses: what is written to the map reads back.\<close>

locale mac_codec =
  fixes print :: "mac_addr \<Rightarrow> string" and parse :: "string \<Rightarrow> mac_addr option"
  assumes parse_print: "length m = 6 \<Longrightarrow> parse (print m) = Some m"
begin

lemma print_inj: "length m = 6 \<Longrightarrow> length n = 6 \<Longrightarrow> print m = print n \<longleftrightarrow> m = n"
  using parse_print by (metis option.inject)

end

text \<open>
  The map from own MACs to router MACs. \<open>view s h\<close> is what the store holds for \<open>h\<close>; a lookup
  returns that or fails, an update changes at most its own entry and only to the new value.
  \<open>fine\<close> is what the platform has to promise about its writes. The conclusion: as long as
  every update associates an own MAC with a router MAC of some relation \<open>G\<close>, for example
  routers resolved on that network, every lookup returns a router MAC of \<open>G\<close>.
\<close>

locale mac_cache =
  fixes fine :: bool
    and view :: "'s \<Rightarrow> mac_addr \<Rightarrow> mac_addr option"
    and look :: "mac_addr \<Rightarrow> ('s, mac_addr option) prog"
    and put :: "mac_addr \<Rightarrow> mac_addr \<Rightarrow> ('s, unit) prog"
  assumes look_law: "length h = 6 \<Longrightarrow> wp (look h) (\<lambda>r t. (r = None \<or> r = view s h) \<and> view t = view s) s"
    and put_law: "fine \<Longrightarrow> length h = 6 \<Longrightarrow> length r = 6 \<Longrightarrow>
      wp (put h r) (\<lambda>_ t. (view t h = view s h \<or> view t h = Some r) \<and>
        (\<forall>h'. length h' = 6 \<longrightarrow> h' \<noteq> h \<longrightarrow> view t h' = view s h')) s"
begin

definition all_good :: "(mac_addr \<Rightarrow> mac_addr \<Rightarrow> bool) \<Rightarrow> 's \<Rightarrow> bool" where
  "all_good G s \<longleftrightarrow> (\<forall>h r. length h = 6 \<longrightarrow> view s h = Some r \<longrightarrow> G h r)"

lemma look_good:
  "all_good G s \<Longrightarrow> length h = 6 \<Longrightarrow>
    wp (look h) (\<lambda>r t. (\<forall>m. r = Some m \<longrightarrow> G h m) \<and> all_good G t) s"
  by (rule wp_mono [OF look_law]) (auto simp: all_good_def)

lemma put_good:
  assumes "fine" and "all_good G s" and "length h = 6" and "length r = 6" and "G h r"
  shows "wp (put h r) (\<lambda>_. all_good G) s"
proof (rule wp_mono [OF put_law [OF assms(1,3,4)]])
  fix t
  assume "(view t h = view s h \<or> view t h = Some r) \<and>
    (\<forall>h'. length h' = 6 \<longrightarrow> h' \<noteq> h \<longrightarrow> view t h' = view s h')"
  then show "all_good G t"
    using assms(2,5) unfolding all_good_def by (metis option.inject)
qed

end

interpretation mac_text_codec: mac_codec "mac_text upper CHR '':''" "scan_mac CHR '':''" for upper
  by unfold_locales (use scan_mac_text [where r = "[]"] is_hex_not(3) in \<open>simp add: nul_def\<close>)

end
