(* ===== verification/Macos_Cache.thy ===== *)
theory Macos_Cache
  imports Macos_Scan Mac_Text
begin

text \<open>
  The state of the macOS daemon, its child processes (\<open>run\<close>), the interface's own address
  (\<open>iface_lladdr\<close>) and the persistent map of router addresses (\<open>router_cache_path\<close>,
  \<open>router_cache_lookup\<close>, \<open>router_cache_put\<close>) of \<^verbatim>\<open>host/macos/v4gwd-arp.c\<close>.

  The map is a directory of files, the \<open>files\<close> of the state. Whether a file opens, how much of
  a write reaches it and whether a rename succeeds is the system's choice; \<open>whole_writes\<close> is
  the promise under which the map is an instance of \<open>mac_cache\<close>.
\<close>

section \<open>State\<close>

text \<open>
  The history: the commands that were run, the lines sent to \<open>syslog\<close>, and the lines of the
  dry run.
\<close>

datatype mc_event =
    Ev_run "string list" int   \<comment> \<open>a command that ran, and what \<open>run\<close> returned\<close>
  | Log_arp_failed string
  | Log_arp_set string
  | Log_arp_withdrew string
  | Log_waiting
  | Rep_no_interface
  | Rep_header u32
  | Rep_fib bool
  | Rep_file bool
  | Rep_no_router
  | Rep_router in6_addr
  | Rep_unresolved
  | Rep_lladdr string
  | Rep_would "string list"

record 'k mc_state = "('k, mc_event) os_state" +
  mc_running :: bool
  mc_ifname :: string
  mc_ifindex :: u32
  mc_require_route :: bool
  mc_sentinel_file :: "string option"
  mc_interval :: int
  mc_dry_run :: bool
  mc_rtsock :: int
  mc_installed :: bool       \<comment> \<open>\<open>arp_installed\<close>\<close>
  mc_mac :: mac_addr         \<comment> \<open>\<open>installed_mac\<close>\<close>
  mc_sentinel_str :: string
  mc_sentinel_addr :: in_addr

datatype wait_result = Wait_status u32 | Wait_error int

record ifaddr =
  ifa_name :: string
  ifa_addr :: "byte list option"

record 'k mc_sys = "'k bsd_sys" +
  sys_fork :: "string list \<Rightarrow> 'k \<Rightarrow> int \<times> 'k"
    \<comment> \<open>a child that executes this command with its output discarded: its process id, or -1\<close>
  sys_waitpid :: "int \<Rightarrow> 'k \<Rightarrow> wait_result \<times> 'k"
  sys_mkdir :: "string \<Rightarrow> 'k \<Rightarrow> bool \<times> 'k"
  sys_fopen_w :: "string \<Rightarrow> 'k \<Rightarrow> bool \<times> 'k"
  sys_write_out :: "string \<Rightarrow> string \<Rightarrow> 'k \<Rightarrow> nat \<times> 'k"
    \<comment> \<open>how much of a text written and closed has reached the file\<close>
  sys_rename :: "string \<Rightarrow> string \<Rightarrow> 'k \<Rightarrow> bool \<times> 'k"
  sys_getifaddrs :: "'k \<Rightarrow> ifaddr list option \<times> 'k"

section \<open>Child processes\<close>

definition EINTR :: int where "EINTR = 4"

definition WIFEXITED :: "u32 \<Rightarrow> bool" where
  "WIFEXITED status \<longleftrightarrow> status AND 0x7f = 0"

definition WEXITSTATUS :: "u32 \<Rightarrow> u32" where
  "WEXITSTATUS status = drop_bit 8 status AND 0xff"

text \<open>
  \<open>while (waitpid(pid, &status, 0) < 0 && errno == EINTR) ;\<close> the status it leaves, \<open>None\<close>
  when it is left uninitialised.
\<close>

partial_function (option) wait_loop ::
    "('k, 'x) mc_sys_scheme \<Rightarrow> int \<Rightarrow> 'k mc_state \<Rightarrow> (u32 option \<times> 'k mc_state) option" where
  "wait_loop S pid s =
     (case fst (sys_waitpid S pid (kern s)) of
        Wait_status st \<Rightarrow> Some (Some st, s\<lparr>kern := snd (sys_waitpid S pid (kern s))\<rparr>)
      | Wait_error e \<Rightarrow>
          if e = EINTR then wait_loop S pid (s\<lparr>kern := snd (sys_waitpid S pid (kern s))\<rparr>)
          else Some (None, s\<lparr>kern := snd (sys_waitpid S pid (kern s))\<rparr>))"

definition run :: "('k, 'x) mc_sys_scheme \<Rightarrow> string list \<Rightarrow> ('k mc_state, int) prog" where
  "run S argv =
     bnd (kcall (sys_fork S argv)) (\<lambda>pid.
     if pid < 0 then ret (-1)
     else
       bnd (wait_loop S pid) (\<lambda>st.
       bnd (of_opt st) (\<lambda>status.
       let r = (if WIFEXITED status \<and> WEXITSTATUS status = 0 then 0 else -1) in
       bnd (emit (Ev_run argv r)) (\<lambda>_.
       ret r))))"

section \<open>The interface's own address\<close>

fun iface_scan :: "string \<Rightarrow> ifaddr list \<Rightarrow> mac_addr option option" where
  "iface_scan ifn [] = Some None"
| "iface_scan ifn (ifa # ifas) =
     (case ifa_addr ifa of
        None \<Rightarrow> iface_scan ifn ifas
      | Some sa \<Rightarrow> do {
          fam \<leftarrow> sa_family sa 0;
          if fam \<noteq> AF_LINK \<or> ifa_name ifa \<noteq> ifn then iface_scan ifn ifas
          else do {
            alen \<leftarrow> sdl_alen sa 0;
            if alen = 6 then do { mac \<leftarrow> sdl_lladdr sa 0 6; Some (Some mac) }
            else iface_scan ifn ifas
          }
        })"

definition iface_lladdr ::
    "('k, 'x) mc_sys_scheme \<Rightarrow> string \<Rightarrow> ('k mc_state, mac_addr option) prog" where
  "iface_lladdr S ifn =
     bnd (kcall (sys_getifaddrs S)) (\<lambda>r.
     case r of None \<Rightarrow> ret None | Some ifas \<Rightarrow> of_opt (iface_scan ifn ifas))"

section \<open>The map of router addresses\<close>

definition ROUTER_CACHE_DIR :: string where
  "ROUTER_CACHE_DIR = ''/var/db/v4gwd-arp''"

definition router_cache_path :: "mac_addr \<Rightarrow> nat \<Rightarrow> string" where
  "router_cache_path host outlen = snprintf outlen (ROUTER_CACHE_DIR @ ''/'' @ mac_str host)"

definition router_cache_lookup ::
    "('k, 'x) mc_sys_scheme \<Rightarrow> mac_addr \<Rightarrow> ('k mc_state, mac_addr option) prog" where
  "router_cache_lookup S host =
     bnd (read_line S (router_cache_path host 64) 32) (\<lambda>line.
     ret (case line of None \<Rightarrow> None | Some l \<Rightarrow> scan_mac (CHR '':'') l))"

definition router_cache_put ::
    "('k, 'x) mc_sys_scheme \<Rightarrow> mac_addr \<Rightarrow> mac_addr \<Rightarrow> ('k mc_state, unit) prog" where
  "router_cache_put S host router =
     bnd (router_cache_lookup S host) (\<lambda>cur.
     if (case cur of None \<Rightarrow> False | Some c \<Rightarrow> memcmp c router = 0) then ret ()
     else
       bnd (kcall (sys_mkdir S ROUTER_CACHE_DIR)) (\<lambda>_.
       let path = router_cache_path host 64;
           tmp = snprintf 72 (path @ ''.tmp'');
           text = mac_str router @ [newline] in
       bnd (kcall (sys_fopen_w S tmp)) (\<lambda>ok.
       if \<not> ok then ret ()
       else
         bnd (modify (\<lambda>s. s\<lparr>files := (files s)(tmp \<mapsto> [])\<rparr>)) (\<lambda>_.
         bnd (kcall (sys_write_out S tmp text)) (\<lambda>n.
         bnd (modify (\<lambda>s. s\<lparr>files := (files s)(tmp \<mapsto> take n text)\<rparr>)) (\<lambda>_.
         bnd (kcall (sys_rename S tmp path)) (\<lambda>renamed.
         modify (\<lambda>s. if renamed then s\<lparr>files := (files s)(path := files s tmp, tmp := None)\<rparr>
           else s))))))))"

section \<open>Waiting for a child\<close>

text \<open>A wait that is interrupted a number of times and then reports a status.\<close>

inductive waits :: "('k, 'x) mc_sys_scheme \<Rightarrow> int \<Rightarrow> 'k \<Rightarrow> bool" for S pid where
  wait_done: "fst (sys_waitpid S pid k) = Wait_status st \<Longrightarrow> waits S pid k"
| wait_again: "fst (sys_waitpid S pid k) = Wait_error EINTR \<Longrightarrow>
    waits S pid (snd (sys_waitpid S pid k)) \<Longrightarrow> waits S pid k"

definition wait_ok :: "('k, 'x) mc_sys_scheme \<Rightarrow> bool" where
  "wait_ok S \<longleftrightarrow> (\<forall>argv k pid k'. sys_fork S argv k = (pid, k') \<longrightarrow> 0 \<le> pid \<longrightarrow> waits S pid k')"

lemma wait_loop_waits:
  assumes "waits S pid k"
  shows "\<exists>st k'. wait_loop S pid (s\<lparr>kern := k\<rparr>) = Some (Some st, s\<lparr>kern := k'\<rparr>)"
  using assms
proof (induction rule: waits.induct)
  case (wait_done k st)
  then show ?case by (subst wait_loop.simps) auto
next
  case (wait_again k)
  then show ?case by (subst wait_loop.simps) simp
qed

lemma wait_loop_kern:
  assumes "wait_loop S pid s = Some r"
  shows "\<exists>k. snd r = s\<lparr>kern := k\<rparr>"
proof (rule wait_loop.raw_induct [where P = "\<lambda>S pid s r. \<exists>k. snd r = s\<lparr>kern := k\<rparr>", OF _ assms])
  fix wl :: "('k, 'x) mc_sys_scheme \<Rightarrow> int \<Rightarrow> 'k mc_state \<Rightarrow> (u32 option \<times> 'k mc_state) option"
    and S pid s r
  assume IH: "\<And>S pid s r. wl S pid s = Some r \<Longrightarrow> \<exists>k. snd r = s\<lparr>kern := k\<rparr>"
    and "(case fst (sys_waitpid S pid (kern s)) of
        Wait_status st \<Rightarrow> Some (Some st, s\<lparr>kern := snd (sys_waitpid S pid (kern s))\<rparr>)
      | Wait_error e \<Rightarrow>
          if e = EINTR then wl S pid (s\<lparr>kern := snd (sys_waitpid S pid (kern s))\<rparr>)
          else Some (None, s\<lparr>kern := snd (sys_waitpid S pid (kern s))\<rparr>)) = Some r"
  then show "\<exists>k. snd r = s\<lparr>kern := k\<rparr>"
    using IH [of S pid "s\<lparr>kern := snd (sys_waitpid S pid (kern s))\<rparr>" r]
    by (auto split: wait_result.splits if_splits)
qed

lemma kern_only_wait_loop: "wait_loop S pid s = Some (r, t) \<Longrightarrow> \<exists>k. t = s\<lparr>kern := k\<rparr>"
  using wait_loop_kern [of S pid s "(r, t)"] by simp

text \<open>Conversely, the loop leaves a status only after such a wait.\<close>

lemma wait_loop_returns:
  assumes "wait_loop S pid s = Some r"
  shows "fst r \<noteq> None \<longrightarrow> waits S pid (kern s)"
proof (rule wait_loop.raw_induct
    [where P = "\<lambda>S pid s r. fst r \<noteq> None \<longrightarrow> waits S pid (kern s)", OF _ assms])
  fix wl :: "('k, 'x) mc_sys_scheme \<Rightarrow> int \<Rightarrow> 'k mc_state \<Rightarrow> (u32 option \<times> 'k mc_state) option"
    and S pid s r
  assume IH: "\<And>S pid s r. wl S pid s = Some r \<Longrightarrow> fst r \<noteq> None \<longrightarrow> waits S pid (kern s)"
    and body: "(case fst (sys_waitpid S pid (kern s)) of
        Wait_status st \<Rightarrow> Some (Some st, s\<lparr>kern := snd (sys_waitpid S pid (kern s))\<rparr>)
      | Wait_error e \<Rightarrow>
          if e = EINTR then wl S pid (s\<lparr>kern := snd (sys_waitpid S pid (kern s))\<rparr>)
          else Some (None, s\<lparr>kern := snd (sys_waitpid S pid (kern s))\<rparr>)) = Some r"
  show "fst r \<noteq> None \<longrightarrow> waits S pid (kern s)"
  proof (cases "fst (sys_waitpid S pid (kern s))")
    case (Wait_status st)
    then show ?thesis by (simp add: waits.wait_done)
  next
    case (Wait_error e)
    then show ?thesis
      using body IH [of S pid "s\<lparr>kern := snd (sys_waitpid S pid (kern s))\<rparr>" r]
      by (auto intro: waits.wait_again split: if_splits)
  qed
qed

lemma run_returns:
  assumes fork: "sys_fork S argv (kern s) = (pid, k)"
  shows "run S argv s \<noteq> None \<longleftrightarrow> pid < 0 \<or> waits S pid k"
proof (cases "pid < 0")
  case True
  then show ?thesis using fork by (simp add: run_def bnd_def kcall_def ret_def)
next
  case False
  have "waits S pid k" if "wait_loop S pid (s\<lparr>kern := k\<rparr>) = Some (Some st, t)" for st t
    using wait_loop_returns [OF that] by simp
  then have "waits S pid k \<longleftrightarrow> (\<exists>st t. wait_loop S pid (s\<lparr>kern := k\<rparr>) = Some (Some st, t))"
    using wait_loop_waits [of S pid k s] by blast
  then show ?thesis
    using False fork
    by (auto simp: run_def bnd_def kcall_def of_opt_def emit_def modify_def ret_def Let_def
        split: option.splits)
qed

text \<open>A command changes the world and the history, nothing else.\<close>

lemma wlp_run:
  assumes fail: "\<And>k. Q (-1) (s\<lparr>kern := k\<rparr>)"
    and ran: "\<And>r k. r \<in> {0, -1} \<Longrightarrow> Q r (s\<lparr>kern := k, out := out s @ [Ev_run argv r]\<rparr>)"
  shows "wlp (run S argv) Q s"
proof -
  have "wlp (bnd (of_opt st) (\<lambda>status.
      let r = (if WIFEXITED status \<and> WEXITSTATUS status = 0 then 0 else -1) in
      bnd (emit (Ev_run argv r)) (\<lambda>_. ret r))) Q t"
    if waited: "wait_loop S pid (s\<lparr>kern := k\<rparr>) = Some (st, t)" for st t pid k
  proof -
    obtain k' where "t = s\<lparr>kern := k'\<rparr>"
      using kern_only_wait_loop [OF waited] by auto
    then show ?thesis
      using ran [of 0 k'] ran [of "-1" k'] by (auto simp: wp_simps Let_def split: option.split)
  qed
  then have "wlp (wait_loop S pid) (\<lambda>st. wlp (bnd (of_opt st) (\<lambda>status.
      let r = (if WIFEXITED status \<and> WEXITSTATUS status = 0 then 0 else -1) in
      bnd (emit (Ev_run argv r)) (\<lambda>_. ret r))) Q) (s\<lparr>kern := k\<rparr>)" for pid k
    by (auto simp: wlp_def [of "wait_loop S pid"] split: option.split)
  then show ?thesis
    using fail by (simp only: run_def wlp_bnd wlp_kcall wlp_if wlp_ret if_cancel)
qed

lemma wp_run:
  assumes "wait_ok S" and fail: "\<And>k. Q (-1) (s\<lparr>kern := k\<rparr>)"
    and ran: "\<And>r k. r \<in> {0, -1} \<Longrightarrow> Q r (s\<lparr>kern := k, out := out s @ [Ev_run argv r]\<rparr>)"
  shows "wp (run S argv) Q s"
proof -
  obtain pid k where fork: "sys_fork S argv (kern s) = (pid, k)" by fastforce
  have "run S argv s \<noteq> None"
  proof (cases "pid < 0")
    case True
    then show ?thesis using fork by (simp add: run_def bnd_def kcall_def ret_def)
  next
    case False
    then obtain st k' where "wait_loop S pid (s\<lparr>kern := k\<rparr>) = Some (Some st, s\<lparr>kern := k'\<rparr>)"
      using assms(1) fork wait_loop_waits unfolding wait_ok_def by (metis not_less)
    then show ?thesis
      using False fork
      by (simp add: run_def bnd_def kcall_def emit_def modify_def of_opt_def ret_def Let_def)
  qed
  then show ?thesis
    using wlp_run [of Q s argv S, OF fail ran] by (auto simp: wp_def wlp_def split: option.splits)
qed

text \<open>A command that runs at once with some status.\<close>

definition runs :: "('k, 'x) mc_sys_scheme \<Rightarrow> string list \<Rightarrow> 'k \<Rightarrow> u32 \<Rightarrow> 'k \<Rightarrow> bool" where
  "runs S argv k st k' \<longleftrightarrow> (\<exists>pid k1. sys_fork S argv k = (pid, k1) \<and> 0 \<le> pid \<and>
     sys_waitpid S pid k1 = (Wait_status st, k'))"

definition exit_code :: "u32 \<Rightarrow> int" where
  "exit_code st = (if WIFEXITED st \<and> WEXITSTATUS st = 0 then 0 else -1)"

lemma run_runs:
  assumes "runs S argv (kern s) st k"
  shows "run S argv s = Some (exit_code st,
    s\<lparr>kern := k, out := out s @ [Ev_run argv (exit_code st)]\<rparr>)"
proof -
  obtain pid k1 where "sys_fork S argv (kern s) = (pid, k1)" "0 \<le> pid"
    and w: "sys_waitpid S pid k1 = (Wait_status st, k)"
    using assms by (auto simp: runs_def)
  then show ?thesis
    by (simp add: run_def bnd_def kcall_def emit_def modify_def of_opt_def ret_def Let_def exit_code_def)
      (simp add: wait_loop.simps w)
qed

section \<open>The map is one\<close>

text \<open>What the directory holds for an own MAC.\<close>

definition cache_view :: "'k mc_state \<Rightarrow> mac_addr \<Rightarrow> mac_addr option" where
  "cache_view s host =
     (case files s (router_cache_path host 64) of
        None \<Rightarrow> None
      | Some c \<Rightarrow> (case fgets 32 c of None \<Rightarrow> None | Some l \<Rightarrow> scan_mac (CHR '':'') l))"

definition whole_writes :: "('k, 'x) mc_sys_scheme \<Rightarrow> bool" where
  "whole_writes S \<longleftrightarrow> (\<forall>p text k. length text \<le> fst (sys_write_out S p text k))"

lemma cache_path:
  assumes "length host = 6"
  shows "router_cache_path host 64 = ROUTER_CACHE_DIR @ ''/'' @ mac_str host"
    and "length (router_cache_path host 64) = 35"
  using assms mac_text_fits(2) [of host] by (simp_all add: router_cache_path_def snprintf_def
      ROUTER_CACHE_DIR_def mac_str_def)

lemma cache_path_inj:
  "length h = 6 \<Longrightarrow> length h' = 6 \<Longrightarrow> router_cache_path h 64 = router_cache_path h' 64 \<longleftrightarrow> h = h'"
  using mac_text_codec.print_inj [of h h'] by (simp add: cache_path mac_str_def)

lemma fgets_line:
  "newline \<notin> set b \<Longrightarrow> length b < n \<Longrightarrow> fgets_take n (b @ newline # r) = b @ [newline]"
proof (induction b arbitrary: n)
  case Nil
  then show ?case by (cases n) auto
next
  case (Cons c b)
  then show ?case by (cases n) auto
qed

lemma scan_stored:
  assumes "length m = 6"
  shows "(case fgets 32 (mac_str m @ [newline]) of None \<Rightarrow> None | Some l \<Rightarrow> scan_mac (CHR '':'') l) = Some m"
proof -
  have "newline \<notin> set (mac_str m)"
    using mac_text_chars [OF assms] is_hex_not(4) unfolding mac_str_def newline_def by fastforce
  then have "fgets 32 (mac_str m @ [newline]) = Some (mac_str m @ [newline])"
    using assms fgets_line [of "mac_str m" 31 "[]"] mac_text_fits(2) [of m] by (simp add: fgets_def mac_str_def)
  then show ?thesis
    using assms scan_mac_text [of m "CHR '':''" "[newline]"] is_hex_not by (simp add: mac_str_def nul_def)
qed

lemma cache_look_law:
  "wp (router_cache_lookup S host) (\<lambda>r t. (r = None \<or> r = cache_view s host) \<and>
    cache_view t = cache_view s) s"
  by (auto simp: router_cache_lookup_def read_line_def wp_simps cache_view_def fun_eq_iff
      split: option.splits)

lemma kern_only_cache_look [frame_intros]: "kern_only (router_cache_lookup S host)"
  unfolding router_cache_lookup_def by (intro frame_intros)

lemma safe_cache_look [safe_intros]: "safe (router_cache_lookup S host)"
  unfolding router_cache_lookup_def by (intro safe_intros)

text \<open>What an update leaves in the directory.\<close>

definition cache_tmp :: "mac_addr \<Rightarrow> string" where
  "cache_tmp host = snprintf 72 (router_cache_path host 64 @ ''.tmp'')"

lemma cache_tmp_fresh:
  "length host = 6 \<Longrightarrow> length h = 6 \<Longrightarrow> router_cache_path h 64 \<noteq> cache_tmp host"
proof
  assume len: "length host = 6" "length h = 6" and eq: "router_cache_path h 64 = cache_tmp host"
  have "length (cache_tmp host) = 39"
    using cache_path(2) [OF len(1)] by (simp add: cache_tmp_def snprintf_def)
  then show False using eq cache_path(2) [OF len(2)] by simp
qed

lemma cache_view_files:
  "files t (router_cache_path h 64) = files s (router_cache_path h 64) \<Longrightarrow> cache_view t h = cache_view s h"
  by (simp add: cache_view_def)

text \<open>
  The state after an update: the rest is as before, and the entry is the old one or what of the
  new text was written.
\<close>

definition same_but_files :: "'k mc_state \<Rightarrow> 'k mc_state \<Rightarrow> bool" where
  "same_but_files s t \<longleftrightarrow> (\<exists>k fs. t = s\<lparr>kern := k, files := fs\<rparr>)"

lemma same_but_files_upd: "same_but_files s (s\<lparr>kern := k, files := fs\<rparr>)" "same_but_files s (s\<lparr>kern := k\<rparr>)"
  "same_but_files s s"
proof -
  show "same_but_files s (s\<lparr>kern := k, files := fs\<rparr>)" by (auto simp: same_but_files_def)
  have "s\<lparr>kern := k\<rparr> = s\<lparr>kern := k, files := files s\<rparr>" "s = s\<lparr>kern := kern s, files := files s\<rparr>"
    by simp_all
  then show "same_but_files s (s\<lparr>kern := k\<rparr>)" "same_but_files s s"
    unfolding same_but_files_def by blast+
qed

lemma put_effect:
  assumes host: "length host = 6"
  shows "wp (router_cache_put S host router) (\<lambda>_ t. same_but_files s t \<and>
    (files t (router_cache_path host 64) = files s (router_cache_path host 64) \<or>
     (\<exists>k tmp. files t (router_cache_path host 64) = Some (take
       (fst (sys_write_out S tmp (mac_str router @ [newline]) k)) (mac_str router @ [newline])))) \<and>
    (\<forall>h. length h = 6 \<longrightarrow> h \<noteq> host \<longrightarrow>
      files t (router_cache_path h 64) = files s (router_cache_path h 64))) s"
proof -
  have tmp: "snprintf 72 (router_cache_path host 64 @ ''.tmp'') = cache_tmp host"
    by (simp add: cache_tmp_def)
  note upd = same_but_files_upd [where s = s]
  have look: "wp (router_cache_lookup S host) Q s" if "\<And>r k. Q r (s\<lparr>kern := k\<rparr>)" for Q
    by (rule wp_read [OF safe_cache_look kern_only_cache_look returns_True]) (rule that)
  have files_kern: "s\<lparr>files := fs, kern := k\<rparr> = s\<lparr>kern := k, files := fs\<rparr>" for fs k
    by simp
  show ?thesis
    unfolding router_cache_put_def wp_bnd Let_def tmp
    using host
    by (intro look)
      (auto simp: wp_if wp_ret wp_bnd wp_kcall wp_modify upd files_kern cache_path_inj
        cache_tmp_fresh cache_tmp_fresh [symmetric])
qed

lemma cache_put_law:
  fixes S :: "('k, 'x) mc_sys_scheme"
  assumes "whole_writes S" and host: "length host = 6" and router: "length router = 6"
  shows "wp (router_cache_put S host router) (\<lambda>_ t.
    (cache_view t host = cache_view s host \<or> cache_view t host = Some router) \<and>
    (\<forall>h. length h = 6 \<longrightarrow> h \<noteq> host \<longrightarrow> cache_view t h = cache_view s h)) s"
proof (rule wp_mono [OF put_effect [OF host]], elim conjE, intro conjI)
  fix t :: "'k mc_state"
  have whole: "take (fst (sys_write_out S tmp (mac_str router @ [newline]) k)) (mac_str router @ [newline])
      = mac_str router @ [newline]" for tmp k
    using assms(1) by (simp only: whole_writes_def take_all)
  assume "files t (router_cache_path host 64) = files s (router_cache_path host 64) \<or>
     (\<exists>k tmp. files t (router_cache_path host 64) = Some (take
       (fst (sys_write_out S tmp (mac_str router @ [newline]) k)) (mac_str router @ [newline])))"
  then have "files t (router_cache_path host 64) = files s (router_cache_path host 64) \<or>
      files t (router_cache_path host 64) = Some (mac_str router @ [newline])"
    unfolding whole by blast
  then show "cache_view t host = cache_view s host \<or> cache_view t host = Some router"
    using scan_stored [OF router] by (auto simp: cache_view_def)
qed (blast intro: cache_view_files)

interpretation mc_cache: mac_cache "whole_writes S" cache_view "router_cache_lookup S" "router_cache_put S"
  for S
  by unfold_locales (rule cache_look_law, rule cache_put_law)

end
