(* ===== verification/Macos_Daemon.thy ===== *)
theory Macos_Daemon
  imports Macos_Cache Daemon_Loop
begin

text \<open>
  The macOS daemon (\<open>install\<close>, \<open>withdraw\<close>, \<open>sentinel_in_file\<close>, \<open>reconcile\<close>,
  \<open>dry_run_report\<close>, \<open>handle_sig\<close> and \<open>main\<close> of \<^verbatim>\<open>host/macos/v4gwd-arp.c\<close>). Names that the
  FreeBSD daemon has too carry the suffix \<open>_arp\<close>.

  As for FreeBSD, \<open>reconcile_arp\<close> is the code and \<open>reconcile_arp_split\<close> shows it equal to an
  observation of the world followed by one action.
\<close>

section \<open>Programming the ARP entry\<close>

definition arp_s :: "string \<Rightarrow> string \<Rightarrow> mac_addr \<Rightarrow> string list" where
  "arp_s sentinel_str ifname mac =
     [''/usr/sbin/arp'', ''-s'', sentinel_str, mac_str mac, ''ifscope'', snprintf 16 ifname]"

definition arp_d :: "string \<Rightarrow> string \<Rightarrow> string list" where
  "arp_d sentinel_str ifname =
     [''/usr/sbin/arp'', ''-d'', sentinel_str, ''ifscope'', snprintf 16 ifname]"

definition install_arp :: "('k, 'x) mc_sys_scheme \<Rightarrow> mac_addr \<Rightarrow> ('k mc_state, unit) prog" where
  "install_arp S mac =
     bnd (gets id) (\<lambda>s.
     bnd (if mc_installed s \<and> memcmp (mc_mac s) mac = 0
          then arp_entry_present S (mc_ifindex s) (mc_sentinel_addr s) mac
          else ret False) (\<lambda>present.
     if present then ret ()
     else
       bnd (run S (arp_s (mc_sentinel_str s) (mc_ifname s) mac)) (\<lambda>r.
       if r \<noteq> 0 then emit (Log_arp_failed (mac_str mac))
       else
         bnd (emit (Log_arp_set (mac_str mac))) (\<lambda>_.
         modify (\<lambda>s. s\<lparr>mc_installed := True, mc_mac := mac\<rparr>)))))"

definition withdraw_arp :: "('k, 'x) mc_sys_scheme \<Rightarrow> string \<Rightarrow> ('k mc_state, unit) prog" where
  "withdraw_arp S reason =
     bnd (gets id) (\<lambda>s.
     if \<not> mc_installed s then ret ()
     else
       bnd (run S (arp_d (mc_sentinel_str s) (mc_ifname s))) (\<lambda>_.
       bnd (emit (Log_arp_withdrew reason)) (\<lambda>_.
       modify (\<lambda>s. s\<lparr>mc_installed := False\<rparr>))))"

section \<open>Reconciliation\<close>

definition sentinel_in_file_arp ::
    "('k, 'x) mc_sys_scheme \<Rightarrow> string \<Rightarrow> string \<Rightarrow> ('k mc_state, bool) prog" where
  "sentinel_in_file_arp S sentinel_file sentinel_str =
     bnd (read_line S sentinel_file 64) (\<lambda>line.
     ret (case line of None \<Rightarrow> False
                     | Some buf \<Rightarrow> strncmp_eq buf sentinel_str (length sentinel_str)))"

text \<open>\<open>find_default_router(&gw) && router_lladdr(&gw, mac)\<close>\<close>

definition resolve_router ::
    "('k, 'x) mc_sys_scheme \<Rightarrow> u32 \<Rightarrow> ('k mc_state, mac_addr option) prog" where
  "resolve_router S ifindex =
     bnd (find_default_router S ifindex) (\<lambda>r.
     case r of None \<Rightarrow> ret None | Some gw \<Rightarrow> router_lladdr S ifindex gw)"

definition reconcile_arp :: "('k, 'x) mc_sys_scheme \<Rightarrow> ('k mc_state, unit) prog" where
  "reconcile_arp S =
     bnd (gets mc_ifname) (\<lambda>ifname.
     bnd (kcall (sys_if_nametoindex S ifname)) (\<lambda>ifindex.
     bnd (modify (\<lambda>s. s\<lparr>mc_ifindex := ifindex\<rparr>)) (\<lambda>_.
     if ifindex = 0 then modify (\<lambda>s. s\<lparr>mc_installed := False\<rparr>)
     else
       bnd (gets id) (\<lambda>s.
       bnd (case mc_sentinel_file s of
              None \<Rightarrow> ret True
            | Some f \<Rightarrow> sentinel_in_file_arp S f (mc_sentinel_str s)) (\<lambda>ok.
       if \<not> ok then withdraw_arp S ''sentinel state cleared; ceasing per draft s4''
       else
         bnd (if mc_require_route s then sentinel_in_fib_arp S (mc_sentinel_addr s) else ret True) (\<lambda>ok.
         if \<not> ok then withdraw_arp S ''sentinel 192.0.0.11 route removed; ceasing per draft s4''
         else
           bnd (iface_lladdr S (mc_ifname s)) (\<lambda>host_mac.
           bnd (resolve_router S ifindex) (\<lambda>r.
           case r of
             Some mac \<Rightarrow>
               bnd (install_arp S mac) (\<lambda>_.
               case host_mac of None \<Rightarrow> ret () | Some h \<Rightarrow> router_cache_put S h mac)
           | None \<Rightarrow>
               bnd (case host_mac of None \<Rightarrow> ret None | Some h \<Rightarrow> router_cache_lookup S h) (\<lambda>c.
               case c of
                 Some cached \<Rightarrow> install_arp S cached
               | None \<Rightarrow> withdraw_arp S
                   ''no IPv6 default router resolved yet; ceding to ARP bootstrap'')))))))))"

section \<open>The dry run\<close>

text \<open>What \<open>-n\<close> prints, as events, and its exit status.\<close>

definition dry_run_report_arp :: "('k, 'x) mc_sys_scheme \<Rightarrow> ('k mc_state, int) prog" where
  "dry_run_report_arp S =
     bnd (gets mc_ifname) (\<lambda>ifname.
     bnd (kcall (sys_if_nametoindex S ifname)) (\<lambda>ifindex.
     bnd (modify (\<lambda>s. s\<lparr>mc_ifindex := ifindex\<rparr>)) (\<lambda>_.
     if ifindex = 0 then bnd (emit Rep_no_interface) (\<lambda>_. ret 1)
     else
       bnd (emit (Rep_header ifindex)) (\<lambda>_.
       bnd (gets id) (\<lambda>s.
       bnd (if mc_require_route s
            then bnd (sentinel_in_fib_arp S (mc_sentinel_addr s)) (\<lambda>b. emit (Rep_fib b))
            else ret ()) (\<lambda>_.
       bnd (case mc_sentinel_file s of
              None \<Rightarrow> ret ()
            | Some f \<Rightarrow> bnd (sentinel_in_file_arp S f (mc_sentinel_str s)) (\<lambda>b. emit (Rep_file b))) (\<lambda>_.
       bnd (find_default_router S ifindex) (\<lambda>r.
       case r of
         None \<Rightarrow> bnd (emit Rep_no_router) (\<lambda>_. ret 0)
       | Some gw \<Rightarrow>
           bnd (emit (Rep_router gw)) (\<lambda>_.
           bnd (router_lladdr S ifindex gw) (\<lambda>r.
           case r of
             None \<Rightarrow> bnd (emit Rep_unresolved) (\<lambda>_. ret 0)
           | Some mac \<Rightarrow>
               bnd (emit (Rep_lladdr (mac_str mac))) (\<lambda>_.
               bnd (emit (Rep_would [''arp'', ''-s'', mc_sentinel_str s, mac_str mac, ''ifscope'', ifname]))
                 (\<lambda>_. ret 0))))))))))))"

section \<open>The start, the loop and the signals\<close>

text \<open>
  \<open>inet_aton\<close>: one to four numbers in C notation separated by dots, each but the last one byte,
  the last filling the remaining bytes; the end of the text or white space ends it.
\<close>

definition c_number :: "string \<Rightarrow> (nat \<times> string) option" where
  "c_number s =
     (if \<not> is_digit (c_hd s) then None
      else
        let (base, u) =
              (if c_hd s \<noteq> CHR ''0'' then (10, s)
               else case tl s of
                 x # d # r \<Rightarrow> if x \<in> {CHR ''x'', CHR ''X''} \<and> is_hex d then (16, d # r) else (8, s)
               | _ \<Rightarrow> (8, s));
            dig = (\<lambda>c. case hex_val c of None \<Rightarrow> False | Some d \<Rightarrow> d < base);
            val = (\<lambda>ds. foldl (\<lambda>n c. base * n + (case hex_val c of None \<Rightarrow> 0 | Some d \<Rightarrow> d)) 0 ds)
        in Some (val (takeWhile dig u), dropWhile dig u))"

fun inet_parts :: "nat \<Rightarrow> string \<Rightarrow> nat list option" where
  "inet_parts 0 s = None"
| "inet_parts (Suc n) s =
     (case c_number s of
        None \<Rightarrow> None
      | Some (v, r) \<Rightarrow>
          if c_hd r = CHR ''.'' then
            (if 255 < v then None else map_option (Cons v) (inet_parts n (tl r)))
          else if r = [] \<or> is_space (hd r) then Some [v] else None)"

definition inet_aton :: "string \<Rightarrow> in_addr option" where
  "inet_aton s =
     (case inet_parts 4 s of
        None \<Rightarrow> None
      | Some vs \<Rightarrow>
          let n = 5 - length vs; v = last vs in
          if 256 ^ n \<le> v then None
          else Some (map of_nat (butlast vs) @ map (\<lambda>i. of_nat (v div 256 ^ i)) (rev [0..<n])))"

definition handle_sig_arp :: "int \<Rightarrow> 'k mc_state \<Rightarrow> 'k mc_state" where
  "handle_sig_arp sig s = s\<lparr>mc_running := False\<rparr>"

definition mc_iter :: "('k, 'x) mc_sys_scheme \<Rightarrow> ('k mc_state, unit) prog" where
  "mc_iter S =
     bnd (gets (\<lambda>s. c_mul (mc_interval s) 1000)) (\<lambda>t.
     bnd (of_opt t) (\<lambda>timeout.
     bnd (kcall (sys_poll S timeout)) (\<lambda>n.
     bnd (if n > 0 then bnd (kcall (sys_read S 2048)) (\<lambda>_. ret ()) else ret ()) (\<lambda>_.
     reconcile_arp S))))"

definition mc_stop :: "('k, 'x) mc_sys_scheme \<Rightarrow> ('k mc_state, unit) prog" where
  "mc_stop S = withdraw_arp S ''daemon shutdown''"

inductive mc_env :: "'k mc_state \<Rightarrow> 'k mc_state \<Rightarrow> bool" where
  mc_kernel: "mc_env s (s\<lparr>kern := k\<rparr>)"
| mc_files: "mc_env s (s\<lparr>files := fs\<rparr>)"
| mc_signal: "mc_env s (handle_sig_arp sig s)"

text \<open>The statics before \<open>main\<close>.\<close>

definition mc_init :: "'k \<Rightarrow> (string \<Rightarrow> string option) \<Rightarrow> 'k mc_state" where
  "mc_init k fs =
     \<lparr>kern = k, files = fs, out = [], mc_running = True, mc_ifname = [], mc_ifindex = 0,
      mc_require_route = False, mc_sentinel_file = None, mc_interval = 15, mc_dry_run = False,
      mc_rtsock = -1, mc_installed = False, mc_mac = replicate 6 0,
      mc_sentinel_str = ''192.0.0.11'', mc_sentinel_addr = [0, 0, 0, 0]\<rparr>"

fun mc_opts :: "opt list \<Rightarrow> ('k mc_state, int option) prog" where
  "mc_opts [] = ret None"
| "mc_opts (Opt c # os) =
     (if c = CHR ''n'' then bnd (modify (\<lambda>s. s\<lparr>mc_dry_run := True\<rparr>)) (\<lambda>_. mc_opts os)
      else if c = CHR ''r'' then bnd (modify (\<lambda>s. s\<lparr>mc_require_route := True\<rparr>)) (\<lambda>_. mc_opts os)
      else ret (Some 1))"
| "mc_opts (Opt_arg c optarg # os) =
     (if c = CHR ''f'' then
        bnd (modify (\<lambda>s. s\<lparr>mc_sentinel_file := Some optarg\<rparr>)) (\<lambda>_. mc_opts os)
      else if c = CHR ''i'' then
        bnd (of_opt (atoi optarg)) (\<lambda>n.
        bnd (modify (\<lambda>s. s\<lparr>mc_interval := n\<rparr>)) (\<lambda>_.
        if n < 1 then ret (Some 1) else mc_opts os))
      else ret (Some 1))"
| "mc_opts (Opt_bad # os) = ret (Some 1)"

text \<open>
  \<open>V4GW_GATEWAY\<close> replaces the sentinel, cut to the 15 characters of its buffer. The result is
  whether \<open>inet_aton\<close> took it.
\<close>

definition mc_gateway_env :: "string option \<Rightarrow> ('k mc_state, bool) prog" where
  "mc_gateway_env envgw =
     bnd (case envgw of
            None \<Rightarrow> ret ()
          | Some e \<Rightarrow> if e = [] then ret () else modify (\<lambda>s. s\<lparr>mc_sentinel_str := snprintf 16 e\<rparr>)) (\<lambda>_.
     bnd (gets mc_sentinel_str) (\<lambda>str.
     case inet_aton str of
       None \<Rightarrow> ret False
     | Some sa \<Rightarrow> bnd (modify (\<lambda>s. s\<lparr>mc_sentinel_addr := sa\<rparr>)) (\<lambda>_. ret True)))"

text \<open>
  \<open>main\<close> after the options, with the first pass; \<open>s\<close> is the state then. The exit status, or
  \<open>None\<close> for the loop.
\<close>

definition mc_start ::
    "('k, 'x) mc_sys_scheme \<Rightarrow> string list \<Rightarrow> 'k mc_state \<Rightarrow> ('k mc_state, int option) prog" where
  "mc_start S operands s =
     (if length operands \<noteq> 1 \<or> mc_require_route s \<and> mc_sentinel_file s \<noteq> None then ret (Some 1)
      else
        bnd (modify (\<lambda>s. s\<lparr>mc_ifname := hd operands\<rparr>)) (\<lambda>_.
        if mc_dry_run s then bnd (dry_run_report_arp S) (\<lambda>c. ret (Some c))
        else
          bnd (kcall (sys_if_nametoindex S (hd operands))) (\<lambda>ifindex.
          bnd (modify (\<lambda>s. s\<lparr>mc_ifindex := ifindex\<rparr>)) (\<lambda>_.
          bnd (if ifindex = 0 then emit Log_waiting else ret ()) (\<lambda>_.
          bnd (kcall (sys_socket S)) (\<lambda>fd.
          bnd (modify (\<lambda>s. s\<lparr>mc_rtsock := fd\<rparr>)) (\<lambda>_.
          if fd < 0 then ret (Some 1)
          else bnd (reconcile_arp S) (\<lambda>_. ret None))))))))"

definition mc_main ::
    "('k, 'x) mc_sys_scheme \<Rightarrow> string option \<Rightarrow> string list \<Rightarrow> ('k mc_state, int option) prog" where
  "mc_main S envgw args =
     bnd (mc_gateway_env envgw) (\<lambda>valid.
     if \<not> valid then ret (Some 2)
     else
       let (os, operands) =
         getopt [(CHR ''n'', False), (CHR ''r'', False), (CHR ''f'', True), (CHR ''i'', True)] args in
       bnd (mc_opts os) (\<lambda>ex.
       case ex of
         Some c \<Rightarrow> ret (Some c)
       | None \<Rightarrow> bnd (gets id) (mc_start S operands)))"

lemma inet_aton_default: "inet_aton ''192.0.0.11'' = Some [192, 0, 0, 11]"
  by code_simp

end
