(* ===== verification/Macos_Pass.thy ===== *)
theory Macos_Pass
  imports Macos_Daemon Entry_Keeper
begin

text \<open>
  One pass of the macOS daemon: observation and action, the invariant every pass keeps, and the
  life of the daemon as an instance of \<open>daemon_loop\<close> and \<open>safe_daemon_loop\<close>.
\<close>

section \<open>Observation and action\<close>

text \<open>A MAC is pinned with the own MAC to remember it for.\<close>

type_synonym mc_decision = "(mac_addr, mac_addr option) decision"

definition mc_decide :: "('k, 'x) mc_sys_scheme \<Rightarrow> u32 \<Rightarrow> ('k mc_state, mc_decision) prog" where
  "mc_decide S ifindex =
     (if ifindex = 0 then ret Gone
      else
       bnd (gets id) (\<lambda>s.
       bnd (case mc_sentinel_file s of
              None \<Rightarrow> ret True
            | Some f \<Rightarrow> sentinel_in_file_arp S f (mc_sentinel_str s)) (\<lambda>ok.
       if \<not> ok then ret (Cease ''sentinel state cleared; ceasing per draft s4'')
       else
         bnd (if mc_require_route s then sentinel_in_fib_arp S (mc_sentinel_addr s) else ret True) (\<lambda>ok.
         if \<not> ok then ret (Cease ''sentinel 192.0.0.11 route removed; ceasing per draft s4'')
         else
           bnd (iface_lladdr S (mc_ifname s)) (\<lambda>host_mac.
           bnd (resolve_router S ifindex) (\<lambda>r.
           case r of
             Some mac \<Rightarrow> ret (Pin mac host_mac)
           | None \<Rightarrow>
               bnd (case host_mac of None \<Rightarrow> ret None | Some h \<Rightarrow> router_cache_lookup S h) (\<lambda>c.
               case c of
                 Some cached \<Rightarrow> ret (Pin cached None)
               | None \<Rightarrow> ret (Cease
                   ''no IPv6 default router resolved yet; ceding to ARP bootstrap''))))))))"

definition mc_observe :: "('k, 'x) mc_sys_scheme \<Rightarrow> ('k mc_state, mc_decision) prog" where
  "mc_observe S =
     bnd (gets mc_ifname) (\<lambda>ifname.
     bnd (kcall (sys_if_nametoindex S ifname)) (\<lambda>ifindex.
     bnd (modify (\<lambda>s. s\<lparr>mc_ifindex := ifindex\<rparr>)) (\<lambda>_.
     mc_decide S ifindex)))"

definition mc_pin :: "('k, 'x) mc_sys_scheme \<Rightarrow> mac_addr \<Rightarrow> mac_addr option \<Rightarrow> ('k mc_state, unit) prog" where
  "mc_pin S mac host = bnd (install_arp S mac) (\<lambda>_.
     case host of None \<Rightarrow> ret () | Some h \<Rightarrow> router_cache_put S h mac)"

definition mc_act :: "('k, 'x) mc_sys_scheme \<Rightarrow> mc_decision \<Rightarrow> ('k mc_state, unit) prog" where
  "mc_act S = carry_out (modify (\<lambda>s. s\<lparr>mc_installed := False\<rparr>)) (withdraw_arp S) (mc_pin S)"

lemma mc_act_simps [simp]:
  "mc_act S Gone = modify (\<lambda>s. s\<lparr>mc_installed := False\<rparr>)"
  "mc_act S (Cease reason) = withdraw_arp S reason"
  "mc_act S (Pin mac host) = bnd (install_arp S mac) (\<lambda>_.
     case host of None \<Rightarrow> ret () | Some h \<Rightarrow> router_cache_put S h mac)"
  by (simp_all add: mc_act_def mc_pin_def)

lemma reconcile_arp_split: "reconcile_arp S = bnd (mc_observe S) (mc_act S)"
  unfolding reconcile_arp_def mc_observe_def mc_decide_def
  by (simp add: bnd_simps bnd_ret cong: if_cong option.case_cong)

section \<open>What the observation reads\<close>

definition wf_ifaddr :: "byte list \<Rightarrow> bool" where
  "wf_ifaddr sa \<longleftrightarrow> 2 \<le> length sa \<and>
     (sa ! 1 = AF_LINK \<longrightarrow> 8 \<le> length sa \<and> 8 + unat (sa ! 5) + unat (sa ! 6) \<le> length sa)"

definition ifaddrs_ok :: "('k, 'x) mc_sys_scheme \<Rightarrow> bool" where
  "ifaddrs_ok S \<longleftrightarrow> (\<forall>k ifas ifa sa. fst (sys_getifaddrs S k) = Some ifas \<longrightarrow> ifa \<in> set ifas \<longrightarrow>
     ifa_addr ifa = Some sa \<longrightarrow> wf_ifaddr sa)"

lemma iface_scan_safe:
  "\<forall>ifa \<in> set ifas. \<forall>sa. ifa_addr ifa = Some sa \<longrightarrow> wf_ifaddr sa \<Longrightarrow> iface_scan ifn ifas \<noteq> None"
proof (induction ifas)
  case (Cons ifa ifas)
  show ?case
  proof (cases "ifa_addr ifa")
    case None
    then show ?thesis using Cons by simp
  next
    case (Some sa)
    then have wf: "wf_ifaddr sa" using Cons.prems by simp
    have "sa_family sa 0 = Some (sa ! 1)"
      using wf by (simp add: sa_family_def rd8_def wf_ifaddr_def)
    moreover have "sdl_alen sa 0 = Some (sa ! 6)" "rd8 sa 5 = Some (sa ! 5)" if "sa ! 1 = AF_LINK"
      using wf that by (simp_all add: sdl_alen_def rd8_def wf_ifaddr_def)
    moreover have "rd_bytes sa (8 + unat (sa ! 5)) 6 \<noteq> None" if "sa ! 1 = AF_LINK" "sa ! 6 = 6"
      using wf that by (simp add: rd_bytes_def wf_ifaddr_def)
    ultimately show ?thesis
      using Some Cons by (auto simp: sdl_lladdr_def)
  qed
qed simp

lemma kern_only_mc_reads [frame_intros]:
  "kern_only (find_default_router S i)" "kern_only (router_lladdr S i gw)"
  "kern_only (arp_entry_present S i a mac)" "kern_only (sentinel_in_fib_arp S a)"
  unfolding find_default_router_def router_lladdr_def arp_entry_present_def sentinel_in_fib_arp_def
  by (intro frame_intros)+

lemma kern_only_mc_reads2 [frame_intros]:
  "kern_only (sentinel_in_file_arp S f str)" "kern_only (iface_lladdr S ifn)"
  "kern_only (resolve_router S i)"
  unfolding sentinel_in_file_arp_def iface_lladdr_def resolve_router_def
  by (intro frame_intros)+

text \<open>What the daemon needs of its system: whole messages, whole addresses, waits that end.\<close>

definition mc_sound :: "('k, 'x) mc_sys_scheme \<Rightarrow> bool" where
  "mc_sound S \<longleftrightarrow> dump_ok darwin_abi S \<and> ifaddrs_ok S \<and> wait_ok S"

lemma safe_mc_scans:
  assumes "mc_sound S"
  shows "safe (find_default_router S i)" and "safe (router_lladdr S i gw)"
    and "safe (arp_entry_present S i a mac)" and "safe (sentinel_in_fib_arp S a)"
proof -
  have ok: "dump_ok darwin_abi S" using assms by (simp add: mc_sound_def)
  show "safe (find_default_router S i)"
    unfolding find_default_router_def using ok by (intro mc_router.safe_scan_dump safe_intros) simp_all
  show "safe (router_lladdr S i gw)"
    unfolding router_lladdr_def using ok by (intro mc_lladdr.safe_scan_dump safe_intros) simp_all
  show "safe (arp_entry_present S i a mac)"
    unfolding arp_entry_present_def using ok by (intro mc_arp.safe_scan_dump safe_intros) simp_all
  show "safe (sentinel_in_fib_arp S a)"
    unfolding sentinel_in_fib_arp_def using ok by (intro mc_fib.safe_scan_dump safe_intros) simp_all
qed

lemma safe_iface: "mc_sound S \<Longrightarrow> safe (iface_lladdr S ifn)"
proof -
  assume ok: "mc_sound S"
  have "iface_lladdr S ifn s \<noteq> None" for s
  proof -
    obtain r k where r: "sys_getifaddrs S (kern s) = (r, k)" by fastforce
    have "iface_scan ifn ifas \<noteq> None" if "r = Some ifas" for ifas
    proof (intro iface_scan_safe ballI allI impI)
      fix ifa sa
      assume "ifa \<in> set ifas" and "ifa_addr ifa = Some sa"
      moreover have "fst (sys_getifaddrs S (kern s)) = Some ifas"
        using r that by simp
      ultimately show "wf_ifaddr sa"
        using ok by (auto simp: mc_sound_def ifaddrs_ok_def)
    qed
    then show ?thesis
      by (cases r) (auto simp: iface_lladdr_def bnd_def kcall_def of_opt_def ret_def r)
  qed
  then show ?thesis by (simp add: safe_def)
qed

lemma safe_mc_reads:
  "mc_sound S \<Longrightarrow> safe (resolve_router S i)" "safe (sentinel_in_file_arp S f str)"
  unfolding resolve_router_def sentinel_in_file_arp_def
  by (intro safe_intros safe_mc_scans; assumption)+

lemma safe_mc_decide: "mc_sound S \<Longrightarrow> safe (mc_decide S i)"
  unfolding mc_decide_def
  by (intro safe_intros safe_mc_scans safe_iface safe_mc_reads) assumption+

lemma kern_only_mc_decide: "kern_only (mc_decide S i)"
  unfolding mc_decide_def by (intro frame_intros)

text \<open>Every address an observation returns has six bytes.\<close>

definition mac_len_ok :: "mac_addr option \<Rightarrow> bool" where
  "mac_len_ok r \<longleftrightarrow> (\<forall>m. r = Some m \<longrightarrow> length m = 6)"

lemma sdl_lladdr_length: "sdl_lladdr buf q n = Some m \<Longrightarrow> length m = n"
  by (auto simp: sdl_lladdr_def rd_bytes_def bind_eq_Some_conv split: if_splits)

lemma lladdr_length: "returns (router_lladdr S i gw) mac_len_ok"
proof -
  have body: "length m = 6" if "mc_lladdr_body i gw buf p = Some (Break m)" for buf p m
    using that
    by (auto simp: mc_lladdr_body_def bind_eq_Some_conv split: if_split_asm option.split_asm
        dest: sdl_lladdr_length)
  have "mac_len_ok r" if "rtm_scan (mc_lladdr_body i gw) b 0 = Some r" for b r
    using rtm_scan_returns [OF that body] by (simp add: mac_len_ok_def)
  then show ?thesis
    by (auto simp: returns_def router_lladdr_def bnd_def ret_def of_opt_def mac_len_ok_def
        split: option.splits)
qed

lemma resolve_length: "returns (resolve_router S i) mac_len_ok"
  unfolding resolve_router_def
  by (intro returns_bnd returns_option lladdr_length returns_ret) (simp add: mac_len_ok_def)

lemma iface_scan_length: "iface_scan ifn ifas = Some r \<Longrightarrow> mac_len_ok r"
  by (induction ifas) (auto simp: mac_len_ok_def bind_eq_Some_conv dest: sdl_lladdr_length
      split: option.splits if_splits)

lemma iface_length: "returns (iface_lladdr S ifn) mac_len_ok"
  unfolding iface_lladdr_def
proof (intro returns_bnd returns_option returns_ret)
  show "returns (of_opt (iface_scan ifn ifas)) mac_len_ok" for ifas
    by (auto simp: returns_def of_opt_def dest: iface_scan_length split: option.splits)
qed (simp add: mac_len_ok_def)

lemma scan_bytes_length: "scan_bytes sep n s = Some m \<Longrightarrow> length m = n"
  by (induction sep n s arbitrary: m rule: scan_bytes.induct)
    (auto split: option.splits if_splits list.splits prod.splits)

lemma cache_look_length: "returns (router_cache_lookup S h) mac_len_ok"
  unfolding router_cache_lookup_def
  by (intro returns_bnd returns_ret)
    (auto simp: mac_len_ok_def scan_mac_def dest: scan_bytes_length split: option.splits)

definition mc_decision_ok :: "mc_decision \<Rightarrow> bool" where
  "mc_decision_ok d \<longleftrightarrow> (\<forall>mac host. d = Pin mac host \<longrightarrow> length mac = 6 \<and> mac_len_ok host)"

lemma cached_length:
  "returns (case host of None \<Rightarrow> ret None | Some h \<Rightarrow> router_cache_lookup S h) mac_len_ok"
  by (intro returns_option returns_ret cache_look_length) (simp add: mac_len_ok_def)

lemma returns_mc_decide: "returns (mc_decide S i) mc_decision_ok"
  unfolding mc_decide_def
  by (intro returns_if returns_bnd_from [OF iface_length] returns_bnd_from [OF resolve_length]
      returns_bnd_from [OF cached_length] returns_bnd returns_option returns_ret)
    (auto simp: mc_decision_ok_def mac_len_ok_def)

section \<open>The invariant\<close>

text \<open>The static entry the successful commands of a history leave.\<close>

fun arp_step :: "string option \<Rightarrow> mc_event \<Rightarrow> string option" where
  "arp_step g (Ev_run argv r) =
     (if r \<noteq> 0 then g
      else if argv ! 1 = ''-s'' then Some (argv ! 3)
      else if argv ! 1 = ''-d'' then None else g)"
| "arp_step g _ = g"

definition arp_of :: "mc_event list \<Rightarrow> string option" where
  "arp_of es = foldl arp_step None es"

lemma arp_of_snoc [simp]: "arp_of (es @ [e]) = arp_step (arp_of es) e"
  by (simp add: arp_of_def)

lemma arp_of_snoc2 [simp]: "arp_of (es @ [e, f]) = arp_step (arp_step (arp_of es) e) f"
  by (simp add: arp_of_def)

definition mc_inv :: "'k mc_state \<Rightarrow> bool" where
  "mc_inv s \<longleftrightarrow> (mc_installed s \<longrightarrow> length (mc_mac s) = 6 \<and> arp_of (out s) = Some (mac_str (mc_mac s)))"

lemma mc_inv_upd [simp]:
  "mc_inv (s\<lparr>kern := k\<rparr>) = mc_inv s"
  "mc_inv (s\<lparr>files := fs\<rparr>) = mc_inv s"
  "mc_inv (s\<lparr>mc_ifindex := i\<rparr>) = mc_inv s"
  by (simp_all add: mc_inv_def)

lemma install_arp_inv:
  assumes "mc_inv s" and "length mac = 6"
  shows "wlp (install_arp S mac) (\<lambda>_. mc_inv) s"
proof -
  have check: "wlp (if b then arp_entry_present S i a mac else ret False) Q s"
    if "\<And>r k. Q r (s\<lparr>kern := k\<rparr>)" for b i a Q
    by (rule wlp_kern_only [OF kern_only_if [OF kern_only_mc_reads(3) kern_only_ret]]) (rule that)
  show ?thesis
    unfolding install_arp_def wlp_bnd wlp_gets id_apply
    by (rule check)
      (use assms in \<open>auto intro!: wlp_run
        simp: wlp_if wlp_ret wlp_bnd wlp_emit wlp_modify mc_inv_def arp_s_def\<close>)
qed

lemma withdraw_arp_inv: "mc_inv s \<Longrightarrow> wlp (withdraw_arp S reason) (\<lambda>_ t. mc_inv t \<and> \<not> mc_installed t) s"
  unfolding withdraw_arp_def wlp_bnd wlp_gets id_apply
  by (auto intro!: wlp_run simp: wlp_ret wlp_bnd wlp_emit wlp_modify mc_inv_def)

lemma put_inv:
  assumes "mc_inv s" and "length h = 6"
  shows "wp (router_cache_put S h mac) (\<lambda>_. mc_inv) s"
  by (rule wp_mono [OF put_effect [OF assms(2)]]) (use assms(1) in \<open>auto simp: same_but_files_def mc_inv_def\<close>)

lemma mc_act_inv:
  assumes "mc_inv s" and "mc_decision_ok d"
  shows "wlp (mc_act S d) (\<lambda>_. mc_inv) s"
proof (cases d)
  case Gone
  then show ?thesis by (simp add: wp_simps mc_inv_def)
next
  case (Cease reason)
  then show ?thesis by (auto intro: wlp_mono [OF withdraw_arp_inv [OF assms(1)]])
next
  case (Pin mac host)
  then have len: "length mac = 6" "\<And>h. host = Some h \<Longrightarrow> length h = 6"
    using assms(2) by (simp_all add: mc_decision_ok_def mac_len_ok_def)
  have "wlp (case host of None \<Rightarrow> ret () | Some h \<Rightarrow> router_cache_put S h mac) (\<lambda>_. mc_inv) t"
    if "mc_inv t" for t
    using that len(2) by (auto simp: wlp_ret intro: wp_wlp put_inv split: option.split)
  then show ?thesis
    using Pin by (auto simp: wlp_bnd intro: wlp_mono [OF install_arp_inv [OF assms(1) len(1)]])
qed

lemma wlp_mc_observe:
  assumes "\<And>d k i. mc_decision_ok d \<Longrightarrow> Q d (s\<lparr>mc_ifindex := i, kern := k\<rparr>)"
  shows "wlp (mc_observe S) Q s"
proof -
  have "wlp (mc_decide S i) Q (s\<lparr>kern := k, mc_ifindex := i\<rparr>)" for k i
    using assms by (intro wlp_read [OF kern_only_mc_decide returns_mc_decide]) simp
  then show ?thesis by (simp add: mc_observe_def wp_simps)
qed

lemma reconcile_arp_inv: "mc_inv s \<Longrightarrow> wlp (reconcile_arp S) (\<lambda>_. mc_inv) s"
  unfolding reconcile_arp_split wlp_bnd
  by (intro wlp_mc_observe mc_act_inv) simp_all

lemma safe_run: "wait_ok S \<Longrightarrow> safe (run S argv)"
  using wp_run [of S "\<lambda>_ _. True"] by (fastforce simp: safe_def wp_def split: option.splits)

lemma safe_put: "safe (router_cache_put S h mac)"
  unfolding router_cache_put_def Let_def by (intro safe_intros)

lemma safe_withdraw_arp: "wait_ok S \<Longrightarrow> safe (withdraw_arp S reason)"
  unfolding withdraw_arp_def by (intro safe_intros safe_run)

lemma safe_install_arp: "mc_sound S \<Longrightarrow> safe (install_arp S mac)"
  unfolding install_arp_def by (intro safe_intros safe_run safe_mc_scans) (simp_all add: mc_sound_def)

lemma safe_mc_act:
  assumes "mc_sound S"
  shows "safe (mc_act S d)"
proof (cases d)
  case (Cease reason)
  then show ?thesis using assms by (simp add: mc_sound_def safe_withdraw_arp)
next
  case (Pin mac host)
  then show ?thesis
    using safe_install_arp [OF assms] by (auto intro!: safe_intros safe_put)
qed (auto intro: safe_intros)

lemma safe_reconcile_arp: "mc_sound S \<Longrightarrow> safe (reconcile_arp S)"
  unfolding reconcile_arp_split mc_observe_def
  by (intro safe_intros safe_mc_decide safe_mc_act)

section \<open>The life of the daemon\<close>

lemma mc_env_inv: "mc_env s t \<Longrightarrow> mc_inv s \<Longrightarrow> mc_inv t"
  by (induction rule: mc_env.induct) (auto simp: mc_inv_def handle_sig_arp_def)

lemma mc_iter_inv: "mc_inv s \<Longrightarrow> wlp (mc_iter S) (\<lambda>_. mc_inv) s"
  unfolding mc_iter_def by (auto simp: wp_simps intro: reconcile_arp_inv split: option.split)

interpretation mc_life: daemon_loop mc_running mc_env "mc_iter S" "mc_stop S" mc_inv mc_installed
  for S :: "('k, 'x) mc_sys_scheme"
  by unfold_locales (auto intro: mc_iter_inv mc_env_inv withdraw_arp_inv simp: mc_stop_def)

text \<open>A pass leaves the settings and the signal flag alone.\<close>

definition mc_same :: "'k mc_state \<Rightarrow> 'k mc_state \<Rightarrow> bool" where
  "mc_same s t \<longleftrightarrow> mc_interval t = mc_interval s \<and> mc_running t = mc_running s \<and>
     mc_ifname t = mc_ifname s \<and> mc_require_route t = mc_require_route s \<and>
     mc_sentinel_file t = mc_sentinel_file s \<and> mc_sentinel_str t = mc_sentinel_str s \<and>
     mc_sentinel_addr t = mc_sentinel_addr s \<and> mc_dry_run t = mc_dry_run s"

definition mc_keeps :: "('k mc_state, 'a) prog \<Rightarrow> bool" where
  "mc_keeps m \<longleftrightarrow> (\<forall>s. wlp m (\<lambda>_. mc_same s) s)"

lemma mc_same_trans: "mc_same s t \<Longrightarrow> mc_same t u \<Longrightarrow> mc_same s u"
  by (simp add: mc_same_def)

lemma mc_keeps_bnd: "mc_keeps m \<Longrightarrow> (\<And>x. mc_keeps (f x)) \<Longrightarrow> mc_keeps (bnd m f)"
  unfolding mc_keeps_def wlp_def bnd_def
  by (fastforce split: option.splits intro: mc_same_trans)

lemma mc_keeps_basic:
  "kern_only m \<Longrightarrow> mc_keeps m" "(\<And>s. mc_same s (f s)) \<Longrightarrow> mc_keeps (modify f)" "mc_keeps (emit e)"
  "mc_keeps (ret x)" "mc_keeps (gets g)" "mc_keeps (kcall c)"
  by (auto simp: mc_keeps_def wp_simps mc_same_def intro: wlp_kern_only)

lemma mc_keeps_cases:
  "mc_keeps m \<Longrightarrow> mc_keeps n \<Longrightarrow> mc_keeps (if b then m else n)"
  "mc_keeps m \<Longrightarrow> (\<And>x. mc_keeps (f x)) \<Longrightarrow> mc_keeps (case r of None \<Rightarrow> m | Some x \<Rightarrow> f x)"
  by (auto split: option.split)

lemma mc_keeps_run: "mc_keeps (run S argv)"
proof -
  have "wlp (run S argv) (\<lambda>_. mc_same s) s" for s
    by (rule wlp_run) (simp_all add: mc_same_def)
  then show ?thesis by (simp add: mc_keeps_def)
qed

lemma mc_keeps_acts:
  "mc_keeps (install_arp S mac)" "mc_keeps (withdraw_arp S reason)" "mc_keeps (router_cache_put S h mac)"
  unfolding install_arp_def withdraw_arp_def router_cache_put_def Let_def
  by (intro mc_keeps_bnd mc_keeps_cases mc_keeps_run mc_keeps_basic(2-6)
      mc_keeps_basic(1) [OF kern_only_mc_reads(3)] mc_keeps_basic(1) [OF kern_only_cache_look];
      simp add: mc_same_def)+

lemma mc_keeps_act: "mc_keeps (mc_act S d)"
  by (cases d) (auto intro!: mc_keeps_bnd mc_keeps_acts mc_keeps_basic(2,4) mc_keeps_cases
      simp: mc_same_def)

lemma mc_keeps_reconcile: "mc_keeps (reconcile_arp S)"
  unfolding reconcile_arp_split mc_observe_def
  by (intro mc_keeps_bnd mc_keeps_act mc_keeps_basic(2-6) mc_keeps_basic(1) [OF kern_only_mc_decide])
    (simp_all add: mc_same_def)

lemma mc_keeps_iter: "mc_keeps (mc_iter S)"
  unfolding mc_iter_def
  by (intro mc_keeps_bnd mc_keeps_cases mc_keeps_reconcile mc_keeps_basic(3-6)
      mc_keeps_basic(1) [OF kern_only_of_opt])

text \<open>The interface and the gateway address are those that \<open>main\<close> was given, for ever.\<close>

definition mc_names :: "string \<Rightarrow> string \<Rightarrow> 'k mc_state \<Rightarrow> bool" where
  "mc_names gw ifname s \<longleftrightarrow> mc_sentinel_str s = gw \<and> mc_ifname s = ifname"

interpretation mc_named_life: daemon_loop mc_running mc_env "mc_iter S" "mc_stop S" "mc_names gw ifname" "\<lambda>_. False"
  for S :: "('k, 'x) mc_sys_scheme" and gw ifname
proof
  fix s t :: "'k mc_state"
  assume names: "mc_names gw ifname s"
  have kept: "wlp m (\<lambda>_. mc_names gw ifname) s" if "mc_keeps m" for m :: "('k mc_state, unit) prog"
  proof -
    have "wlp m (\<lambda>_. mc_same s) s" using that by (simp add: mc_keeps_def)
    then show ?thesis using names by (auto simp: mc_names_def mc_same_def elim!: wlp_mono)
  qed
  show "wlp (mc_iter S) (\<lambda>_. mc_names gw ifname) s" by (rule kept [OF mc_keeps_iter])
  show "wlp (mc_stop S) (\<lambda>_ t. mc_names gw ifname t \<and> \<not> False) s"
    using kept [OF mc_keeps_acts(2)] by (simp add: mc_stop_def)
  show "mc_names gw ifname t" if "mc_env s t"
    using that names by (induction rule: mc_env.induct) (auto simp: mc_names_def handle_sig_arp_def)
qed

text \<open>
  What \<open>main\<close> hands to the loop.
\<close>

definition mc_ready :: "'k mc_state \<Rightarrow> bool" where
  "mc_ready s \<longleftrightarrow> mc_inv s \<and> 1 \<le> mc_interval s \<and> \<not> mc_dry_run s \<and>
     \<not> (mc_require_route s \<and> mc_sentinel_file s \<noteq> None) \<and>
     inet_aton (mc_sentinel_str s) = Some (mc_sentinel_addr s)"

definition mc_loop_inv :: "('k, 'x) mc_sys_scheme \<Rightarrow> 'k mc_state \<Rightarrow> bool" where
  "mc_loop_inv S s \<longleftrightarrow> mc_sound S \<and> c_mul (mc_interval s) 1000 \<noteq> None \<and> mc_inv s"

lemma mc_env_interval: "mc_env s t \<Longrightarrow> mc_interval t = mc_interval s"
  by (induction rule: mc_env.induct) (auto simp: handle_sig_arp_def)

lemma mc_iter_safe: "mc_loop_inv S s \<Longrightarrow> mc_iter S s \<noteq> None"
proof -
  assume inv: "mc_loop_inv S s"
  then have "reconcile_arp S t \<noteq> None" for t
    by (intro safeD safe_reconcile_arp) (simp add: mc_loop_inv_def)
  then have "wp (reconcile_arp S) (\<lambda>_ _. True) t" for t
    by (auto simp: wp_def split: option.split)
  then have "wp (mc_iter S) (\<lambda>_ _. True) s"
    using inv by (auto simp: mc_iter_def wp_simps mc_loop_inv_def)
  then show ?thesis by (auto elim: wpE)
qed

lemma mc_iter_loop_inv: "mc_loop_inv S s \<Longrightarrow> wlp (mc_iter S) (\<lambda>_. mc_loop_inv S) s"
proof -
  assume inv: "mc_loop_inv S s"
  have "wlp (mc_iter S) (\<lambda>_ t. mc_same s t \<and> mc_inv t) s"
    using inv by (intro wlp_conj mc_iter_inv mc_keeps_iter [unfolded mc_keeps_def, rule_format])
      (simp_all add: mc_loop_inv_def)
  then show ?thesis
    using inv by (auto simp: mc_loop_inv_def mc_same_def elim!: wlp_mono)
qed

lemma mc_stop_loop_inv: "mc_loop_inv S s \<Longrightarrow> wlp (mc_stop S) (\<lambda>_ t. mc_loop_inv S t \<and> \<not> mc_installed t) s"
proof -
  assume inv: "mc_loop_inv S s"
  have "wlp (mc_stop S) (\<lambda>_ t. mc_same s t \<and> mc_inv t \<and> \<not> mc_installed t) s"
    unfolding mc_stop_def
    using inv mc_keeps_acts(2) by (intro wlp_conj withdraw_arp_inv) (auto simp: mc_keeps_def mc_loop_inv_def)
  then show ?thesis
    using inv by (auto simp: mc_loop_inv_def mc_same_def elim!: wlp_mono)
qed

interpretation mc_safe_life: safe_daemon_loop mc_running mc_env "mc_iter S" "mc_stop S"
  "mc_loop_inv S" mc_installed
  for S :: "('k, 'x) mc_sys_scheme"
proof
  fix s t :: "'k mc_state"
  assume inv: "mc_loop_inv S s"
  show "wlp (mc_iter S) (\<lambda>_. mc_loop_inv S) s" by (rule mc_iter_loop_inv [OF inv])
  show "wlp (mc_stop S) (\<lambda>_ t. mc_loop_inv S t \<and> \<not> mc_installed t) s" by (rule mc_stop_loop_inv [OF inv])
  show "mc_iter S s \<noteq> None" by (rule mc_iter_safe [OF inv])
  have "wait_ok S" using inv by (simp add: mc_loop_inv_def mc_sound_def)
  then show "mc_stop S s \<noteq> None"
    unfolding mc_stop_def by (intro safeD safe_withdraw_arp)
  show "mc_loop_inv S t" if "mc_env s t"
    using that inv by (simp add: mc_loop_inv_def mc_env_inv mc_env_interval)
qed

text \<open>The whole effect of a withdrawal: at most one command, the flag off.\<close>

lemma withdraw_arp_effect:
  "wlp (withdraw_arp S reason) (\<lambda>_ t. \<not> mc_installed t \<and>
    (if mc_installed s
     then \<exists>es r. out t = out s @ es @ [Log_arp_withdrew reason] \<and>
       es \<in> {[], [Ev_run (arp_d (mc_sentinel_str s) (mc_ifname s)) r]}
     else out t = out s)) s"
  unfolding withdraw_arp_def wlp_bnd wlp_gets id_apply
  by (auto intro!: wlp_run simp: wlp_ret wlp_bnd wlp_emit wlp_modify)

end
