(* ===== verification/Macos_Arp.thy ===== *)
theory Macos_Arp
  imports Macos_Pass
begin

text \<open>
  A pass of the macOS daemon over tables that stand still (\<open>mc_sees\<close>, \<open>mc_spec\<close>) and against
  an \<^verbatim>\<open>arp(8)\<close> that does as documented (\<open>arp_law\<close>): what the ARP entry of the gateway address is
  afterwards. \<open>mc_demo\<close> is a small world that satisfies every hypothesis, for the witnesses.
\<close>

section \<open>The tables of a moment\<close>

definition mc_quiet :: "('k, 'x) mc_sys_scheme \<Rightarrow> bool" where
  "mc_quiet S \<longleftrightarrow> quiet_reads S \<and> quiet (sys_getifaddrs S) \<and> (\<forall>d. quiet (sys_mkdir S d)) \<and>
     (\<forall>p. quiet (sys_fopen_w S p)) \<and> (\<forall>p t. quiet (sys_write_out S p t)) \<and>
     (\<forall>p q. quiet (sys_rename S p q))"

record mc_view =
  w_ifindex :: u32
  w_file_ok :: bool
  w_routes4 :: "rt_msg list"
  w_routes6 :: "rt_msg list"
  w_neighbors :: "rt_msg list"
  w_host :: "mac_addr option"

definition mc_table :: "('k, 'x) mc_sys_scheme \<Rightarrow> mib \<Rightarrow> 'k \<Rightarrow> rt_msg list \<Rightarrow> bool" where
  "mc_table S mib k ms \<longleftrightarrow> holds_table (fetched S mib k) (enc_msgs ms) \<and>
     (\<forall>m \<in> set ms. wf_msg darwin_abi m)"

text \<open>A sentinel's text without line breaks, as its 16-byte buffer holds it.\<close>

definition clean :: "string \<Rightarrow> bool" where
  "clean str \<longleftrightarrow> str \<noteq> [] \<and> nul \<notin> set str \<and> newline \<notin> set str \<and> length str \<le> 15"

definition mc_sees :: "('k, 'x) mc_sys_scheme \<Rightarrow> 'k mc_state \<Rightarrow> mc_view \<Rightarrow> bool" where
  "mc_sees S s v \<longleftrightarrow>
     fst (sys_if_nametoindex S (mc_ifname s) (kern s)) = w_ifindex v \<and>
     clean (mc_sentinel_str s) \<and>
     (\<forall>f. mc_sentinel_file s = Some f \<longrightarrow> w_file_ok v =
        (\<exists>c. files s f = Some c \<and> fst (sys_fopen_r S f (kern s)) \<and>
          take (length (mc_sentinel_str s)) c = mc_sentinel_str s)) \<and>
     mc_table S (Rt_dump AF_INET) (kern s) (w_routes4 v) \<and>
     mc_table S (Rt_dump (af_inet6 darwin_abi)) (kern s) (w_routes6 v) \<and>
     mc_table S (Rt_flags (af_inet6 darwin_abi) RTF_LLINFO) (kern s) (w_neighbors v) \<and>
     (case fst (sys_getifaddrs S (kern s)) of
        None \<Rightarrow> w_host v = None
      | Some ifas \<Rightarrow> iface_scan (mc_ifname s) ifas = Some (w_host v))"

definition mc_cached :: "('k, 'x) mc_sys_scheme \<Rightarrow> 'k mc_state \<Rightarrow> mac_addr \<Rightarrow> mac_addr option" where
  "mc_cached S s h =
     (if fst (sys_fopen_r S (router_cache_path h 64) (kern s)) then cache_view s h else None)"

text \<open>What the daemon should decide: \<open>cached\<close> is the map's entry for the interface's own MAC.\<close>

definition mc_router_mac :: "mc_view \<Rightarrow> mac_addr option" where
  "mc_router_mac v =
     (case first_some (mc_gateway (w_ifindex v)) (w_routes6 v) of
        None \<Rightarrow> None
      | Some gw \<Rightarrow> first_some (mc_neighbor (w_ifindex v) gw) (w_neighbors v))"

definition mc_spec ::
    "bool \<Rightarrow> bool \<Rightarrow> in_addr \<Rightarrow> mc_view \<Rightarrow> mac_addr option \<Rightarrow> mc_decision" where
  "mc_spec from_file require addr v cached =
     (if w_ifindex v = 0 then Gone
      else if from_file \<and> \<not> w_file_ok v then
        Cease ''sentinel state cleared; ceasing per draft s4''
      else if require \<and> (\<forall>m \<in> set (w_routes4 v). mc_sentinel addr m = None) then
        Cease ''sentinel 192.0.0.11 route removed; ceasing per draft s4''
      else case mc_router_mac v of
        Some mac \<Rightarrow> Pin mac (w_host v)
      | None \<Rightarrow>
        (case cached of
           Some mac \<Rightarrow> Pin mac None
         | None \<Rightarrow> Cease ''no IPv6 default router resolved yet; ceding to ARP bootstrap''))"

definition mc_spec_at :: "('k, 'x) mc_sys_scheme \<Rightarrow> 'k mc_state \<Rightarrow> mc_view \<Rightarrow> mc_decision" where
  "mc_spec_at S s v = mc_spec (mc_sentinel_file s \<noteq> None) (mc_require_route s) (mc_sentinel_addr s) v
     (case w_host v of None \<Rightarrow> None | Some h \<Rightarrow> mc_cached S s h)"

lemma mc_quietD:
  assumes "mc_quiet S"
  shows "quiet_reads S" and "quiet (sys_getifaddrs S)" and "quiet (sys_mkdir S d)"
    and "quiet (sys_fopen_w S p)" and "quiet (sys_write_out S p txt)" and "quiet (sys_rename S p q)"
  using assms by (simp_all add: mc_quiet_def)

lemma read_line_quiet:
  "quiet_reads S \<Longrightarrow> read_line S p n s = Some (case files s p of
     None \<Rightarrow> None
   | Some c \<Rightarrow> if fst (sys_fopen_r S p (kern s)) then fgets n c else None, s)"
  by (simp add: read_line_def bnd_def run_simps kcall_quiet quiet_readsD split: option.split)

lemma cached_quiet: "quiet_reads S \<Longrightarrow> router_cache_lookup S h s = Some (mc_cached S s h, s)"
  by (simp add: router_cache_lookup_def bnd_def read_line_quiet run_simps mc_cached_def
      cache_view_def split: option.split)

lemma scans_quiet:
  assumes q: "quiet_reads S"
  shows "mc_table S (Rt_dump (af_inet6 darwin_abi)) (kern s) ms \<Longrightarrow>
      find_default_router S i s = Some (first_some (mc_gateway i) ms, s)"
    and "mc_table S (Rt_flags (af_inet6 darwin_abi) RTF_LLINFO) (kern s) ms \<Longrightarrow>
      router_lladdr S i gw s = Some (first_some (mc_neighbor i gw) ms, s)"
    and "mc_table S (Rt_dump AF_INET) (kern s) ms \<Longrightarrow>
      sentinel_in_fib_arp S a s = Some (first_some (mc_sentinel a) ms \<noteq> None, s)"
    and "mc_table S (Rt_flags AF_INET RTF_LLINFO) (kern s) ms \<Longrightarrow>
      arp_entry_present S i a mac s = Some (first_some (mc_arp_is i a mac) ms = Some True, s)"
proof -
  note fetch = fetch_quiet [OF q]
  show "find_default_router S i s = Some (first_some (mc_gateway i) ms, s)"
    if "mc_table S (Rt_dump (af_inet6 darwin_abi)) (kern s) ms"
    using that unfolding find_default_router_def mc_table_def
    by (subst mc_router.scan_fetched [OF fetch]) (simp_all add: run_simps)
  show "router_lladdr S i gw s = Some (first_some (mc_neighbor i gw) ms, s)"
    if "mc_table S (Rt_flags (af_inet6 darwin_abi) RTF_LLINFO) (kern s) ms"
    using that unfolding router_lladdr_def mc_table_def
    by (subst mc_lladdr.scan_fetched [OF fetch]) (simp_all add: run_simps)
  show "sentinel_in_fib_arp S a s = Some (first_some (mc_sentinel a) ms \<noteq> None, s)"
    if "mc_table S (Rt_dump AF_INET) (kern s) ms"
    using that unfolding sentinel_in_fib_arp_def mc_table_def
    by (subst mc_fib.scan_fetched [OF fetch]) (simp_all add: run_simps)
  show "arp_entry_present S i a mac s = Some (first_some (mc_arp_is i a mac) ms = Some True, s)"
    if "mc_table S (Rt_flags AF_INET RTF_LLINFO) (kern s) ms"
    using that unfolding arp_entry_present_def mc_table_def
    by (subst mc_arp.scan_fetched [OF fetch]) (simp_all add: run_simps)
qed

lemma mc_decide_spec:
  assumes q: "mc_quiet S" and sees: "mc_sees S s v"
  shows "mc_decide S (w_ifindex v) s = Some (mc_spec_at S s v, s)"
proof -
  note qr = mc_quietD(1) [OF q]
  have tables: "mc_table S (Rt_dump AF_INET) (kern s) (w_routes4 v)"
    "mc_table S (Rt_dump (af_inet6 darwin_abi)) (kern s) (w_routes6 v)"
    "mc_table S (Rt_flags (af_inet6 darwin_abi) RTF_LLINFO) (kern s) (w_neighbors v)"
    using sees by (simp_all add: mc_sees_def)
  have router: "resolve_router S (w_ifindex v) s = Some (mc_router_mac v, s)"
    by (simp add: resolve_router_def bnd_def scans_quiet(1) [OF qr tables(2)]
        scans_quiet(2) [OF qr tables(3)] run_simps mc_router_mac_def split: option.split)
  have host: "iface_lladdr S (mc_ifname s) s = Some (w_host v, s)"
    using sees mc_quietD(2) [OF q]
    by (auto simp: iface_lladdr_def bnd_def kcall_quiet run_simps mc_sees_def split: option.splits)
  have state_file: "sentinel_in_file_arp S f (mc_sentinel_str s) s = Some (w_file_ok v, s)"
    if "mc_sentinel_file s = Some f" for f
  proof -
    have "strncmp_eq (fgets_take 63 c) (mc_sentinel_str s) (length (mc_sentinel_str s)) \<longleftrightarrow>
        take (length (mc_sentinel_str s)) c = mc_sentinel_str s" for c
      using sees by (intro strncmp_fgets) (auto simp: mc_sees_def clean_def)
    moreover have "mc_sentinel_str s \<noteq> []" using sees by (simp add: mc_sees_def clean_def)
    ultimately show ?thesis
      using sees that
      by (auto simp: mc_sees_def sentinel_in_file_arp_def bnd_def read_line_quiet [OF qr] run_simps
          fgets_def split: option.splits if_splits)
  qed
  show ?thesis
    by (cases "mc_sentinel_file s"; cases "mc_require_route s"; cases "w_host v")
      (auto simp: mc_decide_def mc_spec_at_def mc_spec_def bnd_def run_simps router host state_file
        scans_quiet(3) [OF qr tables(1)] cached_quiet [OF qr] first_some_None split: option.split)
qed

lemma mc_sees_ifindex [simp]:
  "mc_spec_at S (s\<lparr>mc_ifindex := i\<rparr>) v = mc_spec_at S s v"
  by (auto simp: mc_spec_at_def mc_cached_def cache_view_def split: option.split)

lemma reconcile_arp_spec:
  assumes q: "mc_quiet S" and sees: "mc_sees S s v"
  shows "reconcile_arp S s = mc_act S (mc_spec_at S s v) (s\<lparr>mc_ifindex := w_ifindex v\<rparr>)"
proof -
  have idx: "fst (sys_if_nametoindex S (mc_ifname s) (kern s)) = w_ifindex v"
    using sees by (simp add: mc_sees_def)
  have "mc_sees S (s\<lparr>mc_ifindex := w_ifindex v\<rparr>) v"
    using sees by (simp add: mc_sees_def split: option.splits)
  then show ?thesis
    using mc_decide_spec [OF q, of "s\<lparr>mc_ifindex := w_ifindex v\<rparr>" v]
    by (simp add: reconcile_arp_split mc_observe_def bnd_def run_simps idx
        kcall_quiet [OF quiet_readsD(1) [OF mc_quietD(1) [OF q]]])
qed

section \<open>The ARP entry\<close>

text \<open>
  The documented effect of \<^verbatim>\<open>arp -s\<close> and \<^verbatim>\<open>arp -d\<close>: a command that exits with status 0 and
  leaves a permanent entry, and one that leaves none. \<open>arp\<close> reads the permanent entry of the
  gateway address off a world.
\<close>

definition arp_law :: "('k, 'x) mc_sys_scheme \<Rightarrow> ('k \<Rightarrow> mac_addr option) \<Rightarrow> string \<Rightarrow> string \<Rightarrow> bool" where
  "arp_law S arp sentinel_str ifname \<longleftrightarrow>
     (\<forall>k mac. length mac = 6 \<longrightarrow>
       (\<exists>k'. runs S (arp_s sentinel_str ifname mac) k 0 k' \<and> arp k' = Some mac)) \<and>
     (\<forall>k. \<exists>st k'. runs S (arp_d sentinel_str ifname) k st k' \<and> arp k' = None)"

text \<open>What the link-layer table says of the permanent entry.\<close>

definition arp_static :: "u32 \<Rightarrow> in_addr \<Rightarrow> rt_msg list \<Rightarrow> mac_addr option" where
  "arp_static ifindex addr ms =
     (case first_some (mc_arp ifindex addr) ms of None \<Rightarrow> None | Some e \<Rightarrow> e)"

definition arp_shown :: "('k, 'x) mc_sys_scheme \<Rightarrow> ('k \<Rightarrow> mac_addr option) \<Rightarrow> u32 \<Rightarrow> in_addr \<Rightarrow> 'k \<Rightarrow> bool" where
  "arp_shown S arp ifindex addr k \<longleftrightarrow> (\<exists>ms. mc_table S (Rt_flags AF_INET RTF_LLINFO) k ms \<and>
     arp k = arp_static ifindex addr ms)"

lemma mc_arp_length:
  assumes "wf_msg darwin_abi m" and "mc_arp i a m = Some (Some ll)"
  shows "length ll = 6"
proof -
  obtain g where g: "rm_slots m ! 1 = Some g" "sa_fam g = AF_LINK" "sa_alen g = 6" "ll = sa_ll g 6"
    using assms(2) by (auto simp: mc_arp_def on_pair_def slot_index split: option.splits if_splits)
  have "length (rm_slots m) = 8" using assms(1) by (simp add: wf_msg_def RTAX_MAX_def)
  then have "Some g \<in> set (rm_slots m)" using g(1) nth_mem [of 1 "rm_slots m"] by simp
  then have "wf_sa darwin_abi g" using assms(1) by (simp add: wf_msg_def)
  then show ?thesis using g by (auto simp: wf_sa_def sa_fam_def sa_alen_def sa_ll_def)
qed

lemma first_some_map: "first_some (\<lambda>x. map_option f (g x)) xs = map_option f (first_some g xs)"
  by (induction xs) (auto split: option.split)

lemma arp_present_static:
  assumes wf: "\<forall>m \<in> set ms. wf_msg darwin_abi m" and "length mac = 6"
  shows "first_some (mc_arp_is i a mac) ms = Some True \<longleftrightarrow> arp_static i a ms = Some mac"
proof (cases "first_some (mc_arp i a) ms")
  case None
  then show ?thesis
    by (simp add: mc_arp_is_def [abs_def] first_some_map arp_static_def)
next
  case (Some e)
  then have "\<exists>m \<in> set ms. mc_arp i a m = Some e" by (rule first_some_Some)
  then have "length ll = 6" if "e = Some ll" for ll
    using wf that mc_arp_length by blast
  then show ?thesis
    using Some assms(2)
    by (auto simp: mc_arp_is_def [abs_def] first_some_map arp_static_def memcmp_zero split: option.splits)
qed

text \<open>What an action leaves alone.\<close>

definition mc_frame :: "'k mc_state \<Rightarrow> 'k mc_state \<Rightarrow> bool" where
  "mc_frame s t \<longleftrightarrow> files t = files s \<and> mc_ifindex t = mc_ifindex s \<and> mc_same s t"

lemma mc_frame_upd [simp]: "mc_same s s" "mc_frame s s"
  by (simp_all add: mc_frame_def mc_same_def)

lemma install_arp_sets:
  assumes q: "quiet_reads S" and law: "arp_law S arp (mc_sentinel_str s) (mc_ifname s)"
    and shown: "arp_shown S arp (mc_ifindex s) (mc_sentinel_addr s) (kern s)"
    and inv: "mc_inv s" and len: "length mac = 6"
  shows "wp (install_arp S mac) (\<lambda>_ t. arp (kern t) = Some mac \<and> mc_installed t \<and> mc_mac t = mac \<and>
    mc_frame s t) s"
proof -
  obtain ms where ms: "mc_table S (Rt_flags AF_INET RTF_LLINFO) (kern s) ms"
    and arp: "arp (kern s) = arp_static (mc_ifindex s) (mc_sentinel_addr s) ms"
    using shown by (auto simp: arp_shown_def)
  have check: "arp_entry_present S (mc_ifindex s) (mc_sentinel_addr s) mac s
      = Some (arp (kern s) = Some mac, s)"
    using arp_present_static [OF _ len] ms
    by (simp add: scans_quiet(4) [OF q ms] arp mc_table_def)
  obtain k' where r: "runs S (arp_s (mc_sentinel_str s) (mc_ifname s) mac) (kern s) 0 k'"
    and set: "arp k' = Some mac"
    using law len unfolding arp_law_def by blast
  have ran: "run S (arp_s (mc_sentinel_str s) (mc_ifname s) mac) s
      = Some (0, s\<lparr>kern := k', out := out s @ [Ev_run (arp_s (mc_sentinel_str s) (mc_ifname s) mac) 0]\<rparr>)"
    using run_runs [OF r] by (simp add: exit_code_def WIFEXITED_def WEXITSTATUS_def)
  have "mc_mac s = mac" if "mc_installed s" "memcmp (mc_mac s) mac = 0"
    using that inv len by (simp add: mc_inv_def memcmp_zero)
  then show ?thesis
    by (auto simp: wp_def install_arp_def bnd_def run_simps check ran emit_def set mc_frame_def mc_same_def)
qed

text \<open>A withdrawal of an entry that the daemon remembers runs one command, and the entry is gone.\<close>

lemma withdraw_arp_exact:
  assumes law: "arp_law S arp (mc_sentinel_str s) (mc_ifname s)"
  shows "wp (withdraw_arp S reason) (\<lambda>_ t. \<not> mc_installed t \<and>
    arp (kern t) = (if mc_installed s then None else arp (kern s)) \<and>
    (if mc_installed s
     then \<exists>r. out t = out s @ [Ev_run (arp_d (mc_sentinel_str s) (mc_ifname s)) r, Log_arp_withdrew reason]
     else out t = out s)) s"
proof -
  obtain st k' where r: "runs S (arp_d (mc_sentinel_str s) (mc_ifname s)) (kern s) st k'"
    and clear: "arp k' = None"
    using law unfolding arp_law_def by blast
  show ?thesis
    by (auto simp: wp_def withdraw_arp_def bnd_def run_simps run_runs [OF r] emit_def clear)
qed

lemma withdraw_arp_clears:
  assumes law: "arp_law S arp (mc_sentinel_str s) (mc_ifname s)"
  shows "wp (withdraw_arp S reason) (\<lambda>_ t. \<not> mc_installed t \<and>
    arp (kern t) = (if mc_installed s then None else arp (kern s))) s"
  by (rule wp_mono [OF withdraw_arp_exact [OF law]]) blast

lemma put_quiet:
  assumes "mc_quiet S"
  shows "wp (router_cache_put S h mac) (\<lambda>_ t. kern t = kern s \<and> mc_installed t = mc_installed s) s"
  unfolding router_cache_put_def Let_def
  by (simp add: wp_simps mc_quietD [OF assms] wp_def [of "router_cache_lookup S h"]
      cached_quiet [OF mc_quietD(1) [OF assms]])

lemma mc_spec_ok:
  assumes q: "mc_quiet S" and sees: "mc_sees S s v"
  shows "mc_decision_ok (mc_spec_at S s v)"
  using returns_mc_decide [of S "w_ifindex v"] mc_decide_spec [OF assms] unfolding returns_def by blast

text \<open>When a decision is carried out: the system keeps its promises, the memory is in order.\<close>

definition mc_promises ::
    "('k, 'x) mc_sys_scheme \<Rightarrow> ('k \<Rightarrow> mac_addr option) \<Rightarrow> 'k mc_state \<Rightarrow> bool" where
  "mc_promises S arp s \<longleftrightarrow> mc_quiet S \<and> arp_law S arp (mc_sentinel_str s) (mc_ifname s) \<and>
     arp_shown S arp (mc_ifindex s) (mc_sentinel_addr s) (kern s) \<and> mc_inv s"

lemma mc_pin_sets:
  assumes "mc_promises S arp s" and "length mac = 6"
  shows "wp (mc_pin S mac host) (\<lambda>_ t. arp (kern t) = Some mac \<and> mc_installed t) s"
proof -
  have q: "mc_quiet S" using assms(1) by (simp add: mc_promises_def)
  have "wp (case host of None \<Rightarrow> ret () | Some h \<Rightarrow> router_cache_put S h mac)
      (\<lambda>_ u. arp (kern u) = Some mac \<and> mc_installed u) t"
    if "arp (kern t) = Some mac \<and> mc_installed t" for t
    using that by (auto simp: wp_ret intro: wp_mono [OF put_quiet [OF q]] split: option.split)
  then show ?thesis
    unfolding mc_pin_def wp_bnd
    using assms by (intro wp_mono [OF install_arp_sets [OF mc_quietD(1) [OF q], where arp = arp]]) (simp_all add: mc_promises_def)
qed

interpretation mc_keeper: entry_keeper "modify (\<lambda>s. s\<lparr>mc_installed := False\<rparr>)" "withdraw_arp S" "mc_pin S"
  "\<lambda>s. arp (kern s)" mc_installed "mc_promises S arp" "\<lambda>mac host. length mac = 6 \<and> mac_len_ok host" "\<lambda>_. Some" None
  for S :: "('k, 'x) mc_sys_scheme" and arp
proof
  fix s :: "'k mc_state" and reason mac host
  assume ok: "mc_promises S arp s"
  show "wp (modify (\<lambda>s. s\<lparr>mc_installed := False\<rparr>))
      (\<lambda>_ t. arp (kern t) = arp (kern s) \<and> \<not> mc_installed t) s"
    by (simp add: wp_simps)
  show "wp (withdraw_arp S reason)
      (\<lambda>_ t. arp (kern t) = (if mc_installed s then None else arp (kern s)) \<and> \<not> mc_installed t) s"
    using ok by (intro wp_mono [OF withdraw_arp_clears [where arp = arp]]) (simp_all add: mc_promises_def)
  show "wp (mc_pin S mac host) (\<lambda>_ t. arp (kern t) = Some mac \<and> mc_installed t) s" if "length mac = 6 \<and> mac_len_ok host"
    using ok conjunct1 [OF that] by (rule mc_pin_sets)
qed

lemma reconcile_arp_sets:
  assumes q: "mc_quiet S" and sees: "mc_sees S s v"
    and law: "arp_law S arp (mc_sentinel_str s) (mc_ifname s)"
    and shown: "arp_shown S arp (w_ifindex v) (mc_sentinel_addr s) (kern s)" and inv: "mc_inv s"
  shows "wp (reconcile_arp S) (\<lambda>_ t. arp (kern t) =
    entry_after Some None (mc_spec_at S s v) (mc_installed s) (arp (kern s))) s"
proof -
  let ?s = "s\<lparr>mc_ifindex := w_ifindex v\<rparr>"
  have "mc_promises S arp ?s"
    using q law shown inv by (simp add: mc_promises_def)
  moreover have "fit_decision (\<lambda>mac host. length mac = 6 \<and> mac_len_ok host) (mc_spec_at S s v)"
    using mc_spec_ok [OF q sees] by (simp add: mc_decision_ok_def fit_decision_def)
  ultimately have "wp (mc_act S (mc_spec_at S s v)) (\<lambda>_ t. arp (kern t) =
      entry_after Some None (mc_spec_at S s v) (mc_installed s) (arp (kern s))) ?s"
    unfolding mc_act_def by (rule wp_mono [OF mc_keeper.carry_sets]) simp
  then show ?thesis by (simp add: wp_def reconcile_arp_spec [OF q sees])
qed

end
