(* ===== verification/Macos_Demo.thy ===== *)
theory Macos_Demo
  imports Macos_Arp
begin

text \<open>
  The rest of what the properties of the macOS daemon need: the start, the dry run, a torn
  write, and \<open>mc_demo\<close>, a small world for the witnesses.
\<close>

section \<open>The start\<close>

lemma mc_opts_wlp:
  assumes "\<not> mc_installed s" and "1 \<le> mc_interval s" and "inet_aton (mc_sentinel_str s) = Some (mc_sentinel_addr s)"
  shows "wlp (mc_opts os) (\<lambda>r t. \<not> mc_installed t \<and> (r = None \<longrightarrow> 1 \<le> mc_interval t) \<and>
    inet_aton (mc_sentinel_str t) = Some (mc_sentinel_addr t)) s"
  using assms
proof (induction os arbitrary: s rule: mc_opts.induct)
  case (1 s)
  then show ?case by (simp add: wp_simps)
next
  case (2 c os s)
  then show ?case by (auto simp: wp_simps)
next
  case (3 c optarg os s)
  then show ?case by (auto simp: wp_simps split: option.split)
next
  case (4 os s)
  then show ?case by (simp add: wp_simps)
qed

text \<open>The dry run changes the index, the world and the history, and runs no command.\<close>

definition is_report :: "mc_event \<Rightarrow> bool" where
  "is_report e \<longleftrightarrow> (case e of Ev_run _ _ \<Rightarrow> False | Log_arp_failed _ \<Rightarrow> False | Log_arp_set _ \<Rightarrow> False
     | Log_arp_withdrew _ \<Rightarrow> False | Log_waiting \<Rightarrow> False | _ \<Rightarrow> True)"

definition dry_same :: "'k mc_state \<Rightarrow> 'k mc_state \<Rightarrow> bool" where
  "dry_same s t \<longleftrightarrow> files t = files s \<and> mc_installed t = mc_installed s \<and>
     (\<exists>es. out t = out s @ es \<and> (\<forall>e \<in> set es. is_report e))"

definition dry :: "('k mc_state, 'a) prog \<Rightarrow> bool" where
  "dry m \<longleftrightarrow> (\<forall>s. wlp m (\<lambda>_. dry_same s) s)"

lemma dry_same_trans: "dry_same s t \<Longrightarrow> dry_same t u \<Longrightarrow> dry_same s u"
  by (fastforce simp: dry_same_def)

lemma dry_bnd: "dry m \<Longrightarrow> (\<And>x. dry (f x)) \<Longrightarrow> dry (bnd m f)"
  unfolding dry_def wlp_def bnd_def by (fastforce split: option.splits intro: dry_same_trans)

lemma dry_basic:
  "kern_only m \<Longrightarrow> dry m" "is_report e \<Longrightarrow> dry (emit e)" "dry (ret x)" "dry (gets g)"
  "dry (kcall c)" "dry (modify (\<lambda>s. s\<lparr>mc_ifindex := i\<rparr>))"
  by (auto simp: dry_def wp_simps dry_same_def intro: wlp_kern_only)

lemma dry_cases:
  "dry m \<Longrightarrow> dry n \<Longrightarrow> dry (if b then m else n)"
  "dry m \<Longrightarrow> (\<And>x. dry (f x)) \<Longrightarrow> dry (case r of None \<Rightarrow> m | Some x \<Rightarrow> f x)"
  by (auto split: option.split)

lemma dry_report: "dry (dry_run_report_arp S)"
  unfolding dry_run_report_arp_def
  by (intro dry_bnd dry_cases dry_basic(2-6) dry_basic(1) [OF kern_only_mc_reads(1)]
      dry_basic(1) [OF kern_only_mc_reads(2)] dry_basic(1) [OF kern_only_mc_reads(4)]
      dry_basic(1) [OF kern_only_mc_reads2(1)])
    (simp_all add: is_report_def)

lemma reconcile_arp_ready: "mc_ready s \<Longrightarrow> wlp (reconcile_arp S) (\<lambda>_. mc_ready) s"
proof -
  assume ready: "mc_ready s"
  then have "wlp (reconcile_arp S) (\<lambda>_ t. mc_same s t \<and> mc_inv t) s"
    using mc_keeps_reconcile by (intro wlp_conj reconcile_arp_inv) (auto simp: mc_keeps_def mc_ready_def)
  then show ?thesis
    using ready by (auto simp: mc_ready_def mc_same_def elim!: wlp_mono)
qed

text \<open>What holds before the operands are looked at.\<close>

definition mc_starting :: "'k mc_state \<Rightarrow> bool" where
  "mc_starting s \<longleftrightarrow> \<not> mc_installed s \<and> 1 \<le> mc_interval s \<and>
     inet_aton (mc_sentinel_str s) = Some (mc_sentinel_addr s)"

definition mc_outcome :: "int option \<Rightarrow> 'k mc_state \<Rightarrow> bool" where
  "mc_outcome r t \<longleftrightarrow> (if r = None then mc_ready t else \<not> mc_installed t)"

lemma mc_outcome_simps: "mc_outcome None = mc_ready" "mc_outcome (Some c) t \<longleftrightarrow> \<not> mc_installed t"
  by (simp_all add: mc_outcome_def fun_eq_iff)

lemma mc_start_wlp:
  assumes "mc_starting s"
  shows "wlp (mc_start S operands s) mc_outcome s"
proof -
  have dry: "wlp (dry_run_report_arp S) (\<lambda>c. mc_outcome (Some c)) t" if "\<not> mc_installed t" for t
    using dry_report [of S] that
    by (auto simp: dry_def dry_same_def mc_outcome_simps elim!: wlp_mono allE [of _ t])
  have eta: "wlp (ret r) mc_outcome = mc_outcome r" for r :: "int option"
    by (rule ext) (simp add: wlp_ret)
  have "mc_ready t \<Longrightarrow> wlp (reconcile_arp S) (\<lambda>_. mc_ready) t" for t
    by (rule reconcile_arp_ready)
  then show ?thesis
    unfolding mc_start_def using assms
    by (auto simp: wlp_bnd wlp_modify wlp_kcall wlp_emit wlp_ret wlp_if eta mc_outcome_simps mc_starting_def
        mc_ready_def mc_inv_def intro!: dry)
qed

lemma mc_env_wlp:
  "wlp (mc_gateway_env envgw) (\<lambda>valid t. if valid then mc_starting t else \<not> mc_installed t) (mc_init k fs)"
  unfolding mc_gateway_env_def
  by (auto simp: wp_simps mc_starting_def mc_init_def split: option.split)

lemma mc_main_wlp: "wlp (mc_main S envgw args) mc_outcome (mc_init k fs)"
proof -
  obtain os operands where go:
    "getopt [(CHR ''n'', False), (CHR ''r'', False), (CHR ''f'', True), (CHR ''i'', True)] args
      = (os, operands)"
    by fastforce
  have opts: "wlp (mc_opts os) (\<lambda>r t. if r = None then mc_starting t else \<not> mc_installed t) t"
    if "mc_starting t" for t
    using that mc_opts_wlp [of t os] by (auto simp: mc_starting_def elim!: wlp_mono)
  show ?thesis
    unfolding mc_main_def wlp_bnd go Let_def prod.case
    by (rule wlp_mono [OF mc_env_wlp])
      (auto simp: wlp_ret wlp_bnd wlp_gets mc_outcome_simps
        intro!: wlp_mono [OF opts] mc_start_wlp split: if_split_asm option.split)
qed

section \<open>A torn write\<close>

lemma scan_hex_nibble: "n < 16 \<Longrightarrow> scan_hex [hex_digit upper n] = Some (of_nat n, [])"
proof -
  assume n: "n < 16"
  then have hex: "is_hex (hex_digit upper n)" by simp
  then have "\<not> is_space (hex_digit upper n)" by (rule is_hex_not_space)
  moreover have "hex_digit upper n \<notin> {CHR ''-'', CHR ''+''}"
    using hex is_hex_not(1,2) by (metis insertE singletonD)
  moreover have "ucast (of_nat n :: 64 word) = (of_nat n :: byte)"
    using n by (simp add: unsigned_of_nat take_bit_nat_eq_self)
  ultimately show ?thesis
    using hex n by (simp add: scan_hex_def c_hd_def hex_num_def hex_digit_val strtou64_def)
qed

lemma scan_bytes_torn:
  assumes "\<not> is_hex sep" and "n < 16"
  shows "scan_bytes sep (Suc (length m)) (concat (map (\<lambda>b. hex_byte upper b @ [sep]) m) @ [hex_digit upper n])
    = Some (m @ [of_nat n])"
proof (induction m)
  case Nil
  then show ?case using assms(2) by (simp add: scan_hex_nibble)
next
  case (Cons b m)
  have "scan_hex (hex_byte upper b @ sep # concat (map (\<lambda>b. hex_byte upper b @ [sep]) m) @ [hex_digit upper n])
      = Some (b, sep # concat (map (\<lambda>b. hex_byte upper b @ [sep]) m) @ [hex_digit upper n])"
    using assms(1) by (intro scan_hex_byte) simp
  then show ?case using Cons by simp
qed

text \<open>An address whose last digit is lost.\<close>

definition torn :: "mac_addr \<Rightarrow> mac_addr" where
  "torn m = take 5 m @ [of_nat (unat (m ! 5) div 16)]"

lemma torn_text:
  assumes "length m = 6"
  shows "take 16 (mac_str m) = concat (map (\<lambda>b. hex_byte False b @ [CHR '':'']) (take 5 m)) @
    [hex_digit False (unat (m ! 5) div 16)]"
proof -
  obtain a b c d e f where m: "m = [a, b, c, d, e, f]"
    using assms by (auto simp: numeral_eq_Suc length_Suc_conv)
  have "mac_str m = join (CHR '':'') (map (hex_byte False) m)"
    using mac_text_fits(1) [OF assms] by (simp add: mac_str_def)
  then show ?thesis
    by (simp add: m hex_byte_def)
qed

lemma fgets_short: "newline \<notin> set c \<Longrightarrow> length c \<le> n \<Longrightarrow> fgets_take n c = c"
proof (induction c arbitrary: n)
  case Nil
  then show ?case by (cases n) auto
next
  case (Cons x c)
  then show ?case by (cases n) auto
qed

lemma torn_view:
  assumes len: "length m = 6" and stored: "files t (router_cache_path host 64) = Some (take 16 (mac_str m @ [newline]))"
  shows "cache_view t host = Some (torn m)"
proof -
  have cut: "take 16 (mac_str m @ [newline]) = take 16 (mac_str m)"
    using mac_text_fits(2) [OF len] by (simp add: mac_str_def)
  have chars: "c \<noteq> newline \<and> c \<noteq> nul" if "c \<in> set (take 16 (mac_str m))" for c
  proof -
    have "c = CHR '':'' \<or> is_hex c"
      using mac_text_chars [OF len] in_set_takeD [OF that] by (simp add: mac_str_def)
    then show ?thesis using is_hex_not(4,5) by (auto simp: newline_def nul_def)
  qed
  have nonempty: "take 16 (mac_str m) \<noteq> []"
    using mac_text_fits(2) [OF len, of False "CHR '':''"] by (auto simp: mac_str_def)
  have "fgets 32 (take 16 (mac_str m)) = Some (take 16 (mac_str m))"
  proof -
    have "fgets_take 31 (take 16 (mac_str m)) = take 16 (mac_str m)"
      using chars by (intro fgets_short) auto
    then show ?thesis using nonempty by (simp add: fgets_def)
  qed
  moreover have whole: "takeWhile (\<lambda>c. c \<noteq> nul) (take 16 (mac_str m)) = take 16 (mac_str m)"
    using chars by (simp add: takeWhile_eq_all_conv)
  moreover have "scan_bytes (CHR '':'') (Suc (length (take 5 m))) (take 16 (mac_str m)) = Some (torn m)"
    unfolding torn_text [OF len] torn_def
    by (rule scan_bytes_torn) (simp_all add: is_hex_not hex_byte_digits)
  then have "scan_bytes (CHR '':'') 6 (take 16 (mac_str m)) = Some (torn m)"
    using len by (simp add: eval_nat_numeral)
  then have "scan_mac (CHR '':'') (take 16 (mac_str m)) = Some (torn m)"
    unfolding scan_mac_def whole .
  ultimately show ?thesis
    using stored [unfolded cut] by (simp add: cache_view_def)
qed

lemma put_torn:
  assumes q: "mc_quiet S" and len: "length host = 6" "length m = 6"
    and "mc_cached S s host = None" and "fst (sys_fopen_w S (cache_tmp host) (kern s))"
    and "fst (sys_write_out S (cache_tmp host) (mac_str m @ [newline]) (kern s)) = 16"
    and "fst (sys_rename S (cache_tmp host) (router_cache_path host 64) (kern s))"
  shows "wp (router_cache_put S host m) (\<lambda>_ t. cache_view t host = Some (torn m)) s"
proof -
  have tmp: "snprintf 72 (router_cache_path host 64 @ ''.tmp'') = cache_tmp host"
    by (simp add: cache_tmp_def)
  have "router_cache_lookup S host s = Some (None, s)"
    using assms(4) by (simp add: cached_quiet [OF mc_quietD(1) [OF q]])
  moreover have "router_cache_path host 64 \<noteq> cache_tmp host"
    by (rule cache_tmp_fresh) (use len in simp_all)
  ultimately show ?thesis
    unfolding router_cache_put_def Let_def tmp
    using assms(5-7) by (auto simp: wp_simps wp_def [of "router_cache_lookup S host"] mc_quietD [OF q]
        intro!: torn_view len(2))
qed

section \<open>A small world\<close>

text \<open>
  A machine with one interface \<open>en0\<close> of index 4 whose permanent ARP entry is the world.
\<close>

definition mc_msg :: "u32 \<Rightarrow> byte list \<Rightarrow> byte list \<Rightarrow> rt_msg" where
  "mc_msg flags d g =
     \<lparr>rm_version = RTM_VERSION, rm_type = 4, rm_index = 4, rm_spare = [0, 0], rm_flags = flags,
      rm_rest = replicate 76 0, rm_slots = [Some d, Some g, None, None, None, None, None, None]\<rparr>"

definition sin6 :: "in6_addr \<Rightarrow> byte list" where
  "sin6 a = [28, 30, 0, 0, 0, 0, 0, 0] @ a @ [0, 0, 0, 0]"

definition sin4 :: "in_addr \<Rightarrow> byte list" where
  "sin4 a = [16, AF_INET, 0, 0] @ a @ replicate 8 0"

definition sdl6 :: "mac_addr \<Rightarrow> byte list" where
  "sdl6 mac = [20, AF_LINK, 4, 0, 6, 0, 6, 0] @ mac @ replicate 6 0"

definition fe80 :: "byte \<Rightarrow> byte \<Rightarrow> in6_addr" where
  "fe80 scope x = [0xfe, 0x80, 0, scope, 0, 0, 0, 0, 0, 0, 0, 0, 0, 0, 0, x]"

definition demo_default :: rt_msg where
  "demo_default = mc_msg (RTF_UP OR RTF_GATEWAY) (sin6 (replicate 16 0)) (sin6 (fe80 4 1))"

definition demo_neighbor :: "mac_addr \<Rightarrow> rt_msg" where
  "demo_neighbor mac = mc_msg 0 (sin6 (fe80 4 1)) (sdl6 mac)"

definition demo_arp :: "mac_addr \<Rightarrow> rt_msg" where
  "demo_arp mac = mc_msg RTF_STATIC (sin4 [192, 0, 0, 11]) (sdl6 mac)"

definition mc_demo :: "rt_msg list \<Rightarrow> rt_msg list \<Rightarrow> mac_addr option mc_sys" where
  "mc_demo routes neighbors =
     (let tbl = (\<lambda>m k. case m of
                     Rt_dump a \<Rightarrow> if a = AF_INET then [] else enc_msgs routes
                   | Rt_flags a f \<Rightarrow>
                       if a = AF_INET then (case k of None \<Rightarrow> []
                          | Some mac \<Rightarrow> if length mac = 6 then enc_msgs [demo_arp mac] else [])
                       else enc_msgs neighbors
                   | Nd6_drlist \<Rightarrow> []) in
      \<lparr>sys_if_nametoindex = (\<lambda>n k. (if n = ''en0'' then 4 else 0, k)),
       sys_sysctl_len = (\<lambda>m k. (Some (length (tbl m k)), k)),
       sys_malloc = (\<lambda>n k. (True, k)),
       sys_sysctl = (\<lambda>m n k. (Some (tbl m k), k)),
       sys_fopen_r = (\<lambda>p k. (True, k)),
       sys_socket = (\<lambda>k. (3, k)),
       sys_poll = (\<lambda>t k. (0, k)),
       sys_read = (\<lambda>n k. (None, k)),
       sys_getpid = 4242,
       sys_fork = (\<lambda>argv k. (77, if argv ! 1 = ''-s'' then scan_mac (CHR '':'') (argv ! 3) else None)),
       sys_waitpid = (\<lambda>pid k. (Wait_status 0, k)),
       sys_mkdir = (\<lambda>d k. (True, k)),
       sys_fopen_w = (\<lambda>p k. (True, k)),
       sys_write_out = (\<lambda>p t k. (length t, k)),
       sys_rename = (\<lambda>p q k. (True, k)),
       sys_getifaddrs = (\<lambda>k. (Some [\<lparr>ifa_name = ''en0'', ifa_addr = Some (sdl6 [2, 0, 0, 0, 0, 9])\<rparr>], k))\<rparr>)"

definition mc_demo_state :: "'k \<Rightarrow> 'k mc_state" where
  "mc_demo_state k = (mc_init k (\<lambda>_. None))\<lparr>mc_ifname := ''en0'', mc_sentinel_addr := [192, 0, 0, 11]\<rparr>"

lemma length_fe80 [simp]: "length (fe80 scope x) = 16"
  by (simp add: fe80_def)

lemma wf_demo_sas:
  "length a = 16 \<Longrightarrow> wf_sa darwin_abi (sin6 a)"
  "length b = 4 \<Longrightarrow> wf_sa darwin_abi (sin4 b)"
  "length mac = 6 \<Longrightarrow> wf_sa darwin_abi (sdl6 mac)"
  using sa_roundup_ceil [of 28 2] sa_roundup_ceil [of 16 2] sa_roundup_ceil [of 20 2]
  by (simp_all add: wf_sa_def sin6_def sin4_def sdl6_def darwin_abi_def AF_INET_def AF_LINK_def)

lemma wf_mc_msg:
  "wf_sa darwin_abi d \<Longrightarrow> wf_sa darwin_abi g \<Longrightarrow> length d + length g < 1000 \<Longrightarrow>
    wf_msg darwin_abi (mc_msg flags d g)"
  by (auto simp: wf_msg_def mc_msg_def darwin_abi_def RTAX_MAX_def msg_len_def)

lemma wf_mc_demos:
  "wf_msg darwin_abi demo_default"
  "length mac = 6 \<Longrightarrow> wf_msg darwin_abi (demo_neighbor mac)"
  "length mac = 6 \<Longrightarrow> wf_msg darwin_abi (demo_arp mac)"
  unfolding demo_default_def demo_neighbor_def demo_arp_def
  by (intro wf_mc_msg wf_demo_sas; simp add: sin6_def sin4_def sdl6_def)+

lemma demo_selected:
  "mc_gateway 4 demo_default = Some (fe80 0 1)"
  "length mac = 6 \<Longrightarrow> mc_neighbor 4 (fe80 0 1) (demo_neighbor mac) = Some mac"
  "length mac = 6 \<Longrightarrow> mc_arp 4 [192, 0, 0, 11] (demo_arp mac) = Some (Some mac)"
  by (simp_all add: mc_gateway_def mc_neighbor_def mc_arp_def on_pair_def demo_default_def
      demo_neighbor_def demo_arp_def mc_msg_def slot_index sa_fam_def sa_in6_def sa_in_def sa_alen_def
      sa_ll_def sin6_def sin4_def sdl6_def darwin_abi_def in6_unspecified_def strip_embedded_scope_def
      in6_linklocal_def fe80_def RTF_UP_def RTF_GATEWAY_def RTF_STATIC_def AF_INET_def AF_LINK_def)

lemma mc_demo_quiet: "mc_quiet (mc_demo routes neighbors)"
  by (simp add: mc_quiet_def quiet_reads_def quiet_def mc_demo_def Let_def)

lemma mc_demo_whole: "whole_writes (mc_demo routes neighbors)"
  by (simp add: whole_writes_def mc_demo_def Let_def)

lemma mc_demo_tables:
  assumes "\<forall>m \<in> set routes \<union> set neighbors. wf_msg darwin_abi m"
  shows "mc_table (mc_demo routes neighbors) (Rt_dump AF_INET) k []"
    and "mc_table (mc_demo routes neighbors) (Rt_dump (af_inet6 darwin_abi)) k routes"
    and "mc_table (mc_demo routes neighbors) (Rt_flags (af_inet6 darwin_abi) RTF_LLINFO) k neighbors"
    and "(case k of None \<Rightarrow> True | Some mac \<Rightarrow> length mac = 6) \<Longrightarrow>
      mc_table (mc_demo routes neighbors) (Rt_flags AF_INET RTF_LLINFO) k
        (case k of None \<Rightarrow> [] | Some mac \<Rightarrow> [demo_arp mac])"
  using assms
  by (auto simp: mc_table_def mc_demo_def Let_def fetched_def holds_table_def darwin_abi_def
      AF_INET_def enc_msgs_def wf_mc_demos [unfolded darwin_abi_def] split: option.split)

lemma mc_demo_state_simps [simp]:
  "kern (mc_demo_state k) = k" "mc_ifname (mc_demo_state k) = ''en0''"
  "mc_sentinel_str (mc_demo_state k) = ''192.0.0.11''" "mc_sentinel_addr (mc_demo_state k) = [192, 0, 0, 11]"
  "mc_sentinel_file (mc_demo_state k) = None" "\<not> mc_require_route (mc_demo_state k)"
  "\<not> mc_installed (mc_demo_state k)" "out (mc_demo_state k) = []" "files (mc_demo_state k) = (\<lambda>_. None)"
  "mc_interval (mc_demo_state k) = 15" "mc_running (mc_demo_state k)" "mc_ifindex (mc_demo_state k) = 0"
  by (simp_all add: mc_demo_state_def mc_init_def)

definition mc_demo_view :: "rt_msg list \<Rightarrow> rt_msg list \<Rightarrow> mc_view" where
  "mc_demo_view routes neighbors =
     \<lparr>w_ifindex = 4, w_file_ok = False, w_routes4 = [], w_routes6 = routes, w_neighbors = neighbors,
      w_host = Some [2, 0, 0, 0, 0, 9]\<rparr>"

lemma mc_demo_sees:
  assumes "\<forall>m \<in> set routes \<union> set neighbors. wf_msg darwin_abi m"
    and "mc_ifname s = ''en0''" and "mc_sentinel_file s = None" and "mc_sentinel_str s = ''192.0.0.11''"
  shows "mc_sees (mc_demo routes neighbors) s (mc_demo_view routes neighbors)"
  using assms(2-4) mc_demo_tables [OF assms(1)]
  by (simp add: mc_sees_def mc_demo_view_def clean_def nul_def newline_def)
    (simp add: mc_demo_def Let_def sa_family_def sdl_alen_def sdl_lladdr_def rd8_def rd_bytes_def sdl6_def)

lemma mc_demo_law: "arp_law (mc_demo routes neighbors) id str ifn"
proof -
  have "runs (mc_demo routes neighbors) (arp_s str ifn mac) k 0 (Some mac)" if "length mac = 6" for k mac
    using that scan_mac_text [of mac "CHR '':''" "[]" False] is_hex_not(3)
    by (simp add: runs_def mc_demo_def Let_def arp_s_def mac_str_def nul_def)
  moreover have "runs (mc_demo routes neighbors) (arp_d str ifn) k 0 None" for k
    by (simp add: runs_def mc_demo_def Let_def arp_d_def)
  ultimately show ?thesis
    unfolding arp_law_def by force
qed

lemma mc_demo_shown:
  assumes "\<forall>m \<in> set routes \<union> set neighbors. wf_msg darwin_abi m"
    and "case k of None \<Rightarrow> True | Some mac \<Rightarrow> length mac = 6"
  shows "arp_shown (mc_demo routes neighbors) id 4 [192, 0, 0, 11] k"
  unfolding arp_shown_def
proof (intro exI conjI)
  show "mc_table (mc_demo routes neighbors) (Rt_flags AF_INET RTF_LLINFO) k
      (case k of None \<Rightarrow> [] | Some mac \<Rightarrow> [demo_arp mac])"
    by (rule mc_demo_tables(4) [OF assms])
  show "id k = arp_static 4 [192, 0, 0, 11] (case k of None \<Rightarrow> [] | Some mac \<Rightarrow> [demo_arp mac])"
    using assms(2) by (auto simp: arp_static_def demo_selected split: option.splits)
qed

lemma wf_dump_msgs: "\<forall>m \<in> set ms. wf_msg A m \<Longrightarrow> wf_dump A (enc_msgs ms)"
  by (auto simp: wf_dump_def)

lemma mc_demo_sound:
  assumes "\<forall>m \<in> set routes \<union> set neighbors. wf_msg darwin_abi m"
  shows "mc_sound (mc_demo routes neighbors)"
proof -
  have "wf_dump darwin_abi (enc_msgs routes)" and "wf_dump darwin_abi (enc_msgs neighbors)"
    using assms by (intro wf_dump_msgs; simp)+
  moreover have "wf_dump darwin_abi []"
    using wf_dump_msgs [of "[]" darwin_abi] by (simp add: enc_msgs_def)
  moreover have "length mac = 6 \<Longrightarrow> wf_dump darwin_abi (enc_msgs [demo_arp mac])" for mac
    by (intro wf_dump_msgs) (simp add: wf_mc_demos)
  ultimately have "dump_ok darwin_abi (mc_demo routes neighbors)"
    by (auto simp: dump_ok_def mc_demo_def Let_def split: mib.splits option.splits)
  moreover have "ifaddrs_ok (mc_demo routes neighbors)"
    by (simp add: ifaddrs_ok_def mc_demo_def Let_def wf_ifaddr_def sdl6_def)
  moreover have "wait_ok (mc_demo routes neighbors)"
    by (auto simp: wait_ok_def mc_demo_def Let_def intro: wait_done)
  ultimately show ?thesis by (simp add: mc_sound_def)
qed

lemma mc_demo_main:
  "\<exists>s. mc_main (mc_demo [] []) None [''-i'', ''5'', ''en0''] (mc_init None (\<lambda>_. None))
      = Some (None, s) \<and> \<not> mc_installed s \<and> mc_interval s = 5"
proof -
  let ?S = "mc_demo [] []"
  let ?s = "mc_init None (\<lambda>_. None)\<lparr>mc_ifname := ''en0'', mc_ifindex := 4, mc_interval := 5,
    mc_rtsock := 3, mc_sentinel_addr := [192, 0, 0, 11]\<rparr>"
  have sees: "mc_sees ?S ?s (mc_demo_view [] [])"
    by (rule mc_demo_sees) (simp_all add: mc_init_def)
  have "mc_spec_at ?S ?s (mc_demo_view [] [])
      = Cease ''no IPv6 default router resolved yet; ceding to ARP bootstrap''"
    by (simp add: mc_spec_at_def mc_spec_def mc_router_mac_def mc_demo_view_def mc_cached_def cache_view_def
        mc_init_def)
  then have "reconcile_arp ?S ?s = Some ((), ?s)"
    by (simp add: reconcile_arp_spec [OF mc_demo_quiet sees])
      (simp add: mc_init_def withdraw_arp_def bnd_def run_simps mc_demo_view_def)
  moreover have "atoi ''5'' = Some 5"
    by code_simp
  moreover have "getopt [(CHR ''n'', False), (CHR ''r'', False), (CHR ''f'', True), (CHR ''i'', True)]
      [''-i'', ''5'', ''en0''] = ([Opt_arg (CHR ''i'') ''5''], [''en0''])"
    by simp
  ultimately show ?thesis
    by (simp add: mc_main_def mc_gateway_env_def mc_start_def bnd_def run_simps mc_init_def kcall_def
        inet_aton_default mc_demo_def Let_def)
qed

end
