(* ===== verification/Macos_Steady.thy ===== *)
theory Macos_Steady
  imports Macos_Arp
begin

text \<open>
  A second pass of the macOS daemon over the same tables does nothing: the daemon is a
  \<open>steady_keeper\<close>, and an update of the map, made again, leaves the files as they are.
\<close>

section \<open>Doing it again\<close>

text \<open>An update of the map that is repeated at once ends where the first one did.\<close>

lemma put_again:
  assumes q: "mc_quiet S" and len: "length h = 6"
  shows "wp (router_cache_put S h mac) (\<lambda>_ t. kern t = kern s \<and> mc_frame s (t\<lparr>files := files s\<rparr>) \<and>
    mc_installed t = mc_installed s \<and> mc_mac t = mc_mac s \<and>
    router_cache_put S h mac t = Some ((), t)) s"
proof -
  have ne: "router_cache_path h 64 \<noteq> cache_tmp h"
    by (rule cache_tmp_fresh [OF len len])
  have tmp: "snprintf 72 (router_cache_path h 64 @ ''.tmp'') = cache_tmp h"
    by (simp add: cache_tmp_def)
  show ?thesis
    by (auto simp: router_cache_put_def tmp wp_def bnd_def run_simps kcall_quiet mc_quietD [OF q] Let_def
        cached_quiet [OF mc_quietD(1) [OF q]] mc_cached_def cache_view_def mc_frame_def mc_same_def ne
        split: option.splits)
qed

lemma install_shown:
  assumes "quiet_reads S" and "arp_shown S arp (mc_ifindex t) (mc_sentinel_addr t) (kern t)"
    and "arp (kern t) = Some mac" and "mc_installed t" and "mc_mac t = mac" and "length mac = 6"
  shows "install_arp S mac t = Some ((), t)"
proof -
  obtain ms where ms: "mc_table S (Rt_flags AF_INET RTF_LLINFO) (kern t) ms"
    and "arp (kern t) = arp_static (mc_ifindex t) (mc_sentinel_addr t) ms"
    using assms(2) by (auto simp: arp_shown_def)
  then have "arp_entry_present S (mc_ifindex t) (mc_sentinel_addr t) mac t = Some (True, t)"
    using arp_present_static [of ms mac] assms(3,6)
    by (simp add: scans_quiet(4) [OF assms(1) ms] mc_table_def)
  then show ?thesis
    using assms(4-6) by (simp add: install_arp_def bnd_def run_simps memcmp_zero)
qed

lemma mc_pin_again:
  assumes ok: "mc_promises S arp s" and len: "length mac = 6" and host: "mac_len_ok host"
  shows "wp (mc_pin S mac host) (\<lambda>_ t. arp_shown S arp (mc_ifindex t) (mc_sentinel_addr t) (kern t) \<longrightarrow>
    mc_pin S mac host t = Some ((), t)) s"
proof -
  have q: "mc_quiet S" and shown: "arp_shown S arp (mc_ifindex s) (mc_sentinel_addr s) (kern s)"
    and law: "arp_law S arp (mc_sentinel_str s) (mc_ifname s)" and inv: "mc_inv s"
    using ok by (simp_all add: mc_promises_def)
  let ?put = "case host of None \<Rightarrow> ret () | Some h \<Rightarrow> router_cache_put S h mac"
  let ?Q = "\<lambda>t. arp_shown S arp (mc_ifindex t) (mc_sentinel_addr t) (kern t) \<longrightarrow>
    mc_pin S mac host t = Some ((), t)"
  have "wp ?put (\<lambda>_ t. kern t = kern u \<and> mc_frame u (t\<lparr>files := files u\<rparr>) \<and>
      mc_installed t = mc_installed u \<and> mc_mac t = mc_mac u \<and> ?put t = Some ((), t)) u" for u
    using put_again [OF q] host
    by (cases host) (simp_all add: wp_simps run_simps mac_len_ok_def mc_frame_def mc_same_def)
  moreover have "?Q t" if "arp (kern u) = Some mac" "mc_installed u" "mc_mac u = mac"
    "kern t = kern u" "mc_installed t = mc_installed u" "mc_mac t = mc_mac u" "?put t = Some ((), t)" for t u
    using that install_shown [OF mc_quietD(1) [OF q], of arp t mac] len
    by (simp add: mc_pin_def bnd_def)
  ultimately have "wp ?put (\<lambda>_. ?Q) u" if "arp (kern u) = Some mac" "mc_installed u" "mc_mac u = mac" for u
    using that by (fast elim: wp_mono)
  then show ?thesis
    unfolding mc_pin_def wp_bnd
    by (intro wp_mono [OF install_arp_sets [OF mc_quietD(1) [OF q] law shown inv len]])
      (simp add: mc_pin_def)
qed

text \<open>What a decision leaves alone: the files too, unless it remembers a router.\<close>

definition mc_left :: "mc_decision \<Rightarrow> 'k mc_state \<Rightarrow> 'k mc_state \<Rightarrow> bool" where
  "mc_left d s t \<longleftrightarrow> mc_same s t \<and> mc_ifindex t = mc_ifindex s \<and>
     ((\<exists>mac h. d = Pin mac (Some h)) \<or> files t = files s)"

lemma mc_act_left:
  fixes S :: "('k, 'x) mc_sys_scheme"
  shows "wlp (mc_act S d) (\<lambda>_. mc_left d s) s"
proof -
  have install: "wlp (install_arp S mac) Q s"
    if "\<And>t. files t = files s \<Longrightarrow> mc_ifindex t = mc_ifindex s \<Longrightarrow> Q () t" for mac Q and s :: "'k mc_state"
    unfolding install_arp_def wlp_bnd wlp_gets id_apply
    by (rule wlp_kern_only [OF kern_only_if [OF kern_only_mc_reads(3) kern_only_ret]])
      (auto intro!: wlp_run that simp: wlp_if wlp_ret wlp_bnd wlp_emit wlp_modify)
  have withdraw: "wlp (withdraw_arp S reason) (\<lambda>_ t. mc_ifindex t = mc_ifindex s \<and> files t = files s) s"
    for reason
    unfolding withdraw_arp_def wlp_bnd wlp_gets id_apply
    by (auto intro!: wlp_run simp: wlp_ret wlp_bnd wlp_emit wlp_modify)
  have put: "wlp (router_cache_put S h mac) (\<lambda>_ t. mc_ifindex t = mc_ifindex s) s" for h mac and s :: "'k mc_state"
    unfolding router_cache_put_def Let_def wlp_bnd
    by (rule wlp_kern_only [OF kern_only_cache_look])
      (simp add: wp_simps)
  have "wlp (mc_act S d) (\<lambda>_ t. mc_ifindex t = mc_ifindex s \<and>
      ((\<exists>mac h. d = Pin mac (Some h)) \<or> files t = files s)) s"
  proof (cases d)
    case (Pin mac host)
    then show ?thesis
      using wlp_mono [OF put] by (cases host) (auto simp: wlp_bnd wlp_ret intro!: install)
  qed (use withdraw in \<open>simp_all add: wp_simps\<close>)
  moreover have "wlp (mc_act S d) (\<lambda>_. mc_same s) s"
    using mc_keeps_act [of S d] unfolding mc_keeps_def by (rule spec)
  ultimately show ?thesis
    unfolding mc_left_def by (rule wlp_conj [rotated])
qed

interpretation mc_steady: steady_keeper "modify (\<lambda>s. s\<lparr>mc_installed := False\<rparr>)" "withdraw_arp S" "mc_pin S"
  "\<lambda>s. arp (kern s)" mc_installed "mc_promises S arp" "\<lambda>mac host. length mac = 6 \<and> mac_len_ok host"
  "\<lambda>_. Some" None "\<lambda>t. arp_shown S arp (mc_ifindex t) (mc_sentinel_addr t) (kern t)" mc_left
  for S :: "('k, 'x) mc_sys_scheme" and arp
proof
  fix s t :: "'k mc_state" and d reason mac host
  show "wlp (carry_out (modify (\<lambda>s. s\<lparr>mc_installed := False\<rparr>)) (withdraw_arp S) (mc_pin S) d)
      (\<lambda>_. mc_left d s) s"
    using mc_act_left by (simp only: mc_act_def)
  show "modify (\<lambda>s. s\<lparr>mc_installed := False\<rparr>) t = Some ((), t)" if "\<not> mc_installed t"
    using that by (simp add: run_simps)
  show "withdraw_arp S reason t = Some ((), t)" if "\<not> mc_installed t"
    using that by (simp add: withdraw_arp_def bnd_def run_simps)
  show "wp (mc_pin S mac host) (\<lambda>_ t. arp_shown S arp (mc_ifindex t) (mc_sentinel_addr t) (kern t) \<longrightarrow>
      mc_pin S mac host t = Some ((), t)) s"
    if "mc_promises S arp s" and "length mac = 6 \<and> mac_len_ok host"
    using that(2) by (intro mc_pin_again [OF that(1)]) simp_all
qed

section \<open>A second pass\<close>

text \<open>Whether a file can be opened has not changed.\<close>

definition same_access :: "('k, 'x) mc_sys_scheme \<Rightarrow> 'k \<Rightarrow> 'k \<Rightarrow> bool" where
  "same_access S k k' \<longleftrightarrow> (\<forall>p. fst (sys_fopen_r S p k') = fst (sys_fopen_r S p k))"

lemma mc_spec_again:
  assumes left: "mc_left (mc_spec_at S s v) s t" and access: "same_access S (kern s) (kern t)"
  shows "mc_spec_at S t v = mc_spec_at S s v"
proof (cases "files t = files s")
  case True
  then have "mc_cached S t h = mc_cached S s h" for h
    using access by (simp add: mc_cached_def cache_view_def same_access_def)
  then show ?thesis
    using left by (simp add: mc_left_def mc_same_def mc_spec_at_def cong: option.case_cong)
next
  case False
  then obtain mac h where "mc_spec_at S s v = Pin mac (Some h)"
    using left by (auto simp: mc_left_def)
  then show ?thesis
    using left
    by (auto simp: mc_left_def mc_same_def mc_spec_at_def mc_spec_def split: if_splits option.splits)
qed

lemma reconcile_arp_again:
  assumes q: "mc_quiet S" and sees: "mc_sees S s v"
    and law: "arp_law S arp (mc_sentinel_str s) (mc_ifname s)"
    and shown: "arp_shown S arp (w_ifindex v) (mc_sentinel_addr s) (kern s)" and inv: "mc_inv s"
  shows "wp (reconcile_arp S) (\<lambda>_ t. mc_sees S t v \<and> same_access S (kern s) (kern t) \<and>
    arp_shown S arp (w_ifindex v) (mc_sentinel_addr t) (kern t) \<longrightarrow>
    reconcile_arp S t = Some ((), t)) s"
proof -
  let ?d = "mc_spec_at S s v" and ?s = "s\<lparr>mc_ifindex := w_ifindex v\<rparr>"
  have "mc_promises S arp ?s"
    using q law shown inv by (simp add: mc_promises_def)
  moreover have "fit_decision (\<lambda>mac host. length mac = 6 \<and> mac_len_ok host) ?d"
    using mc_spec_ok [OF q sees] by (simp add: mc_decision_ok_def fit_decision_def)
  ultimately have "wp (mc_act S ?d) (\<lambda>_ t. mc_left ?d ?s t \<and>
      (arp_shown S arp (mc_ifindex t) (mc_sentinel_addr t) (kern t) \<longrightarrow> mc_act S ?d t = Some ((), t))) ?s"
    unfolding mc_act_def by (rule mc_steady.carry_again)
  then have "wp (mc_act S ?d) (\<lambda>_ t. mc_sees S t v \<and> same_access S (kern s) (kern t) \<and>
      arp_shown S arp (w_ifindex v) (mc_sentinel_addr t) (kern t) \<longrightarrow> reconcile_arp S t = Some ((), t)) ?s"
  proof (rule wp_mono, intro impI, elim conjE)
    fix t
    assume left: "mc_left ?d ?s t" and t: "mc_sees S t v" "same_access S (kern s) (kern t)"
      "arp_shown S arp (w_ifindex v) (mc_sentinel_addr t) (kern t)"
      and again: "arp_shown S arp (mc_ifindex t) (mc_sentinel_addr t) (kern t) \<longrightarrow>
        mc_act S ?d t = Some ((), t)"
    have i: "mc_ifindex t = w_ifindex v" using left by (simp add: mc_left_def)
    then have same: "t\<lparr>mc_ifindex := w_ifindex v\<rparr> = t" by simp
    have "mc_spec_at S t v = ?d"
      using mc_spec_again [of S ?s v t] left t(2) by simp
    then have "reconcile_arp S t = mc_act S ?d t"
      by (simp only: reconcile_arp_spec [OF q t(1)] same)
    then show "reconcile_arp S t = Some ((), t)"
      using again t(3) i by simp
  qed
  then show ?thesis by (simp add: wp_def reconcile_arp_spec [OF q sees])
qed

end
