(* ===== verification/Macos_Properties.thy ===== *)
theory Macos_Properties
  imports Macos_Demo Macos_Steady
begin

text \<open>
  The properties of the macOS daemon, each with a witness on \<open>mc_demo\<close> or on concrete values.
\<close>

section \<open>A pass\<close>

text \<open>
  C10: Against an arp command that does as documented, one pass of \<open>reconcile\<close> leaves the
  permanent ARP entry of the gateway address as the tables call for: on the router resolved by
  Neighbor Discovery, else on the one remembered for this network, else none of the daemon's. An
  entry that was flushed or replaced behind the daemon's back is put back, whatever its flag says.
\<close>
theorem mc_reconcile_arp_entry:
  assumes "mc_quiet S" and "mc_sees S s v" and "arp_law S arp (mc_sentinel_str s) (mc_ifname s)"
    and "arp_shown S arp (w_ifindex v) (mc_sentinel_addr s) (kern s)" and "mc_inv s"
  shows "wp (reconcile_arp S) (\<lambda>_ t. arp (kern t) =
    entry_after Some None (mc_spec_at S s v) (mc_installed s) (arp (kern s))) s"
  using assms by (rule reconcile_arp_sets)

theorem mc_reconcile_arp_entry_witness:
  "wp (reconcile_arp (mc_demo [demo_default] [demo_neighbor [2, 0, 0, 0, 0, 1]]))
    (\<lambda>_ t. kern t = Some [2, 0, 0, 0, 0, 1])
    (mc_demo_state None\<lparr>mc_installed := True, mc_mac := [2, 0, 0, 0, 0, 1],
      out := [Ev_run (arp_s ''192.0.0.11'' ''en0'' [2, 0, 0, 0, 0, 1]) 0]\<rparr>)"
proof -
  let ?m = "[2, 0, 0, 0, 0, 1] :: mac_addr"
  let ?S = "mc_demo [demo_default] [demo_neighbor ?m]"
  let ?s = "mc_demo_state None\<lparr>mc_installed := True, mc_mac := ?m,
      out := [Ev_run (arp_s ''192.0.0.11'' ''en0'' ?m) 0]\<rparr>"
  have wf: "\<forall>m \<in> set [demo_default] \<union> set [demo_neighbor ?m]. wf_msg darwin_abi m"
    by (simp add: wf_mc_demos)
  have sees: "mc_sees ?S ?s (mc_demo_view [demo_default] [demo_neighbor ?m])"
    by (rule mc_demo_sees [OF wf]) simp_all
  have shown: "arp_shown ?S id 4 [192, 0, 0, 11] None"
    by (rule mc_demo_shown [OF wf]) simp
  have "mc_spec_at ?S ?s (mc_demo_view [demo_default] [demo_neighbor ?m])
      = Pin ?m (Some [2, 0, 0, 0, 0, 9])"
    by (simp add: mc_spec_at_def mc_spec_def mc_router_mac_def mc_demo_view_def demo_selected)
  moreover have "mc_inv ?s"
    by (simp add: mc_inv_def arp_of_def arp_s_def)
  ultimately show ?thesis
    using mc_reconcile_arp_entry [OF mc_demo_quiet sees, of id] mc_demo_law shown
    by (simp add: mc_demo_view_def)
qed

text \<open>
  C11: What a pass of \<open>reconcile\<close> does, exactly, over tables that stand still: it records the
  interface index and carries out the decision \<open>mc_spec\<close> reads off the tables and the map.
\<close>
theorem mc_reconcile_decision:
  assumes "mc_quiet S" and "mc_sees S s v"
  shows "reconcile_arp S s = mc_act S (mc_spec_at S s v) (s\<lparr>mc_ifindex := w_ifindex v\<rparr>)"
  using assms by (rule reconcile_arp_spec)

theorem mc_reconcile_decision_witness:
  "reconcile_arp (mc_demo [] []) (mc_demo_state None)
    = Some ((), mc_demo_state None\<lparr>mc_ifindex := 4\<rparr>)"
proof -
  have "mc_sees (mc_demo [] []) (mc_demo_state None) (mc_demo_view [] [])"
    by (rule mc_demo_sees) simp_all
  then show ?thesis
    using mc_reconcile_decision [OF mc_demo_quiet, of "[]" "[]" "mc_demo_state None" "mc_demo_view [] []"]
    by (simp add: mc_spec_at_def mc_spec_def mc_router_mac_def mc_demo_view_def mc_cached_def
        cache_view_def withdraw_arp_def bnd_def run_simps)
qed

text \<open>
  C12: Reconciliation is idempotent: after a pass against a documented arp command, a second
  pass over the same tables, which now show the entry, runs no command, writes no file and
  leaves the whole state as it is.
\<close>
theorem mc_reconcile_idempotent:
  assumes "mc_quiet S" and "mc_sees S s v" and "arp_law S arp (mc_sentinel_str s) (mc_ifname s)"
    and "arp_shown S arp (w_ifindex v) (mc_sentinel_addr s) (kern s)" and "mc_inv s"
  shows "wp (reconcile_arp S) (\<lambda>_ t. mc_sees S t v \<and> same_access S (kern s) (kern t) \<and>
    arp_shown S arp (w_ifindex v) (mc_sentinel_addr t) (kern t) \<longrightarrow>
    reconcile_arp S t = Some ((), t)) s"
  using assms by (rule reconcile_arp_again)

theorem mc_reconcile_idempotent_witness:
  "wp (reconcile_arp (mc_demo [demo_default] [demo_neighbor [2, 0, 0, 0, 0, 1]]))
    (\<lambda>_ t. kern t = Some [2, 0, 0, 0, 0, 1] \<and>
      reconcile_arp (mc_demo [demo_default] [demo_neighbor [2, 0, 0, 0, 0, 1]]) t = Some ((), t))
    (mc_demo_state None)"
proof -
  let ?m = "[2, 0, 0, 0, 0, 1] :: mac_addr"
  let ?S = "mc_demo [demo_default] [demo_neighbor ?m]"
  let ?v = "mc_demo_view [demo_default] [demo_neighbor ?m]"
  have wf: "\<forall>m \<in> set [demo_default] \<union> set [demo_neighbor ?m]. wf_msg darwin_abi m"
    by (simp add: wf_mc_demos)
  have sees: "mc_sees ?S s ?v"
    if "mc_ifname s = ''en0''" "mc_sentinel_file s = None" "mc_sentinel_str s = ''192.0.0.11''" for s
    using that by (rule mc_demo_sees [OF wf])
  have shown: "arp_shown ?S id 4 [192, 0, 0, 11] k" if "k \<in> {None, Some ?m}" for k
    using that by (intro mc_demo_shown [OF wf]) auto
  have access: "same_access ?S None k" for k
    by (simp add: same_access_def mc_demo_def Let_def)
  have first: "mc_sees ?S (mc_demo_state None) ?v"
    by (rule sees) simp_all
  have pin: "mc_spec_at ?S (mc_demo_state None) ?v = Pin ?m (Some [2, 0, 0, 0, 0, 9])"
    by (simp add: mc_spec_at_def mc_spec_def mc_router_mac_def mc_demo_view_def demo_selected)
  have "wp (reconcile_arp ?S) (\<lambda>_ t. id (kern t) = Some ?m) (mc_demo_state None)"
    using reconcile_arp_sets [OF mc_demo_quiet first, of id] mc_demo_law shown pin
    by (simp add: mc_demo_view_def mc_inv_def)
  moreover have "wlp (reconcile_arp ?S) (\<lambda>_. mc_same (mc_demo_state None)) (mc_demo_state None)"
    using mc_keeps_reconcile [of ?S] unfolding mc_keeps_def by (rule spec)
  moreover have "wp (reconcile_arp ?S) (\<lambda>_ t. mc_sees ?S t ?v \<and> same_access ?S None (kern t) \<and>
      arp_shown ?S id 4 (mc_sentinel_addr t) (kern t) \<longrightarrow> reconcile_arp ?S t = Some ((), t))
      (mc_demo_state None)"
    using mc_reconcile_idempotent [OF mc_demo_quiet first, of id] mc_demo_law shown
    by (simp add: mc_demo_view_def mc_inv_def)
  ultimately have "wp (reconcile_arp ?S) (\<lambda>_ t. mc_same (mc_demo_state None) t \<and> id (kern t) = Some ?m \<and>
      (mc_sees ?S t ?v \<and> same_access ?S None (kern t) \<and>
       arp_shown ?S id 4 (mc_sentinel_addr t) (kern t) \<longrightarrow> reconcile_arp ?S t = Some ((), t)))
      (mc_demo_state None)"
    by (auto simp: wp_def wlp_def split: option.splits)
  then show ?thesis
    by (rule wp_mono)
      (simp add: sees shown access mc_same_def)
qed

text \<open>
  Whatever the system calls return, and however the world changes between any two of them,
  a pass over well-formed tables never reads outside a buffer, uses nothing uninitialised and
  ends, and keeps the daemon's flag and address in agreement with the commands that succeeded.
\<close>
theorem mc_reconcile_safe:
  assumes "mc_sound S" and "mc_inv s"
  shows "wp (reconcile_arp S) (\<lambda>_. mc_inv) s"
  using assms by (intro safe_wp safe_reconcile_arp reconcile_arp_inv)

theorem mc_reconcile_safe_witness:
  "wp (reconcile_arp (mc_demo [demo_default] [demo_neighbor [2, 0, 0, 0, 0, 1]])) (\<lambda>_. mc_inv)
    (mc_demo_state None)"
  by (rule mc_reconcile_safe [OF mc_demo_sound]) (simp_all add: wf_mc_demos mc_inv_def)

text \<open>
  Over any well-formed link-layer table \<open>arp_entry_present\<close> answers whether the first entry
  for the gateway address on the interface is permanent and holds exactly this MAC; a dynamic
  entry with the right MAC counts as absent.
\<close>
theorem mc_arp_entry_present:
  assumes "quiet_reads S" and "mc_table S (Rt_flags AF_INET RTF_LLINFO) (kern s) ms" and "length mac = 6"
  shows "arp_entry_present S ifindex addr mac s = Some (arp_static ifindex addr ms = Some mac, s)"
  using assms arp_present_static [of ms mac ifindex addr]
  by (simp add: scans_quiet(4) mc_table_def)

theorem mc_arp_entry_present_witness:
  "arp_entry_present (mc_demo [] []) 4 [192, 0, 0, 11] [2, 0, 0, 0, 0, 1]
      (mc_demo_state (Some [2, 0, 0, 0, 0, 1]))
    = Some (True, mc_demo_state (Some [2, 0, 0, 0, 0, 1]))"
  using mc_arp_entry_present [OF mc_quietD(1) [OF mc_demo_quiet] mc_demo_tables(4), of "[]" "[]"
      "mc_demo_state (Some [2, 0, 0, 0, 0, 1])" "[2, 0, 0, 0, 0, 1]" 4 "[192, 0, 0, 11]"]
  by (simp add: arp_static_def demo_selected)

text \<open>
  C13: Running a command returns exactly when the child cannot be started, or when \<open>waitpid\<close>
  reports its status after finitely many interruptions by a signal. An endless series of
  interruptions never returns, and after any other error of \<open>waitpid\<close> the code reads a status
  that was never written.
\<close>
theorem mc_run_returns:
  "run S argv s \<noteq> None \<longleftrightarrow>
    (case sys_fork S argv (kern s) of (pid, k) \<Rightarrow> pid < 0 \<or> waits S pid k)"
  using run_returns [of S argv s] by (auto split: prod.split)

theorem mc_run_returns_witness:
  "run (mc_demo [] []\<lparr>sys_waitpid := \<lambda>pid k. (Wait_error 10, k)\<rparr>) (arp_d ''192.0.0.11'' ''en0'')
      (mc_demo_state None) = None \<and>
    run (mc_demo [] []) (arp_d ''192.0.0.11'' ''en0'') (mc_demo_state None) \<noteq> None"
proof -
  let ?S = "mc_demo [] []\<lparr>sys_waitpid := \<lambda>pid k. (Wait_error 10, k)\<rparr>"
  have "\<not> waits ?S 77 k" for k
  proof
    assume "waits ?S 77 k"
    then show False by cases (simp_all add: EINTR_def)
  qed
  moreover have "waits (mc_demo [] []) 77 k" for k
    by (rule waits.wait_done [where st = 0]) (simp add: mc_demo_def Let_def)
  moreover have "sys_fork (mc_demo [] []) (arp_d ''192.0.0.11'' ''en0'') k = (77, None)" for k
    by (simp add: mc_demo_def Let_def arp_d_def)
  ultimately show ?thesis
    using mc_run_returns [of ?S "arp_d ''192.0.0.11'' ''en0''" "mc_demo_state None"]
      mc_run_returns [of "mc_demo [] []" "arp_d ''192.0.0.11'' ''en0''" "mc_demo_state None"]
    by (simp del: not_None_eq)
qed

section \<open>The map of router addresses\<close>

text \<open>
  An address stored in the map reads back: the line \<open>router_cache_put\<close> writes is scanned to
  the same six bytes, and different interfaces have different files.
\<close>
theorem mc_cache_roundtrip:
  assumes "length m = 6" and "length h = 6" and "length h' = 6"
  shows "scan_mac (CHR '':'') (mac_str m @ [newline]) = Some m \<and>
    (router_cache_path h 64 = router_cache_path h' 64 \<longleftrightarrow> h = h')"
  using assms scan_mac_text [of m "CHR '':''" "[newline]" False] is_hex_not
  by (simp add: cache_path_inj mac_str_def nul_def)

theorem mc_cache_roundtrip_witness:
  "scan_mac (CHR '':'') (mac_str [0, 0x1b, 0x21, 0xff, 0x0a, 0xa0] @ [newline])
    = Some [0, 0x1b, 0x21, 0xff, 0x0a, 0xa0]"
  using mc_cache_roundtrip [of "[0, 0x1b, 0x21, 0xff, 0x0a, 0xa0]" "replicate 6 0" "replicate 6 0"] by simp

text \<open>
  When writes are whole, the map only ever holds what was put into it: if every entry, and
  the pair that is put now, is in a relation \<open>G\<close>, for example of routers resolved on that
  network, then so is every answer of a later lookup, whichever file operations fail.
\<close>
theorem mc_cache_trusted:
  assumes "whole_writes S" and "\<forall>h r. length h = 6 \<longrightarrow> cache_view s h = Some r \<longrightarrow> G h r"
    and "length host = 6" and "length router = 6" and "G host router" and "length h = 6"
  shows "wp (bnd (router_cache_put S host router) (\<lambda>_. router_cache_lookup S h))
    (\<lambda>r _. \<forall>m. r = Some m \<longrightarrow> G h m) s"
proof -
  have "wp (router_cache_put S host router) (\<lambda>_. mc_cache.all_good G) s"
    by (rule mc_cache.put_good) (use assms in \<open>simp_all add: mc_cache.all_good_def\<close>)
  then show ?thesis
    unfolding wp_bnd
    by (rule wp_mono) (rule wp_mono [OF mc_cache.look_good [OF _ assms(6)]], blast+)
qed

theorem mc_cache_trusted_witness:
  "wp (bnd (router_cache_put (mc_demo [] []) [2, 0, 0, 0, 0, 9] [2, 0, 0, 0, 0, 1])
      (\<lambda>_. router_cache_lookup (mc_demo [] []) [2, 0, 0, 0, 0, 9]))
    (\<lambda>r _. \<forall>m. r = Some m \<longrightarrow> m = [2, 0, 0, 0, 0, 1]) (mc_demo_state None)"
  by (rule mc_cache_trusted [where G = "\<lambda>h m. m = [2, 0, 0, 0, 0, 1]", OF mc_demo_whole])
    (simp_all add: cache_view_def)

text \<open>
  The update is not atomic in its content: the result of the write is not checked, and when
  two characters of the line are lost the renamed file holds a different, valid address that
  later lookups return.
\<close>
theorem mc_cache_torn:
  assumes "mc_quiet S" and "length host = 6" and "length m = 6" and "mc_cached S s host = None"
    and "fst (sys_fopen_w S (cache_tmp host) (kern s))"
    and "fst (sys_write_out S (cache_tmp host) (mac_str m @ [newline]) (kern s)) = 16"
    and "fst (sys_rename S (cache_tmp host) (router_cache_path host 64) (kern s))"
  shows "wp (router_cache_put S host m) (\<lambda>_ t. cache_view t host = Some (torn m)) s"
  using assms by (rule put_torn)

theorem mc_cache_torn_witness:
  "wp (router_cache_put (mc_demo [] []\<lparr>sys_write_out := \<lambda>p t k. (16, k)\<rparr>)
      [2, 0, 0, 0, 0, 9] [2, 0, 0, 0, 0, 0xf1])
    (\<lambda>_ t. cache_view t [2, 0, 0, 0, 0, 9] = Some [2, 0, 0, 0, 0, 0x0f]) (mc_demo_state None)"
proof -
  have "torn [2, 0, 0, 0, 0, 0xf1] = [2, 0, 0, 0, 0, 0x0f]"
    by (simp add: torn_def)
  moreover have "mc_quiet (mc_demo [] []\<lparr>sys_write_out := \<lambda>p t k. (16, k)\<rparr>)"
    by (simp add: mc_quiet_def quiet_reads_def quiet_def mc_demo_def Let_def)
  moreover have "mc_cached (mc_demo [] []\<lparr>sys_write_out := \<lambda>p t k. (16, k)\<rparr>) (mc_demo_state None)
      [2, 0, 0, 0, 0, 9] = None"
    by (simp add: mc_cached_def cache_view_def)
  moreover have "fst (sys_fopen_w (mc_demo [] []) p k)" "fst (sys_rename (mc_demo [] []) p q k)" for p q k
    by (simp_all add: mc_demo_def Let_def)
  ultimately show ?thesis
    using mc_cache_torn [of "mc_demo [] []\<lparr>sys_write_out := \<lambda>p t k. (16, k)\<rparr>" "[2, 0, 0, 0, 0, 9]"
        "[2, 0, 0, 0, 0, 0xf1]" "mc_demo_state None"]
    by simp
qed

section \<open>The life of the daemon\<close>

text \<open>
  C14: Started by \<open>main\<close> and stopped by a signal, under any interleaving of passes, signals and
  changes of the world and the files, and with an arp(8) that does as documented: in its last step
  a daemon that remembers an entry runs arp -d once, and afterwards there is no permanent ARP entry
  of the gateway address; one that remembers none, because it pinned none or because the interface
  was gone since, runs nothing and leaves the entry as it was. In the last running state the
  memory agreed with the commands that had succeeded.
\<close>
theorem mc_stops_withdrawn:
  assumes "mc_main S envgw args (mc_init k fs) = Some (None, s)"
    and "arp_law S arp (mc_sentinel_str s) (mc_ifname s)"
    and "loop_reaches mc_running mc_env (mc_iter S) (mc_stop S) s (Stopped t)"
  shows "\<not> mc_installed t \<and> (\<exists>u. loop_reaches mc_running mc_env (mc_iter S) (mc_stop S) s (Running u) \<and>
    mc_inv u \<and> \<not> mc_running u \<and> arp (kern t) = (if mc_installed u then None else arp (kern u)) \<and>
    (if mc_installed u
     then \<exists>r. out t = out u @ [Ev_run (arp_d (mc_sentinel_str s) (mc_ifname s)) r, Log_arp_withdrew ''daemon shutdown'']
     else out t = out u))"
proof -
  have inv: "mc_inv s"
    using wlpD [OF mc_main_wlp assms(1)] by (simp add: mc_outcome_simps mc_ready_def)
  obtain u where u: "loop_reaches mc_running mc_env (mc_iter S) (mc_stop S) s (Running u)"
    and off: "\<not> mc_running u" and "mc_stop S u = Some ((), t)"
    using loop_reaches_Stopped [OF assms(3)] by metis
  then have stop: "withdraw_arp S ''daemon shutdown'' u = Some ((), t)"
    by (simp only: mc_stop_def)
  have "mc_inv u" using mc_life.reach_ok [OF u inv] by simp
  moreover have names: "mc_sentinel_str u = mc_sentinel_str s" "mc_ifname u = mc_ifname s"
    using mc_named_life.reach_ok [OF u, of "mc_sentinel_str s" "mc_ifname s"] by (simp_all add: mc_names_def)
  moreover have "arp_law S arp (mc_sentinel_str u) (mc_ifname u)" using assms(2) names by simp
  note gone = wlpD [OF wp_wlp [OF withdraw_arp_exact [OF this]] stop]
  ultimately show ?thesis
    using u off gone unfolding names by (intro conjI exI [of _ u]) simp_all
qed

theorem mc_stops_withdrawn_witness:
  "\<exists>s t. mc_main (mc_demo [] []) None [''-i'', ''5'', ''en0''] (mc_init None (\<lambda>_. None))
      = Some (None, s) \<and> \<not> mc_installed t \<and>
    loop_reaches mc_running mc_env (mc_iter (mc_demo [] [])) (mc_stop (mc_demo [] [])) s (Stopped t)"
proof -
  let ?S = "mc_demo [] []"
  obtain s where main: "mc_main ?S None [''-i'', ''5'', ''en0''] (mc_init None (\<lambda>_. None))
      = Some (None, s)" and off: "\<not> mc_installed s"
    using mc_demo_main by blast
  let ?u = "handle_sig_arp 15 s"
  have "mc_stop ?S ?u = Some ((), ?u)" and run: "\<not> mc_running ?u"
    using off by (simp_all add: mc_stop_def withdraw_arp_def bnd_def run_simps handle_sig_arp_def)
  then have "loop_step mc_running mc_env (mc_iter ?S) (mc_stop ?S) (Running ?u) (Stopped ?u)"
    by (intro loop_step.finish)
  moreover have "loop_step mc_running mc_env (mc_iter ?S) (mc_stop ?S) (Running s) (Running ?u)"
    by (intro loop_step.outside mc_env.mc_signal)
  ultimately have reach: "loop_reaches mc_running mc_env (mc_iter ?S) (mc_stop ?S) s (Stopped ?u)"
    by (blast intro: loop_reaches_refl loop_reaches_step)
  then show ?thesis
    using main reach conjunct1 [OF mc_stops_withdrawn [OF main mc_demo_law reach]] by (intro exI conjI)
qed

text \<open>
  On a system with well-formed tables and waits that end, the loop never faults, and a
  signalled daemon can finish, with its entry withdrawn.
\<close>
theorem mc_never_stuck:
  assumes "mc_sound S" and "mc_main S envgw args (mc_init k fs) = Some (None, s)"
    and "mc_interval s \<le> 2147483"
    and "loop_reaches mc_running mc_env (mc_iter S) (mc_stop S) s p"
  shows "p \<noteq> Crashed \<and> (\<forall>t. p = Running t \<and> \<not> mc_running t \<longrightarrow>
    (\<exists>u. loop_step mc_running mc_env (mc_iter S) (mc_stop S) (Running t) (Stopped u) \<and>
      \<not> mc_installed u))"
proof -
  have "mc_loop_inv S s"
    using wlpD [OF mc_main_wlp assms(2)] assms(1,3) c_mul_1000
    by (simp add: mc_outcome_simps mc_ready_def mc_loop_inv_def)
  then show ?thesis
    using mc_safe_life.never_crashes [OF assms(4)] mc_safe_life.finishes assms(4) by blast
qed

theorem mc_never_stuck_witness:
  "\<exists>s. mc_main (mc_demo [] []) None [''-i'', ''5'', ''en0''] (mc_init None (\<lambda>_. None))
      = Some (None, s) \<and>
    \<not> loop_reaches mc_running mc_env (mc_iter (mc_demo [] [])) (mc_stop (mc_demo [] [])) s Crashed"
proof -
  obtain s where main: "mc_main (mc_demo [] []) None [''-i'', ''5'', ''en0''] (mc_init None (\<lambda>_. None))
      = Some (None, s)" and "mc_interval s = 5"
    using mc_demo_main by blast
  then show ?thesis
    using mc_never_stuck [OF mc_demo_sound main, of Crashed] by auto
qed

text \<open>
  The dry run only looks: it runs no command, writes no file, leaves the daemon's flag
  alone, and everything it adds to the history is a line of its report.
\<close>
theorem mc_dry_run_only_reports:
  "wlp (dry_run_report_arp S) (\<lambda>_ t. files t = files s \<and> mc_installed t = mc_installed s \<and>
    (\<exists>es. out t = out s @ es \<and> list_all is_report es)) s"
proof -
  have "wlp (dry_run_report_arp S) (\<lambda>_. dry_same s) s"
    by (rule dry_report [unfolded dry_def, rule_format])
  then show ?thesis by (rule wlp_mono) (simp add: dry_same_def list_all_iff)
qed

end
