(* ===== verification/Windows_Tables.thy ===== *)
theory Windows_Tables
  imports Mac_Text
begin

text \<open>
  State and discovery of the Windows daemon (\<open>resolve_luid\<close>, \<open>iface_present\<close>,
  \<open>interface_mac\<close>, \<open>router_cache_lookup\<close>, \<open>router_cache_put\<close>, \<open>find_default_router\<close>,
  \<open>router_lladdr\<close>, \<open>neighbor_present\<close> and \<open>sentinel_in_fib\<close> of \<^verbatim>\<open>host/windows/v4gwd.c\<close>).
  Names that the other daemons have too carry the suffix \<open>_win\<close>.

  The IP Helper API returns its tables as arrays of structures, here lists of records. A
  \<open>SOCKADDR_INET\<close> is a union; a record of it has the family and both addresses, of which the
  code reads the one of the family. The values under the registry key of the map are the
  \<open>files\<close> of the state. No operation here can fault, so the programs are total.
\<close>

section \<open>Data\<close>

type_synonym u64 = "64 word"
type_synonym wstring = "u16 list"

definition WIN_AF_INET :: u16 where "WIN_AF_INET = 2"
definition WIN_AF_INET6 :: u16 where "WIN_AF_INET6 = 23"
definition NO_ERROR :: u32 where "NO_ERROR = 0"
definition ERROR_OBJECT_ALREADY_EXISTS :: u32 where "ERROR_OBJECT_ALREADY_EXISTS = 5010"

datatype nl_state = NlnsUnreachable | NlnsIncomplete | NlnsProbe | NlnsDelay | NlnsStale
  | NlnsReachable | NlnsPermanent

record sockaddr_inet =
  si_family :: u16
  si_v4 :: in_addr
  si_v6 :: in6_addr

text \<open>\<open>MIB_IPFORWARD_ROW2\<close>, \<open>MIB_IPNET_ROW2\<close>, and what \<open>GetIfEntry2\<close> fills in.\<close>

record fwd_row =
  f_luid :: u64
  f_prefix_len :: byte
  f_prefix :: sockaddr_inet
  f_nexthop :: sockaddr_inet
  f_metric :: u32

record net_row =
  n_luid :: u64
  n_addr :: sockaddr_inet
  n_phys_len :: u32
  n_phys :: "byte list"
  n_state :: nl_state

record if_entry =
  e_phys_len :: u32
  e_phys :: "byte list"

record service_status =
  st_state :: u32
  st_controls :: u32
  st_wait_hint :: u32
  st_checkpoint :: u32

text \<open>The history: calls that change the neighbor table, statuses, and log and report lines.\<close>

datatype wn_event =
    Ev_delete net_row u32
  | Ev_create net_row u32
  | Ev_set net_row u32
  | Ev_status service_status
  | Log_create_failed string u32
  | Log_pinned string
  | Log_unpinned string
  | Log_line string
  | Wrep_no_interface
  | Wrep_header u64
  | Wrep_fib bool
  | Wrep_no_router
  | Wrep_router in6_addr
  | Wrep_unresolved
  | Wrep_lladdr string
  | Wrep_would string

record 'k wn_state = "('k, wn_event) os_state" +
  g_ifarg :: wstring
  g_luid :: u64
  g_luid_valid :: bool
  g_interval :: int
  g_require_sentinel_route :: bool
  g_console :: bool
  g_installed :: bool
  g_installed_mac :: mac_addr
  g_ssh :: nat
  g_status :: service_status
  g_checkpoint :: u32           \<comment> \<open>\<open>checkpoint\<close> of \<open>report\<close>\<close>
  g_stop_event :: bool          \<comment> \<open>whether the event is signalled\<close>
  g_wake_event :: bool
  g_h_route :: nat              \<comment> \<open>a handle, 0 for \<open>NULL\<close>\<close>
  g_h_addr :: nat
  g_h_iface :: nat

record 'k wn_sys =
  win_alias_to_luid :: "wstring \<Rightarrow> 'k \<Rightarrow> u64 option \<times> 'k"
  win_index_to_luid :: "u32 \<Rightarrow> 'k \<Rightarrow> u64 option \<times> 'k"
  win_luid_to_index :: "u64 \<Rightarrow> 'k \<Rightarrow> u32 option \<times> 'k"
  win_if_entry :: "u64 \<Rightarrow> 'k \<Rightarrow> if_entry option \<times> 'k"
  win_reg_get :: "string \<Rightarrow> 'k \<Rightarrow> bool \<times> 'k"    \<comment> \<open>whether an existing string value can be read\<close>
  win_reg_set :: "string \<Rightarrow> 'k \<Rightarrow> bool \<times> 'k"
  win_fwd_table :: "u16 \<Rightarrow> 'k \<Rightarrow> fwd_row list option \<times> 'k"
  win_net_table :: "u16 \<Rightarrow> 'k \<Rightarrow> net_row list option \<times> 'k"
  win_delete :: "net_row \<Rightarrow> 'k \<Rightarrow> u32 \<times> 'k"
  win_create :: "net_row \<Rightarrow> 'k \<Rightarrow> u32 \<times> 'k"
  win_set :: "net_row \<Rightarrow> 'k \<Rightarrow> u32 \<times> 'k"
  win_notify :: "nat \<Rightarrow> 'k \<Rightarrow> nat \<times> 'k"        \<comment> \<open>registers the callback of a kind: its handle\<close>
  win_cancel :: "nat \<Rightarrow> 'k \<Rightarrow> unit \<times> 'k"
  win_wait :: "u32 \<Rightarrow> 'k \<Rightarrow> bool \<times> 'k"
    \<comment> \<open>whether a wait that no event ends times out; it fails otherwise\<close>
  win_sleep :: "u32 \<Rightarrow> 'k \<Rightarrow> unit \<times> 'k"
  win_register_handler :: "'k \<Rightarrow> nat \<times> 'k"
  win_set_status :: "service_status \<Rightarrow> 'k \<Rightarrow> unit \<times> 'k"
  win_create_event :: "'k \<Rightarrow> bool \<times> 'k"
  win_dispatch :: "'k \<Rightarrow> u32 \<times> 'k"            \<comment> \<open>\<open>StartServiceCtrlDispatcher\<close>: the error, 0 for none\<close>
  win_widen :: "string \<Rightarrow> wstring"             \<comment> \<open>\<open>MultiByteToWideChar\<close> into \<open>g_ifarg\<close>\<close>

section \<open>The interface\<close>

text \<open>\<open>wcstoul(s, &end, 10)\<close>: the value and what is left, \<open>None\<close> when there are no digits.\<close>

definition w_is_space :: "u16 \<Rightarrow> bool" where
  "w_is_space c \<longleftrightarrow> c \<in> {0x20, 9, 10, 11, 12, 13}"

definition w_is_digit :: "u16 \<Rightarrow> bool" where
  "w_is_digit c \<longleftrightarrow> 48 \<le> c \<and> c \<le> 57"

definition wcstoul :: "wstring \<Rightarrow> (u32 \<times> wstring) option" where
  "wcstoul s =
     (let t = dropWhile w_is_space s;
          sign = (case t of [] \<Rightarrow> 0 | c # _ \<Rightarrow> c);
          u = (if sign \<in> {45, 43} then tl t else t);
          ds = takeWhile w_is_digit u;
          v = foldl (\<lambda>n c. 10 * n + (unat c - 48)) 0 ds
      in if ds = [] then None
         else Some (if 2 ^ 32 \<le> v then -1 else if sign = 45 then - of_nat v else of_nat v,
           dropWhile w_is_digit u))"

definition resolve_luid :: "('k, 'x) wn_sys_scheme \<Rightarrow> ('k wn_state, bool) prog" where
  "resolve_luid S =
     bnd (gets id) (\<lambda>s.
     if g_luid_valid s then ret True
     else
       bnd (kcall (win_alias_to_luid S (g_ifarg s))) (\<lambda>r.
       case r of
         Some luid \<Rightarrow>
           bnd (modify (\<lambda>s. s\<lparr>g_luid := luid, g_luid_valid := True\<rparr>)) (\<lambda>_. ret True)
       | None \<Rightarrow>
           (case wcstoul (g_ifarg s) of
              Some (n, []) \<Rightarrow>
                if n = 0 then ret False
                else
                  bnd (kcall (win_index_to_luid S n)) (\<lambda>r.
                  case r of
                    Some luid \<Rightarrow>
                      bnd (modify (\<lambda>s. s\<lparr>g_luid := luid, g_luid_valid := True\<rparr>)) (\<lambda>_. ret True)
                  | None \<Rightarrow> ret False)
            | _ \<Rightarrow> ret False)))"

definition iface_present :: "('k, 'x) wn_sys_scheme \<Rightarrow> ('k wn_state, bool) prog" where
  "iface_present S =
     bnd (gets g_luid) (\<lambda>luid.
     bnd (kcall (win_luid_to_index S luid)) (\<lambda>r. ret (r \<noteq> None)))"

definition interface_mac :: "('k, 'x) wn_sys_scheme \<Rightarrow> ('k wn_state, mac_addr option) prog" where
  "interface_mac S =
     bnd (gets g_luid) (\<lambda>luid.
     bnd (kcall (win_if_entry S luid)) (\<lambda>r.
     ret (case r of
            None \<Rightarrow> None
          | Some row \<Rightarrow> if e_phys_len row \<noteq> 6 then None else Some (take 6 (e_phys row)))))"

section \<open>The map of router addresses\<close>

definition mac_str_reg :: "mac_addr \<Rightarrow> string" where
  "mac_str_reg mac = mac_text True (CHR ''-'') mac"

text \<open>The value must fit the buffer of 32 bytes with its terminator.\<close>

definition router_cache_lookup_win ::
    "('k, 'x) wn_sys_scheme \<Rightarrow> mac_addr \<Rightarrow> ('k wn_state, mac_addr option) prog" where
  "router_cache_lookup_win S host =
     bnd (gets files) (\<lambda>reg.
     case reg (mac_str_reg host) of
       None \<Rightarrow> ret None
     | Some val \<Rightarrow>
         bnd (kcall (win_reg_get S (mac_str_reg host))) (\<lambda>ok.
         ret (if ok \<and> length val < 32 then scan_mac (CHR ''-'') val else None)))"

definition router_cache_put_win ::
    "('k, 'x) wn_sys_scheme \<Rightarrow> mac_addr \<Rightarrow> mac_addr \<Rightarrow> ('k wn_state, unit) prog" where
  "router_cache_put_win S host router =
     bnd (router_cache_lookup_win S host) (\<lambda>cur.
     if (case cur of None \<Rightarrow> False | Some c \<Rightarrow> memcmp c router = 0) then ret ()
     else
       bnd (kcall (win_reg_set S (mac_str_reg host))) (\<lambda>ok.
       modify (\<lambda>s. if ok then s\<lparr>files := (files s)(mac_str_reg host \<mapsto> mac_str_reg router)\<rparr> else s)))"

section \<open>The tables\<close>

definition SENTINEL_HOST :: u32 where "SENTINEL_HOST = 0xC000000B"

definition ntohl :: "in_addr \<Rightarrow> u32" where
  "ntohl a = foldl (\<lambda>w b. push_bit 8 w OR ucast b) 0 a"

definition htonl :: "u32 \<Rightarrow> in_addr" where
  "htonl w = [ucast (drop_bit 24 w), ucast (drop_bit 16 w), ucast (drop_bit 8 w), ucast w]"

text \<open>The loop of \<open>find_default_router\<close>: the best next hop so far and its metric.\<close>

definition router_step :: "u64 \<Rightarrow> (in6_addr \<times> u32) option \<Rightarrow> fwd_row \<Rightarrow> (in6_addr \<times> u32) option" where
  "router_step luid best r =
     (if f_luid r \<noteq> luid then best
      else if f_prefix_len r \<noteq> 0 then best
      else if si_family (f_prefix r) \<noteq> WIN_AF_INET6 \<or> si_family (f_nexthop r) \<noteq> WIN_AF_INET6 then best
      else if (case best of None \<Rightarrow> True | Some (_, m) \<Rightarrow> f_metric r < m)
        then Some (si_v6 (f_nexthop r), f_metric r)
      else best)"

definition find_default_router_win ::
    "('k, 'x) wn_sys_scheme \<Rightarrow> ('k wn_state, in6_addr option) prog" where
  "find_default_router_win S =
     bnd (gets g_luid) (\<lambda>luid.
     bnd (kcall (win_fwd_table S WIN_AF_INET6)) (\<lambda>tbl.
     ret (case tbl of
            None \<Rightarrow> None
          | Some rows \<Rightarrow> map_option fst (foldl (router_step luid) None rows))))"

fun lladdr_scan :: "u64 \<Rightarrow> in6_addr \<Rightarrow> net_row list \<Rightarrow> mac_addr option" where
  "lladdr_scan luid gw [] = None"
| "lladdr_scan luid gw (r # rs) =
     (if n_luid r \<noteq> luid then lladdr_scan luid gw rs
      else if si_family (n_addr r) \<noteq> WIN_AF_INET6 then lladdr_scan luid gw rs
      else if memcmp (si_v6 (n_addr r)) gw \<noteq> 0 then lladdr_scan luid gw rs
      else if n_phys_len r \<noteq> 6 then lladdr_scan luid gw rs
      else Some (take 6 (n_phys r)))"

definition router_lladdr_win ::
    "('k, 'x) wn_sys_scheme \<Rightarrow> in6_addr \<Rightarrow> ('k wn_state, mac_addr option) prog" where
  "router_lladdr_win S gw =
     bnd (gets g_luid) (\<lambda>luid.
     bnd (kcall (win_net_table S WIN_AF_INET6)) (\<lambda>tbl.
     ret (case tbl of None \<Rightarrow> None | Some rows \<Rightarrow> lladdr_scan luid gw rows)))"

fun present_scan :: "u64 \<Rightarrow> mac_addr \<Rightarrow> net_row list \<Rightarrow> bool" where
  "present_scan luid mac [] = False"
| "present_scan luid mac (r # rs) =
     (if n_luid r \<noteq> luid then present_scan luid mac rs
      else if si_family (n_addr r) \<noteq> WIN_AF_INET then present_scan luid mac rs
      else if ntohl (si_v4 (n_addr r)) \<noteq> SENTINEL_HOST then present_scan luid mac rs
      else n_state r = NlnsPermanent \<and> n_phys_len r = 6 \<and> memcmp (take 6 (n_phys r)) mac = 0)"

definition neighbor_present ::
    "('k, 'x) wn_sys_scheme \<Rightarrow> mac_addr \<Rightarrow> ('k wn_state, bool) prog" where
  "neighbor_present S mac =
     bnd (gets g_luid) (\<lambda>luid.
     bnd (kcall (win_net_table S WIN_AF_INET)) (\<lambda>tbl.
     ret (case tbl of None \<Rightarrow> False | Some rows \<Rightarrow> present_scan luid mac rows)))"

fun fib_scan_win :: "u64 \<Rightarrow> fwd_row list \<Rightarrow> bool" where
  "fib_scan_win luid [] = False"
| "fib_scan_win luid (r # rs) =
     (if f_luid r \<noteq> luid then fib_scan_win luid rs
      else if f_prefix_len r \<noteq> 0 then fib_scan_win luid rs
      else if si_family (f_nexthop r) \<noteq> WIN_AF_INET then fib_scan_win luid rs
      else if ntohl (si_v4 (f_nexthop r)) = SENTINEL_HOST then True
      else fib_scan_win luid rs)"

definition sentinel_in_fib_win :: "('k, 'x) wn_sys_scheme \<Rightarrow> ('k wn_state, bool) prog" where
  "sentinel_in_fib_win S =
     bnd (gets g_luid) (\<lambda>luid.
     bnd (kcall (win_fwd_table S WIN_AF_INET)) (\<lambda>tbl.
     ret (case tbl of None \<Rightarrow> False | Some rows \<Rightarrow> fib_scan_win luid rows)))"

section \<open>What the scans find\<close>

lemma ntohl_htonl [simp]: "ntohl (htonl w) = w"
proof (rule bit_word_eqI)
  fix n
  assume "n < LENGTH(32)"
  then consider "n < 8" | "8 \<le> n" "n < 16" | "16 \<le> n" "n < 24" | "24 \<le> n" "n < 32"
    by fastforce
  then show "bit (ntohl (htonl w)) n \<longleftrightarrow> bit w n"
    by cases (auto simp: ntohl_def htonl_def bit_simps)
qed

definition default6 :: "u64 \<Rightarrow> fwd_row \<Rightarrow> bool" where
  "default6 luid r \<longleftrightarrow> f_luid r = luid \<and> f_prefix_len r = 0 \<and>
     si_family (f_prefix r) = WIN_AF_INET6 \<and> si_family (f_nexthop r) = WIN_AF_INET6"

lemma router_step_default:
  "router_step luid best r =
    (if default6 luid r \<and> (case best of None \<Rightarrow> True | Some (_, m) \<Rightarrow> f_metric r < m)
     then Some (si_v6 (f_nexthop r), f_metric r) else best)"
  by (simp add: router_step_def default6_def)

text \<open>
  The loop of \<open>find_default_router\<close> is a stable sort by metric: the first of the default
  routes of lowest metric.
\<close>

definition best_route :: "u64 \<Rightarrow> fwd_row list \<Rightarrow> fwd_row option" where
  "best_route luid rows =
     (case sort_key f_metric (filter (default6 luid) rows) of [] \<Rightarrow> None | r # _ \<Rightarrow> Some r)"

definition router_of :: "fwd_row \<Rightarrow> in6_addr \<times> u32" where
  "router_of r = (si_v6 (f_nexthop r), f_metric r)"

lemma best_route_Nil [simp]: "best_route luid [] = None"
  by (simp add: best_route_def)

lemma best_route_Cons:
  "best_route luid (r # rows) =
     (if \<not> default6 luid r then best_route luid rows
      else case best_route luid rows of
        None \<Rightarrow> Some r
      | Some q \<Rightarrow> if f_metric r \<le> f_metric q then Some r else Some q)"
  by (simp add: best_route_def split: list.split)

lemma router_fold_from:
  "foldl (router_step luid) (Some (router_of b)) rows =
    Some (case best_route luid rows of
      None \<Rightarrow> router_of b
    | Some q \<Rightarrow> if f_metric q < f_metric b then router_of q else router_of b)"
proof (induction rows arbitrary: b)
  case Nil
  then show ?case by simp
next
  case (Cons r rows)
  have step: "router_step luid (Some (router_of b)) r =
      Some (router_of (if default6 luid r \<and> f_metric r < f_metric b then r else b))"
    by (simp add: router_step_default router_of_def)
  show ?case
    by (auto simp: step Cons.IH best_route_Cons split: option.split)
qed

lemma router_fold:
  "foldl (router_step luid) None rows = map_option router_of (best_route luid rows)"
proof (induction rows)
  case Nil
  then show ?case by simp
next
  case (Cons r rows)
  have step: "router_step luid None r = (if default6 luid r then Some (router_of r) else None)"
    by (simp add: router_step_default router_of_def)
  show ?case
    by (auto simp: step Cons.IH router_fold_from best_route_Cons split: option.split)
qed

lemma best_route_Some:
  assumes "best_route luid rows = Some r"
  shows "r \<in> set rows" and "default6 luid r"
    and "\<forall>q \<in> set rows. default6 luid q \<longrightarrow> f_metric r \<le> f_metric q"
proof -
  obtain qs where sorted: "sort_key f_metric (filter (default6 luid) rows) = r # qs"
    using assms by (auto simp: best_route_def split: list.splits)
  then have "set (r # qs) = set (filter (default6 luid) rows)"
    by (metis set_sort)
  then show "r \<in> set rows" and "default6 luid r" by auto
  have "sorted (map f_metric (r # qs))"
    using sorted by (metis sorted_sort_key)
  then have "\<forall>q \<in> set (r # qs). f_metric r \<le> f_metric q" by auto
  then show "\<forall>q \<in> set rows. default6 luid q \<longrightarrow> f_metric r \<le> f_metric q"
    using \<open>set (r # qs) = set (filter (default6 luid) rows)\<close> by auto
qed

text \<open>The other scans are searches.\<close>

definition resolved6 :: "u64 \<Rightarrow> in6_addr \<Rightarrow> net_row \<Rightarrow> bool" where
  "resolved6 luid gw r \<longleftrightarrow> n_luid r = luid \<and> si_family (n_addr r) = WIN_AF_INET6 \<and>
     memcmp (si_v6 (n_addr r)) gw = 0 \<and> n_phys_len r = 6"

lemma lladdr_scan_find:
  "lladdr_scan luid gw rows = map_option (\<lambda>r. take 6 (n_phys r)) (find (resolved6 luid gw) rows)"
  by (induction rows) (auto simp: resolved6_def)

definition sentinel_row :: "u64 \<Rightarrow> net_row \<Rightarrow> bool" where
  "sentinel_row luid r \<longleftrightarrow> n_luid r = luid \<and> si_family (n_addr r) = WIN_AF_INET \<and>
     ntohl (si_v4 (n_addr r)) = SENTINEL_HOST"

text \<open>The MAC a permanent entry pins; an entry of another state pins none.\<close>

definition pinned_mac :: "net_row option \<Rightarrow> mac_addr option" where
  "pinned_mac e =
     (case e of
        None \<Rightarrow> None
      | Some r \<Rightarrow> if n_state r = NlnsPermanent \<and> n_phys_len r = 6 then Some (take 6 (n_phys r)) else None)"

lemma present_scan_find:
  assumes "\<forall>r \<in> set rows. 6 \<le> length (n_phys r)" and "length mac = 6"
  shows "present_scan luid mac rows \<longleftrightarrow> pinned_mac (find (sentinel_row luid) rows) = Some mac"
  using assms by (induction rows) (auto simp: sentinel_row_def pinned_mac_def memcmp_zero)

definition sentinel_route :: "u64 \<Rightarrow> fwd_row \<Rightarrow> bool" where
  "sentinel_route luid r \<longleftrightarrow> f_luid r = luid \<and> f_prefix_len r = 0 \<and>
     si_family (f_nexthop r) = WIN_AF_INET \<and> ntohl (si_v4 (f_nexthop r)) = SENTINEL_HOST"

lemma fib_scan_ex: "fib_scan_win luid rows \<longleftrightarrow> (\<exists>r \<in> set rows. sentinel_route luid r)"
  by (induction rows) (auto simp: sentinel_route_def)

section \<open>The registry is a map\<close>

definition reg_view :: "'k wn_state \<Rightarrow> mac_addr \<Rightarrow> mac_addr option" where
  "reg_view s host =
     (case files s (mac_str_reg host) of
        None \<Rightarrow> None
      | Some val \<Rightarrow> if length val < 32 then scan_mac (CHR ''-'') val else None)"

interpretation reg_codec: mac_codec mac_str_reg "scan_mac CHR ''-''"
  by unfold_locales
    (use scan_mac_text [where r = "[]"] is_hex_not(1) in \<open>simp add: nul_def mac_str_reg_def\<close>)

lemma reg_stored: "length m = 6 \<Longrightarrow> length (mac_str_reg m) < 32 \<and> scan_mac (CHR ''-'') (mac_str_reg m) = Some m"
  using mac_text_fits(2) [of m] reg_codec.parse_print [of m] by (simp add: mac_str_reg_def)

lemma reg_view_kern [simp]: "reg_view (s\<lparr>kern := k\<rparr>) = reg_view s"
  by (rule ext) (simp add: reg_view_def)

lemma reg_look:
  "wp (router_cache_lookup_win S h) (\<lambda>r t. (r = None \<or> r = reg_view s h) \<and> (\<exists>k. t = s\<lparr>kern := k\<rparr>)) s"
  by (auto simp: router_cache_lookup_win_def wp_simps reg_view_def kern_same split: option.split)

lemma reg_put:
  "wp (router_cache_put_win S h r) (\<lambda>_ t. \<exists>k fs. t = s\<lparr>kern := k, files := fs\<rparr> \<and>
    (fs = files s \<or> fs = (files s)(mac_str_reg h \<mapsto> mac_str_reg r))) s"
proof -
  have same: "\<exists>k' fs. s\<lparr>kern := k\<rparr> = s\<lparr>kern := k', files := fs\<rparr> \<and>
      (fs = files s \<or> fs = (files s)(mac_str_reg h \<mapsto> mac_str_reg r))" for k
    by (rule exI [of _ k], rule exI [of _ "files s"]) simp
  have stored: "\<exists>k' fs. s\<lparr>kern := k, files := (files s)(mac_str_reg h \<mapsto> mac_str_reg r)\<rparr> =
      s\<lparr>kern := k', files := fs\<rparr> \<and> (fs = files s \<or> fs = (files s)(mac_str_reg h \<mapsto> mac_str_reg r))" for k
    by blast
  show ?thesis
    unfolding router_cache_put_win_def wp_bnd
    by (rule wp_mono [OF reg_look]) (auto simp: wp_simps intro: same stored)
qed

interpretation reg_cache: mac_cache True reg_view "router_cache_lookup_win S" "router_cache_put_win S" for S
proof
  fix s :: "'a wn_state" and h r :: mac_addr
  show "wp (router_cache_lookup_win S h) (\<lambda>r t. (r = None \<or> r = reg_view s h) \<and> reg_view t = reg_view s) s"
    by (rule wp_mono [OF reg_look]) auto
  assume "length h = 6" and "length r = 6"
  then show "wp (router_cache_put_win S h r) (\<lambda>_ t. (reg_view t h = reg_view s h \<or> reg_view t h = Some r) \<and>
        (\<forall>h'. length h' = 6 \<longrightarrow> h' \<noteq> h \<longrightarrow> reg_view t h' = reg_view s h')) s"
    by (intro wp_mono [OF reg_put]) (auto simp: reg_view_def reg_stored reg_codec.print_inj)
qed

end
