(* ===== verification/Windows_Daemon.thy ===== *)
theory Windows_Daemon
  imports Windows_Tables Daemon_Loop
begin

text \<open>
  The Windows daemon (\<open>fill_sentinel_row\<close>, \<open>install\<close>, \<open>withdraw\<close>, \<open>reconcile\<close>,
  \<open>dry_run_report\<close>, the callbacks, \<open>run_worker\<close>, the service glue and \<open>main\<close> of
  \<^verbatim>\<open>host/windows/v4gwd.c\<close>). Names that the other daemons have too carry the suffix \<open>_win\<close>.

  The worker thread runs \<open>worker_start\<close>, then \<open>wn_iter\<close> while the stop event is off, then
  \<open>wn_stop\<close> (in the service \<open>service_stop\<close>). The callbacks, the control handler and the console
  handler run in threads of their own and are steps of \<open>wn_env\<close>: they only set the two events
  and report a status, which a pass neither reads nor writes.
\<close>

section \<open>Programming the neighbor entry\<close>

definition fill_sentinel_row :: "u64 \<Rightarrow> mac_addr option \<Rightarrow> net_row" where
  "fill_sentinel_row luid mac =
     (let row = \<lparr>n_luid = luid,
            n_addr = \<lparr>si_family = WIN_AF_INET, si_v4 = htonl SENTINEL_HOST, si_v6 = replicate 16 0\<rparr>,
            n_phys_len = 0, n_phys = replicate 32 0, n_state = NlnsUnreachable\<rparr> in
      case mac of
        None \<Rightarrow> row
      | Some m \<Rightarrow> row\<lparr>n_phys_len := 6, n_phys := m @ replicate 26 0, n_state := NlnsPermanent\<rparr>)"

text \<open>\<open>CreateIpNetEntry2\<close>, and \<open>SetIpNetEntry2\<close> when there is an entry already.\<close>

definition create_or_set :: "('k, 'x) wn_sys_scheme \<Rightarrow> net_row \<Rightarrow> ('k wn_state, u32) prog" where
  "create_or_set S row =
     bnd (kcall (win_create S row)) (\<lambda>c.
     bnd (emit (Ev_create row c)) (\<lambda>_.
     if c = ERROR_OBJECT_ALREADY_EXISTS
     then bnd (kcall (win_set S row)) (\<lambda>e. bnd (emit (Ev_set row e)) (\<lambda>_. ret e))
     else ret c))"

definition install_win :: "('k, 'x) wn_sys_scheme \<Rightarrow> mac_addr \<Rightarrow> ('k wn_state, unit) prog" where
  "install_win S mac =
     bnd (gets id) (\<lambda>s.
     bnd (if g_installed s \<and> memcmp (g_installed_mac s) mac = 0
          then neighbor_present S mac else ret False) (\<lambda>present.
     if present then ret ()
     else
       let row = fill_sentinel_row (g_luid s) (Some mac) in
       bnd (kcall (win_delete S row)) (\<lambda>d.
       bnd (emit (Ev_delete row d)) (\<lambda>_.
       bnd (create_or_set S row) (\<lambda>e.
       if e \<noteq> NO_ERROR then emit (Log_create_failed (mac_str mac) e)
       else
         bnd (emit (Log_pinned (mac_str mac))) (\<lambda>_.
         modify (\<lambda>s. s\<lparr>g_installed := True, g_installed_mac := mac\<rparr>)))))))"

definition withdraw_win :: "('k, 'x) wn_sys_scheme \<Rightarrow> string \<Rightarrow> ('k wn_state, unit) prog" where
  "withdraw_win S reason =
     bnd (gets id) (\<lambda>s.
     if \<not> g_installed s then ret ()
     else
       let row = fill_sentinel_row (g_luid s) None in
       bnd (kcall (win_delete S row)) (\<lambda>d.
       bnd (emit (Ev_delete row d)) (\<lambda>_.
       bnd (emit (Log_unpinned reason)) (\<lambda>_.
       modify (\<lambda>s. s\<lparr>g_installed := False\<rparr>)))))"

section \<open>Reconciliation\<close>

text \<open>\<open>find_default_router(&gw) && router_lladdr(&gw, mac)\<close>\<close>

definition resolve_router_win :: "('k, 'x) wn_sys_scheme \<Rightarrow> ('k wn_state, mac_addr option) prog" where
  "resolve_router_win S =
     bnd (find_default_router_win S) (\<lambda>r.
     case r of None \<Rightarrow> ret None | Some gw \<Rightarrow> router_lladdr_win S gw)"

definition reconcile_win :: "('k, 'x) wn_sys_scheme \<Rightarrow> ('k wn_state, unit) prog" where
  "reconcile_win S =
     bnd (resolve_luid S) (\<lambda>ok.
     if \<not> ok then modify (\<lambda>s. s\<lparr>g_installed := False\<rparr>)
     else
       bnd (iface_present S) (\<lambda>ok.
       if \<not> ok then modify (\<lambda>s. s\<lparr>g_installed := False\<rparr>)
       else
         bnd (gets g_require_sentinel_route) (\<lambda>require.
         bnd (if require then sentinel_in_fib_win S else ret True) (\<lambda>ok.
         if \<not> ok then withdraw_win S ''sentinel 192.0.0.11 route removed; ceasing per draft s4''
         else
           bnd (interface_mac S) (\<lambda>host_mac.
           bnd (resolve_router_win S) (\<lambda>r.
           case r of
             Some mac \<Rightarrow>
               bnd (install_win S mac) (\<lambda>_.
               case host_mac of None \<Rightarrow> ret () | Some h \<Rightarrow> router_cache_put_win S h mac)
           | None \<Rightarrow>
               bnd (case host_mac of None \<Rightarrow> ret None | Some h \<Rightarrow> router_cache_lookup_win S h) (\<lambda>c.
               case c of
                 Some cached \<Rightarrow> install_win S cached
               | None \<Rightarrow> withdraw_win S
                   ''no IPv6 default router resolved yet; ceding to ARP bootstrap'')))))))"

text \<open>What \<open>-n\<close> prints, as events, and its exit status.\<close>

definition dry_run_report_win :: "('k, 'x) wn_sys_scheme \<Rightarrow> ('k wn_state, int) prog" where
  "dry_run_report_win S =
     bnd (resolve_luid S) (\<lambda>ok.
     if \<not> ok then bnd (emit Wrep_no_interface) (\<lambda>_. ret 1)
     else
       bnd (gets id) (\<lambda>s.
       bnd (emit (Wrep_header (g_luid s))) (\<lambda>_.
       bnd (if g_require_sentinel_route s
            then bnd (sentinel_in_fib_win S) (\<lambda>b. emit (Wrep_fib b))
            else ret ()) (\<lambda>_.
       bnd (find_default_router_win S) (\<lambda>r.
       case r of
         None \<Rightarrow> bnd (emit Wrep_no_router) (\<lambda>_. ret 0)
       | Some gw \<Rightarrow>
           bnd (emit (Wrep_router gw)) (\<lambda>_.
           bnd (router_lladdr_win S gw) (\<lambda>r.
           case r of
             None \<Rightarrow> bnd (emit Wrep_unresolved) (\<lambda>_. ret 0)
           | Some mac \<Rightarrow>
               bnd (emit (Wrep_lladdr (mac_str mac))) (\<lambda>_.
               bnd (emit (Wrep_would (mac_str mac))) (\<lambda>_. ret 0)))))))))"

section \<open>The worker\<close>

definition cb_route :: "'k wn_state \<Rightarrow> 'k wn_state" where
  "cb_route s = s\<lparr>g_wake_event := True\<rparr>"

definition cb_addr :: "'k wn_state \<Rightarrow> 'k wn_state" where
  "cb_addr s = s\<lparr>g_wake_event := True\<rparr>"

definition cb_iface :: "'k wn_state \<Rightarrow> 'k wn_state" where
  "cb_iface s = s\<lparr>g_wake_event := True\<rparr>"

definition worker_start :: "('k, 'x) wn_sys_scheme \<Rightarrow> ('k wn_state, unit) prog" where
  "worker_start S =
     bnd (kcall (win_notify S 0)) (\<lambda>h.
     bnd (modify (\<lambda>s. s\<lparr>g_h_route := h\<rparr>)) (\<lambda>_.
     bnd (kcall (win_notify S 1)) (\<lambda>h.
     bnd (modify (\<lambda>s. s\<lparr>g_h_addr := h\<rparr>)) (\<lambda>_.
     bnd (kcall (win_notify S 2)) (\<lambda>h.
     bnd (modify (\<lambda>s. s\<lparr>g_h_iface := h\<rparr>)) (\<lambda>_.
     reconcile_win S))))))"

definition WAIT_OBJECT_0 :: u32 where "WAIT_OBJECT_0 = 0"
definition WAIT_TIMEOUT :: u32 where "WAIT_TIMEOUT = 258"
definition WAIT_FAILED :: u32 where "WAIT_FAILED = 0xFFFFFFFF"

text \<open>
  \<open>WaitForMultipleObjects\<close> on the stop and the wake event: the first one that is signalled; the
  wake event is reset by the wait.
\<close>

definition wait_events :: "('k, 'x) wn_sys_scheme \<Rightarrow> u32 \<Rightarrow> ('k wn_state, u32) prog" where
  "wait_events S ms =
     bnd (gets id) (\<lambda>s.
     if g_stop_event s then ret WAIT_OBJECT_0
     else if g_wake_event s then
       bnd (modify (\<lambda>s. s\<lparr>g_wake_event := False\<rparr>)) (\<lambda>_. ret (WAIT_OBJECT_0 + 1))
     else bnd (kcall (win_wait S ms)) (\<lambda>timeout. ret (if timeout then WAIT_TIMEOUT else WAIT_FAILED)))"

text \<open>One round of the worker's loop; it leaves the loop when the stop event is on.\<close>

definition wn_iter :: "('k, 'x) wn_sys_scheme \<Rightarrow> ('k wn_state, unit) prog" where
  "wn_iter S =
     bnd (gets (\<lambda>s. of_int (g_interval s) * 1000)) (\<lambda>ms.
     bnd (wait_events S ms) (\<lambda>w.
     if w = WAIT_OBJECT_0 then ret ()
     else
       bnd (if w = WAIT_OBJECT_0 + 1 then kcall (win_sleep S 150) else ret ()) (\<lambda>_.
       reconcile_win S)))"

definition wn_running :: "'k wn_state \<Rightarrow> bool" where
  "wn_running s \<longleftrightarrow> \<not> g_stop_event s"

definition wn_stop :: "('k, 'x) wn_sys_scheme \<Rightarrow> ('k wn_state, unit) prog" where
  "wn_stop S =
     bnd (gets id) (\<lambda>s.
     bnd (if g_h_route s \<noteq> 0 then kcall (win_cancel S (g_h_route s)) else ret ()) (\<lambda>_.
     bnd (if g_h_addr s \<noteq> 0 then kcall (win_cancel S (g_h_addr s)) else ret ()) (\<lambda>_.
     bnd (if g_h_iface s \<noteq> 0 then kcall (win_cancel S (g_h_iface s)) else ret ()) (\<lambda>_.
     withdraw_win S ''daemon shutdown''))))"

section \<open>The service\<close>

definition SERVICE_STOPPED :: u32 where "SERVICE_STOPPED = 1"
definition SERVICE_START_PENDING :: u32 where "SERVICE_START_PENDING = 2"
definition SERVICE_STOP_PENDING :: u32 where "SERVICE_STOP_PENDING = 3"
definition SERVICE_RUNNING :: u32 where "SERVICE_RUNNING = 4"
definition SERVICE_ACCEPT_STOP_SHUTDOWN :: u32 where "SERVICE_ACCEPT_STOP_SHUTDOWN = 1 OR 4"
definition ERROR_CALL_NOT_IMPLEMENTED :: u32 where "ERROR_CALL_NOT_IMPLEMENTED = 120"
definition ERROR_FAILED_SERVICE_CONTROLLER_CONNECT :: u32 where
  "ERROR_FAILED_SERVICE_CONTROLLER_CONNECT = 1063"

text \<open>A status without a check point, and the status \<open>report\<close> sends.\<close>

definition status_final :: "u32 \<Rightarrow> bool" where
  "status_final state \<longleftrightarrow> state = SERVICE_RUNNING \<or> state = SERVICE_STOPPED"

definition new_status :: "u32 \<Rightarrow> u32 \<Rightarrow> u32 \<Rightarrow> service_status" where
  "new_status state wait_hint checkpoint =
     \<lparr>st_state = state,
      st_controls = (if state = SERVICE_START_PENDING then 0 else SERVICE_ACCEPT_STOP_SHUTDOWN),
      st_wait_hint = wait_hint,
      st_checkpoint = (if status_final state then 0 else checkpoint)\<rparr>"

definition report :: "('k, 'x) wn_sys_scheme \<Rightarrow> u32 \<Rightarrow> u32 \<Rightarrow> ('k wn_state, unit) prog" where
  "report S state wait_hint =
     bnd (gets (\<lambda>s. new_status state wait_hint (g_checkpoint s))) (\<lambda>st.
     bnd (modify (\<lambda>s. s\<lparr>g_status := st,
       g_checkpoint := (if status_final state then g_checkpoint s else g_checkpoint s + 1)\<rparr>)) (\<lambda>_.
     bnd (kcall (win_set_status S st)) (\<lambda>_.
     emit (Ev_status st))))"

definition ctrl_handler :: "('k, 'x) wn_sys_scheme \<Rightarrow> u32 \<Rightarrow> ('k wn_state, u32) prog" where
  "ctrl_handler S ctrl =
     (if ctrl = 1 \<or> ctrl = 5 then
        bnd (report S SERVICE_STOP_PENDING 3000) (\<lambda>_.
        bnd (modify (\<lambda>s. s\<lparr>g_stop_event := True\<rparr>)) (\<lambda>_.
        ret NO_ERROR))
      else if ctrl = 4 then ret NO_ERROR
      else ret ERROR_CALL_NOT_IMPLEMENTED)"

definition console_ctrl :: "'k wn_state \<Rightarrow> 'k wn_state" where
  "console_ctrl s = s\<lparr>g_stop_event := True\<rparr>"

text \<open>\<open>service_main\<close> up to the loop; whether it got there.\<close>

definition service_start :: "('k, 'x) wn_sys_scheme \<Rightarrow> ('k wn_state, bool) prog" where
  "service_start S =
     bnd (kcall (win_register_handler S)) (\<lambda>h.
     bnd (modify (\<lambda>s. s\<lparr>g_ssh := h\<rparr>)) (\<lambda>_.
     if h = 0 then ret False
     else
       bnd (report S SERVICE_START_PENDING 3000) (\<lambda>_.
       bnd (emit (Log_line ''service starting'')) (\<lambda>_.
       bnd (report S SERVICE_RUNNING 0) (\<lambda>_.
       bnd (worker_start S) (\<lambda>_.
       ret True))))))"

definition service_stop :: "('k, 'x) wn_sys_scheme \<Rightarrow> ('k wn_state, unit) prog" where
  "service_stop S = bnd (wn_stop S) (\<lambda>_. report S SERVICE_STOPPED 0)"

text \<open>What the other threads and the world do between two steps of the worker.\<close>

inductive wn_env :: "('k, 'x) wn_sys_scheme \<Rightarrow> 'k wn_state \<Rightarrow> 'k wn_state \<Rightarrow> bool" for S where
  wn_kernel: "wn_env S s (s\<lparr>kern := k\<rparr>)"
| wn_registry: "wn_env S s (s\<lparr>files := fs\<rparr>)"
| wn_route: "wn_env S s (cb_route s)"
| wn_addr: "wn_env S s (cb_addr s)"
| wn_iface: "wn_env S s (cb_iface s)"
| wn_control: "\<not> g_console s \<Longrightarrow> ctrl_handler S ctrl s = Some (r, t) \<Longrightarrow> wn_env S s t"
| wn_console: "g_console s \<Longrightarrow> wn_env S s (console_ctrl s)"

section \<open>The start\<close>

definition wn_init :: "'k \<Rightarrow> (string \<Rightarrow> string option) \<Rightarrow> 'k wn_state" where
  "wn_init k reg =
     \<lparr>kern = k, files = reg, out = [], g_ifarg = [], g_luid = 0, g_luid_valid = False, g_interval = 15,
      g_require_sentinel_route = False, g_console = False, g_installed = False,
      g_installed_mac = replicate 6 0, g_ssh = 0,
      g_status = \<lparr>st_state = 0, st_controls = 0, st_wait_hint = 0, st_checkpoint = 0\<rparr>,
      g_checkpoint = 1, g_stop_event = False, g_wake_event = False,
      g_h_route = 0, g_h_addr = 0, g_h_iface = 0\<rparr>"

text \<open>The options: the dry-run flag and the interface, or \<open>None\<close> for the usage message.\<close>

fun wn_args :: "string list \<Rightarrow> bool \<Rightarrow> string option \<Rightarrow> ('k wn_state, (bool \<times> string option) option) prog" where
  "wn_args [] dry ifarg = ret (Some (dry, ifarg))"
| "wn_args (a # as) dry ifarg =
     (if a = ''-n'' then wn_args as True ifarg
      else if a = ''-c'' then bnd (modify (\<lambda>s. s\<lparr>g_console := True\<rparr>)) (\<lambda>_. wn_args as dry ifarg)
      else if a = ''-r'' then
        bnd (modify (\<lambda>s. s\<lparr>g_require_sentinel_route := True\<rparr>)) (\<lambda>_. wn_args as dry ifarg)
      else if a = ''-i'' then
        (case as of
           [] \<Rightarrow> ret None
         | b # bs \<Rightarrow>
             bnd (of_opt (atoi b)) (\<lambda>n.
             bnd (modify (\<lambda>s. s\<lparr>g_interval := n\<rparr>)) (\<lambda>_.
             if n < 1 then ret None else wn_args bs dry ifarg)))
      else if c_hd a = CHR ''-'' then ret None
      else if ifarg = None then wn_args as dry (Some a)
      else ret None)"

datatype wn_mode = Exit int | Foreground | Service

text \<open>
  \<open>main\<close> up to the loop. \<open>StartServiceCtrlDispatcher\<close> runs \<open>service_main\<close> and returns when it is
  done.
\<close>

definition wn_main :: "('k, 'x) wn_sys_scheme \<Rightarrow> string list \<Rightarrow> ('k wn_state, wn_mode) prog" where
  "wn_main S args =
     bnd (wn_args args False None) (\<lambda>r.
     case r of
       None \<Rightarrow> ret (Exit 1)
     | Some (dry, iface) \<Rightarrow>
       (case iface of
         None \<Rightarrow> ret (Exit 1)
       | Some ifarg \<Rightarrow>
         bnd (modify (\<lambda>s. s\<lparr>g_ifarg := win_widen S ifarg\<rparr>)) (\<lambda>_.
         if dry then
           bnd (modify (\<lambda>s. s\<lparr>g_console := True\<rparr>)) (\<lambda>_.
           bnd (dry_run_report_win S) (\<lambda>c. ret (Exit c)))
         else
           bnd (kcall (win_create_event S)) (\<lambda>stop_ok.
           bnd (kcall (win_create_event S)) (\<lambda>wake_ok.
           if \<not> stop_ok \<or> \<not> wake_ok then ret (Exit 1)
           else
             bnd (gets g_console) (\<lambda>console.
             if console then
               bnd (emit (Log_line ''running in foreground'')) (\<lambda>_.
               bnd (worker_start S) (\<lambda>_. ret Foreground))
             else
               bnd (kcall (win_dispatch S)) (\<lambda>e.
               if e = 0 then
                 bnd (service_start S) (\<lambda>started. ret (if started then Service else Exit 0))
               else if e = ERROR_FAILED_SERVICE_CONTROLLER_CONNECT then
                 bnd (modify (\<lambda>s. s\<lparr>g_console := True\<rparr>)) (\<lambda>_.
                 bnd (emit (Log_line ''not started by the SCM; running in foreground'')) (\<lambda>_.
                 bnd (worker_start S) (\<lambda>_. ret Foreground)))
               else ret (Exit 1))))))))"

end
