(* ===== verification/Windows_Pass.thy ===== *)
theory Windows_Pass
  imports Windows_Daemon Entry_Keeper
begin

text \<open>
  One pass of the Windows daemon: observation and action, the invariant every step keeps, and
  the life of the worker, in the foreground and as a service, as instances of \<open>daemon_loop\<close> and
  \<open>safe_daemon_loop\<close>.
\<close>

section \<open>Observation and action\<close>

text \<open>A MAC is pinned with the own MAC to remember it for.\<close>

type_synonym wn_decision = "(mac_addr, mac_addr option) decision"

definition wn_decide :: "('k, 'x) wn_sys_scheme \<Rightarrow> ('k wn_state, wn_decision) prog" where
  "wn_decide S =
     bnd (iface_present S) (\<lambda>ok.
     if \<not> ok then ret Gone
     else
       bnd (gets g_require_sentinel_route) (\<lambda>require.
       bnd (if require then sentinel_in_fib_win S else ret True) (\<lambda>ok.
       if \<not> ok then ret (Cease ''sentinel 192.0.0.11 route removed; ceasing per draft s4'')
       else
         bnd (interface_mac S) (\<lambda>host_mac.
         bnd (resolve_router_win S) (\<lambda>r.
         case r of
           Some mac \<Rightarrow> ret (Pin mac host_mac)
         | None \<Rightarrow>
             bnd (case host_mac of None \<Rightarrow> ret None | Some h \<Rightarrow> router_cache_lookup_win S h) (\<lambda>c.
             case c of
               Some cached \<Rightarrow> ret (Pin cached None)
             | None \<Rightarrow> ret (Cease
                 ''no IPv6 default router resolved yet; ceding to ARP bootstrap'')))))))"

definition wn_observe :: "('k, 'x) wn_sys_scheme \<Rightarrow> ('k wn_state, wn_decision) prog" where
  "wn_observe S = bnd (resolve_luid S) (\<lambda>ok. if \<not> ok then ret Gone else wn_decide S)"

definition wn_pin :: "('k, 'x) wn_sys_scheme \<Rightarrow> mac_addr \<Rightarrow> mac_addr option \<Rightarrow> ('k wn_state, unit) prog" where
  "wn_pin S mac host = bnd (install_win S mac) (\<lambda>_.
     case host of None \<Rightarrow> ret () | Some h \<Rightarrow> router_cache_put_win S h mac)"

definition wn_act :: "('k, 'x) wn_sys_scheme \<Rightarrow> wn_decision \<Rightarrow> ('k wn_state, unit) prog" where
  "wn_act S = carry_out (modify (\<lambda>s. s\<lparr>g_installed := False\<rparr>)) (withdraw_win S) (wn_pin S)"

lemma wn_act_simps [simp]:
  "wn_act S Gone = modify (\<lambda>s. s\<lparr>g_installed := False\<rparr>)"
  "wn_act S (Cease reason) = withdraw_win S reason"
  "wn_act S (Pin mac host) = bnd (install_win S mac) (\<lambda>_.
     case host of None \<Rightarrow> ret () | Some h \<Rightarrow> router_cache_put_win S h mac)"
  by (simp_all add: wn_act_def wn_pin_def)

lemma reconcile_win_split: "reconcile_win S = bnd (wn_observe S) (wn_act S)"
  unfolding reconcile_win_def wn_observe_def wn_decide_def
  by (simp add: bnd_simps bnd_ret cong: if_cong option.case_cong)

lemma kern_only_wn_reads [frame_intros]:
  "kern_only (iface_present S)" "kern_only (interface_mac S)" "kern_only (find_default_router_win S)"
  "kern_only (router_lladdr_win S gw)" "kern_only (neighbor_present S mac)"
  "kern_only (sentinel_in_fib_win S)" "kern_only (router_cache_lookup_win S h)"
  unfolding iface_present_def interface_mac_def find_default_router_win_def router_lladdr_win_def
    neighbor_present_def sentinel_in_fib_win_def router_cache_lookup_win_def
  by (intro frame_intros)+

lemma kern_only_resolve_router [frame_intros]: "kern_only (resolve_router_win S)"
  unfolding resolve_router_win_def by (intro frame_intros)

lemma kern_only_wn_decide: "kern_only (wn_decide S)"
  unfolding wn_decide_def by (intro frame_intros)

lemma safe_wn_reads [safe_intros]:
  "safe (iface_present S)" "safe (interface_mac S)" "safe (find_default_router_win S)"
  "safe (router_lladdr_win S gw)" "safe (neighbor_present S mac)"
  "safe (sentinel_in_fib_win S)" "safe (router_cache_lookup_win S h)"
  unfolding iface_present_def interface_mac_def find_default_router_win_def router_lladdr_win_def
    neighbor_present_def sentinel_in_fib_win_def router_cache_lookup_win_def
  by (intro safe_intros)+

lemma safe_wn_acts [safe_intros]:
  "safe (install_win S mac)" "safe (withdraw_win S reason)" "safe (router_cache_put_win S h r)"
  unfolding install_win_def create_or_set_def withdraw_win_def router_cache_put_win_def Let_def
  by (intro safe_intros)+

lemma safe_resolve_luid [safe_intros]: "safe (resolve_luid S)"
proof -
  have "resolve_luid S s \<noteq> None" for s
    by (auto simp: resolve_luid_def bnd_def run_simps kcall_def split: option.split prod.split list.split)
  then show ?thesis by (simp add: safe_def)
qed

lemma safe_wn_decide [safe_intros]: "safe (wn_decide S)"
  unfolding wn_decide_def resolve_router_win_def by (intro safe_intros)

lemma safe_reconcile_win [safe_intros]: "safe (reconcile_win S)"
proof -
  have "safe (wn_act S d)" for d
    by (cases d) (auto intro!: safe_intros)
  then show ?thesis
    unfolding reconcile_win_split wn_observe_def by (intro safe_intros)
qed

section \<open>The length of what is pinned\<close>

text \<open>The arrays of the API's structures have room for an address.\<close>

definition arrays_ok :: "('k, 'x) wn_sys_scheme \<Rightarrow> bool" where
  "arrays_ok S \<longleftrightarrow>
     (\<forall>k luid e. fst (win_if_entry S luid k) = Some e \<longrightarrow> 6 \<le> length (e_phys e)) \<and>
     (\<forall>k fam rows r. fst (win_net_table S fam k) = Some rows \<longrightarrow> r \<in> set rows \<longrightarrow> 6 \<le> length (n_phys r))"

definition six :: "mac_addr option \<Rightarrow> bool" where
  "six r \<longleftrightarrow> (\<forall>m. r = Some m \<longrightarrow> length m = 6)"

lemma six_simps [simp]: "six None" "six (Some m) \<longleftrightarrow> length m = 6"
  by (simp_all add: six_def)

definition wn_decision_ok :: "wn_decision \<Rightarrow> bool" where
  "wn_decision_ok d \<longleftrightarrow> (\<forall>mac host. d = Pin mac host \<longrightarrow> length mac = 6 \<and> six host)"

lemma six_lladdr: "\<forall>r \<in> set rows. 6 \<le> length (n_phys r) \<Longrightarrow> six (lladdr_scan luid gw rows)"
  by (induction rows) auto

lemma six_reads:
  assumes "arrays_ok S"
  shows "returns (interface_mac S) six" and "returns (router_lladdr_win S gw) six"
    and "returns (resolve_router_win S) six"
proof -
  show "returns (interface_mac S) six"
    using assms by (auto simp: returns_def interface_mac_def bnd_def run_simps kcall_def six_def
        arrays_ok_def split: prod.splits option.splits if_splits) (metis fst_conv min.absorb2)+
  show lladdr: "returns (router_lladdr_win S gw) six" for gw
  proof -
    have "six (lladdr_scan luid gw rows)" if "win_net_table S WIN_AF_INET6 k = (Some rows, k')"
      for luid rows k k'
      using assms that by (intro six_lladdr) (metis arrays_ok_def fst_conv)
    then show ?thesis
      by (auto simp: returns_def router_lladdr_win_def bnd_def run_simps kcall_def
          split: prod.splits option.splits)
  qed
  show "returns (resolve_router_win S) six"
    unfolding resolve_router_win_def
    by (intro returns_bnd returns_option lladdr returns_ret) simp
qed

lemma scan_bytes_len: "scan_bytes sep n s = Some m \<Longrightarrow> length m = n"
  by (induction sep n s arbitrary: m rule: scan_bytes.induct)
    (auto split: option.splits if_splits list.splits prod.splits)

lemma six_lookup: "returns (router_cache_lookup_win S h) six"
  by (auto simp: returns_def router_cache_lookup_win_def bnd_def run_simps kcall_def six_def scan_mac_def
      dest: scan_bytes_len split: prod.splits option.splits if_splits)

lemma six_cached:
  "returns (case host of None \<Rightarrow> ret None | Some h \<Rightarrow> router_cache_lookup_win S h) six"
  by (intro returns_option returns_ret six_lookup) simp

lemma returns_wn_decide:
  assumes "arrays_ok S"
  shows "returns (wn_decide S) wn_decision_ok"
  unfolding wn_decide_def
  by (intro returns_if returns_bnd_from [OF six_reads(1) [OF assms]]
      returns_bnd_from [OF six_reads(3) [OF assms]] returns_bnd_from [OF six_cached]
      returns_bnd returns_option returns_ret)
    (auto simp: wn_decision_ok_def)

section \<open>The invariant\<close>

definition statuses :: "wn_event list \<Rightarrow> service_status list" where
  "statuses es = List.map_filter (\<lambda>e. case e of Ev_status st \<Rightarrow> Some st | _ \<Rightarrow> None) es"

lemma statuses_append [simp]: "statuses (es @ fs) = statuses es @ statuses fs"
  by (simp add: statuses_def map_filter_def)

lemma statuses_simps [simp]:
  "statuses [] = []"
  "statuses (e # es) = (case e of Ev_status st \<Rightarrow> st # statuses es | _ \<Rightarrow> statuses es)"
  by (simp_all add: statuses_def map_filter_simps split: wn_event.split)

definition pending :: "service_status \<Rightarrow> bool" where
  "pending st \<longleftrightarrow> \<not> status_final (st_state st)"

text \<open>The statuses of pending states carry the check points 1, 2, 3 and so on, the others 0.\<close>

definition checkpoints_law :: "service_status list \<Rightarrow> u32 \<Rightarrow> bool" where
  "checkpoints_law sts next_cp \<longleftrightarrow>
     map st_checkpoint (filter pending sts) = map of_nat [1..<length (filter pending sts) + 1] \<and>
     next_cp = of_nat (length (filter pending sts) + 1) \<and>
     (\<forall>st \<in> set sts. (\<not> pending st \<longrightarrow> st_checkpoint st = 0) \<and>
       st_controls st = (if st_state st = SERVICE_START_PENDING then 0 else SERVICE_ACCEPT_STOP_SHUTDOWN))"

definition checkpoints_ok :: "'k wn_state \<Rightarrow> bool" where
  "checkpoints_ok s \<longleftrightarrow> checkpoints_law (statuses (out s)) (g_checkpoint s)"

text \<open>An installed entry was created or set with success.\<close>

definition pin_recorded :: "'k wn_state \<Rightarrow> bool" where
  "pin_recorded s \<longleftrightarrow> (g_installed s \<longrightarrow> length (g_installed_mac s) = 6 \<and> g_luid_valid s \<and>
     (let row = fill_sentinel_row (g_luid s) (Some (g_installed_mac s)) in
      Ev_create row NO_ERROR \<in> set (out s) \<or> Ev_set row NO_ERROR \<in> set (out s)))"

definition wn_inv :: "'k wn_state \<Rightarrow> bool" where
  "wn_inv s \<longleftrightarrow> pin_recorded s \<and> checkpoints_ok s"

lemma wn_inv_upd [simp]:
  "wn_inv (s\<lparr>kern := k\<rparr>) = wn_inv s"
  "wn_inv (s\<lparr>files := fs\<rparr>) = wn_inv s"
  "wn_inv (s\<lparr>g_wake_event := b\<rparr>) = wn_inv s"
  "wn_inv (s\<lparr>g_stop_event := b\<rparr>) = wn_inv s"
  "wn_inv (s\<lparr>g_h_route := h\<rparr>) = wn_inv s"
  "wn_inv (s\<lparr>g_h_addr := h\<rparr>) = wn_inv s"
  "wn_inv (s\<lparr>g_h_iface := h\<rparr>) = wn_inv s"
  "wn_inv (s\<lparr>g_ssh := h\<rparr>) = wn_inv s"
  "wn_inv (s\<lparr>g_console := c\<rparr>) = wn_inv s"
  "wn_inv (s\<lparr>g_ifarg := a\<rparr>) = wn_inv s"
  "wn_inv (s\<lparr>g_interval := i\<rparr>) = wn_inv s"
  "wn_inv (s\<lparr>g_require_sentinel_route := c\<rparr>) = wn_inv s"
  by (simp_all add: wn_inv_def pin_recorded_def checkpoints_ok_def)

lemma pin_recorded_upd [simp]:
  "pin_recorded (s\<lparr>g_installed := False\<rparr>)"
  "pin_recorded (s\<lparr>kern := k\<rparr>) = pin_recorded s"
  by (simp_all add: pin_recorded_def)

lemma pin_recorded_event:
  "pin_recorded s \<Longrightarrow> pin_recorded (s\<lparr>kern := k, out := out s @ es\<rparr>)"
  by (auto simp: pin_recorded_def Let_def)

lemma install_win_inv:
  assumes inv: "wn_inv s" and valid: "g_luid_valid s" and len: "length mac = 6"
  shows "wlp (install_win S mac) (\<lambda>_. wn_inv) s"
proof -
  have check: "wlp (if b then neighbor_present S mac else ret False) Q s"
    if "\<And>r k. Q r (s\<lparr>kern := k\<rparr>)" for b Q
    by (rule wlp_kern_only [OF kern_only_if [OF kern_only_wn_reads(5) kern_only_ret]]) (rule that)
  have pin: "pin_recorded s" and cp: "checkpoints_ok s"
    using inv by (simp_all add: wn_inv_def)
  have old: "wn_inv (s\<lparr>kern := k, out := out s @ es\<rparr>)" if "statuses es = []" for k es
    using pin_recorded_event [OF pin] cp that by (simp add: wn_inv_def checkpoints_ok_def)
  have new: "wn_inv (s\<lparr>kern := k, out := out s @ es, g_installed := True, g_installed_mac := mac\<rparr>)"
    if "statuses es = []"
      "Ev_create (fill_sentinel_row (g_luid s) (Some mac)) NO_ERROR \<in> set es \<or>
       Ev_set (fill_sentinel_row (g_luid s) (Some mac)) NO_ERROR \<in> set es" for k es
    using that len valid cp
    by (auto simp: wn_inv_def pin_recorded_def checkpoints_ok_def)
  show ?thesis
    unfolding install_win_def create_or_set_def wlp_bnd wlp_gets id_apply Let_def
    by (rule check) (use inv in \<open>auto simp: wp_simps intro!: old new\<close>)
qed

lemma withdraw_win_inv:
  "wn_inv s \<Longrightarrow> wlp (withdraw_win S reason) (\<lambda>_ t. wn_inv t \<and> \<not> g_installed t) s"
  unfolding withdraw_win_def Let_def
  by (auto simp: wp_simps wn_inv_def checkpoints_ok_def pin_recorded_def)

lemma reg_put_inv: "wn_inv s \<Longrightarrow> wp (router_cache_put_win S h r) (\<lambda>_. wn_inv) s"
  by (rule wp_mono [OF reg_put]) auto

lemma wn_act_inv:
  assumes "wn_inv s" and "wn_decision_ok d" and "d = Gone \<or> g_luid_valid s"
  shows "wlp (wn_act S d) (\<lambda>_. wn_inv) s"
proof (cases d)
  case Gone
  then show ?thesis
    using assms(1) by (simp add: wp_simps wn_inv_def checkpoints_ok_def pin_recorded_def)
next
  case (Cease reason)
  then show ?thesis by (auto intro: wlp_mono [OF withdraw_win_inv [OF assms(1)]])
next
  case (Pin mac host)
  then have len: "length mac = 6" and valid: "g_luid_valid s"
    using assms(2,3) by (simp_all add: wn_decision_ok_def)
  have "wlp (case host of None \<Rightarrow> ret () | Some h \<Rightarrow> router_cache_put_win S h mac) (\<lambda>_. wn_inv) t"
    if "wn_inv t" for t
    using that by (auto simp: wlp_ret intro: wp_wlp reg_put_inv split: option.split)
  then show ?thesis
    using Pin by (auto simp: wlp_bnd intro: wlp_mono [OF install_win_inv [OF assms(1) valid len]])
qed

text \<open>An observation changes the world, and resolves the interface at most once.\<close>

definition luid_step :: "'k wn_state \<Rightarrow> 'k wn_state \<Rightarrow> bool" where
  "luid_step s t \<longleftrightarrow> (\<exists>k luid v. t = s\<lparr>kern := k, g_luid := luid, g_luid_valid := v\<rparr> \<and>
     (g_luid_valid s \<longrightarrow> luid = g_luid s \<and> v))"

lemma luid_stepI:
  "g_luid_valid s \<longrightarrow> luid = g_luid s \<and> v \<Longrightarrow>
    luid_step s (s\<lparr>kern := k, g_luid := luid, g_luid_valid := v\<rparr>)"
  by (auto simp: luid_step_def)

lemma luid_step_kern: "luid_step s (s\<lparr>kern := k\<rparr>)"
  using luid_stepI [of s "g_luid s" "g_luid_valid s" k] by simp

lemma luid_step_refl: "luid_step s s"
  using luid_step_kern [of s "kern s"] by simp

lemma luid_step_resolved:
  "\<not> g_luid_valid s \<Longrightarrow> luid_step s (s\<lparr>kern := k, g_luid := luid, g_luid_valid := True\<rparr>)"
  by (rule luid_stepI) simp

lemma luid_step_then: "luid_step s t \<Longrightarrow> luid_step s (t\<lparr>kern := k\<rparr>)"
proof -
  assume "luid_step s t"
  then obtain k' luid v where "t = s\<lparr>kern := k', g_luid := luid, g_luid_valid := v\<rparr>"
    and "g_luid_valid s \<longrightarrow> luid = g_luid s \<and> v"
    by (auto simp: luid_step_def)
  moreover from this have "t\<lparr>kern := k\<rparr> = s\<lparr>kern := k, g_luid := luid, g_luid_valid := v\<rparr>"
    by simp
  ultimately show ?thesis using luid_stepI [of s luid v k] by (simp only:)
qed

lemma luid_step_inv: "luid_step s t \<Longrightarrow> wn_inv s \<Longrightarrow> wn_inv t"
  by (auto simp: luid_step_def wn_inv_def pin_recorded_def checkpoints_ok_def)

lemma resolve_luid_effect:
  "wlp (resolve_luid S) (\<lambda>ok t. luid_step s t \<and> (ok \<longrightarrow> g_luid_valid t)) s"
  by (auto simp: resolve_luid_def wp_simps luid_step_kern luid_step_refl luid_step_resolved
      split: option.split list.split)

lemma wlp_wn_observe:
  assumes arrays: "arrays_ok S"
    and Q: "\<And>d t. wn_decision_ok d \<Longrightarrow> d = Gone \<or> g_luid_valid t \<Longrightarrow> luid_step s t \<Longrightarrow> Q d t"
  shows "wlp (wn_observe S) Q s"
  unfolding wn_observe_def wlp_bnd
proof (rule wlp_mono [OF resolve_luid_effect], unfold wlp_if)
  fix ok t
  assume t: "luid_step s t \<and> (ok \<longrightarrow> g_luid_valid t)"
  have "wlp (wn_decide S) Q t" if "ok"
    by (rule wlp_read [OF kern_only_wn_decide returns_wn_decide [OF arrays]])
      (use t that in \<open>auto intro: Q luid_step_then\<close>)
  moreover have "Q Gone t"
    using t by (intro Q) (simp_all add: wn_decision_ok_def)
  ultimately show "if \<not> ok then wlp (ret Gone) Q t else wlp (wn_decide S) Q t"
    by (simp add: wlp_ret)
qed

lemma reconcile_win_inv:
  assumes "arrays_ok S" and "wn_inv s"
  shows "wlp (reconcile_win S) (\<lambda>_. wn_inv) s"
  unfolding reconcile_win_split wlp_bnd
proof (rule wlp_wn_observe [OF assms(1)])
  fix d t
  assume d: "wn_decision_ok d" "d = Gone \<or> g_luid_valid t"
    and t: "luid_step s t"
  have "wn_inv t"
    using t assms(2) by (rule luid_step_inv)
  then show "wlp (wn_act S d) (\<lambda>_. wn_inv) t"
    using d by (rule wn_act_inv)
qed

section \<open>Statuses\<close>

lemma checkpoints_law_snoc:
  assumes "checkpoints_law sts cp"
    and "st_controls st = (if st_state st = SERVICE_START_PENDING then 0 else SERVICE_ACCEPT_STOP_SHUTDOWN)"
    and "st_checkpoint st = (if pending st then cp else 0)"
  shows "checkpoints_law (sts @ [st]) (if pending st then cp + 1 else cp)"
  using assms by (auto simp: checkpoints_law_def)

lemma new_status_simps [simp]:
  "st_state (new_status state hint cp) = state"
  "pending (new_status state hint cp) \<longleftrightarrow> \<not> status_final state"
  by (simp_all add: new_status_def pending_def)

lemma report_inv:
  assumes "wn_inv s"
  shows "wp (report S state hint) (\<lambda>_ t. wn_inv t \<and> g_installed t = g_installed s \<and>
    g_stop_event t = g_stop_event s \<and> g_console t = g_console s \<and>
    out t = out s @ [Ev_status (new_status state hint (g_checkpoint s))]) s"
proof -
  let ?st = "new_status state hint (g_checkpoint s)"
  have "checkpoints_law (statuses (out s) @ [?st]) (if pending ?st then g_checkpoint s + 1 else g_checkpoint s)"
    using assms
    by (intro checkpoints_law_snoc) (simp_all add: wn_inv_def checkpoints_ok_def new_status_def pending_def)
  then show ?thesis
    using assms
    by (simp add: report_def wp_simps wn_inv_def pin_recorded_def checkpoints_ok_def Let_def)
      (auto split: if_splits)
qed

lemma ctrl_handler_inv: "wn_inv s \<Longrightarrow> wp (ctrl_handler S ctrl) (\<lambda>_. wn_inv) s"
  by (auto simp: ctrl_handler_def wp_simps intro: wp_mono [OF report_inv])

section \<open>The life of the worker\<close>

lemma wn_env_inv: "wn_env S s t \<Longrightarrow> wn_inv s \<Longrightarrow> wn_inv t"
proof (induction rule: wn_env.induct)
  case (wn_control s ctrl r t)
  then show ?case using wlpD [OF wp_wlp [OF ctrl_handler_inv [of s S ctrl]]] by simp
qed (simp_all add: cb_route_def cb_addr_def cb_iface_def console_ctrl_def)

lemma wn_iter_inv: "arrays_ok S \<Longrightarrow> wn_inv s \<Longrightarrow> wlp (wn_iter S) (\<lambda>_. wn_inv) s"
  unfolding wn_iter_def wait_events_def
  by (auto simp: wp_simps intro: reconcile_win_inv)

lemma wn_stop_inv: "wn_inv s \<Longrightarrow> wlp (wn_stop S) (\<lambda>_ t. wn_inv t \<and> \<not> g_installed t) s"
  unfolding wn_stop_def by (auto simp: wp_simps intro: withdraw_win_inv)

lemma service_stop_inv: "wn_inv s \<Longrightarrow> wlp (service_stop S) (\<lambda>_ t. wn_inv t \<and> \<not> g_installed t) s"
  unfolding service_stop_def wlp_bnd
  by (rule wlp_mono [OF wn_stop_inv]) (auto intro: wlp_mono [OF wp_wlp [OF report_inv]])

lemma safe_wn_life: "safe (wn_iter S)" "safe (wn_stop S)" "safe (service_stop S)"
  unfolding wn_iter_def wait_events_def service_stop_def wn_stop_def report_def Let_def
  by (intro safe_intros)+

definition wn_good :: "('k, 'x) wn_sys_scheme \<Rightarrow> 'k wn_state \<Rightarrow> bool" where
  "wn_good S s \<longleftrightarrow> arrays_ok S \<and> wn_inv s"

lemma wn_good_wlp: "(wn_inv s \<Longrightarrow> wlp m (\<lambda>x t. wn_inv t \<and> Q x t) s) \<Longrightarrow> wn_good S s \<Longrightarrow>
    wlp m (\<lambda>x t. wn_good S t \<and> Q x t) s"
  by (auto simp: wn_good_def elim!: wlp_mono)

lemma wn_good_steps:
  "wn_good S s \<Longrightarrow> wlp (wn_iter S) (\<lambda>_. wn_good S) s"
  "wn_good S s \<Longrightarrow> wn_env S s t \<Longrightarrow> wn_good S t"
  "wn_good S s \<Longrightarrow> wlp (wn_stop S) (\<lambda>_ t. wn_good S t \<and> \<not> g_installed t) s"
  "wn_good S s \<Longrightarrow> wlp (service_stop S) (\<lambda>_ t. wn_good S t \<and> \<not> g_installed t) s"
  by (auto intro!: wn_good_wlp [OF wn_stop_inv] wn_good_wlp [OF service_stop_inv])
    (auto simp: wn_good_def intro: wn_env_inv wlp_mono [OF wn_iter_inv])

interpretation wn_foreground: safe_daemon_loop wn_running "wn_env S" "wn_iter S" "wn_stop S"
  "wn_good S" g_installed
  for S :: "('k, 'x) wn_sys_scheme"
  using safe_wn_life by unfold_locales (blast intro: wn_good_steps | simp add: safe_def)+

interpretation wn_service: safe_daemon_loop wn_running "wn_env S" "wn_iter S" "service_stop S"
  "wn_good S" g_installed
  for S :: "('k, 'x) wn_sys_scheme"
  using safe_wn_life by unfold_locales (blast intro: wn_good_steps | simp add: safe_def)+

section \<open>The start\<close>

lemma worker_start_inv: "arrays_ok S \<Longrightarrow> wn_inv s \<Longrightarrow> wlp (worker_start S) (\<lambda>_. wn_inv) s"
  unfolding worker_start_def by (auto simp: wp_simps intro: reconcile_win_inv)

lemma wn_inv_line [simp]: "out u = out t \<Longrightarrow> wn_inv t \<Longrightarrow> wn_inv (t\<lparr>out := out u @ [Log_line l]\<rparr>)"
  by (auto simp: wn_inv_def pin_recorded_def checkpoints_ok_def)

lemma service_start_inv: "arrays_ok S \<Longrightarrow> wn_inv s \<Longrightarrow> wlp (service_start S) (\<lambda>_. wn_inv) s"
proof -
  assume arrays: "arrays_ok S" and inv: "wn_inv s"
  have rep: "wlp (report S state hint) Q t"
    if "wn_inv t" "\<And>u. wn_inv u \<Longrightarrow> Q () u" for state hint Q t
    by (rule wlp_mono [OF wp_wlp [OF report_inv [OF that(1)]]]) (use that(2) in auto)
  show ?thesis
    unfolding service_start_def wlp_bnd wlp_kcall wlp_modify wlp_if wlp_ret wlp_emit
    using inv by (auto intro!: rep wlp_mono [OF worker_start_inv [OF arrays]])
qed

definition wn_fresh :: "'k wn_state \<Rightarrow> bool" where
  "wn_fresh s \<longleftrightarrow> \<not> g_installed s \<and> out s = [] \<and> g_checkpoint s = 1 \<and> 1 \<le> g_interval s"

lemma wn_fresh_inv: "wn_fresh s \<Longrightarrow> wn_inv s"
  by (simp add: wn_fresh_def wn_inv_def pin_recorded_def checkpoints_ok_def checkpoints_law_def)

lemma wn_args_wlp:
  "wn_fresh s \<Longrightarrow> wlp (wn_args as dry ifarg) (\<lambda>r t. r \<noteq> None \<longrightarrow> wn_fresh t) s"
proof (induction as dry ifarg arbitrary: s rule: wn_args.induct)
  case (1 dry ifarg)
  then show ?case by (simp add: wp_simps)
next
  case (2 a as dry ifarg)
  have upd: "wn_fresh (s\<lparr>g_console := c\<rparr>)" "wn_fresh (s\<lparr>g_require_sentinel_route := c\<rparr>)"
    "1 \<le> i \<Longrightarrow> wn_fresh (s\<lparr>g_interval := i\<rparr>)" for c i
    using 2(6) by (simp_all add: wn_fresh_def)
  show ?case
    using 2 upd by (auto simp: wp_simps split: list.split option.split)
qed

text \<open>What \<open>main\<close> hands to the loop.\<close>

definition wn_outcome :: "wn_mode \<Rightarrow> 'k wn_state \<Rightarrow> bool" where
  "wn_outcome m t \<longleftrightarrow> (case m of Exit c \<Rightarrow> True | _ \<Rightarrow> wn_inv t)"

lemma wn_main_wlp:
  assumes "arrays_ok S"
  shows "wlp (wn_main S args) wn_outcome (wn_init k reg)"
proof -
  have fresh: "wn_fresh (wn_init k reg)" by (simp add: wn_init_def wn_fresh_def)
  have dry: "wlp (dry_run_report_win S) (\<lambda>c. wn_outcome (Exit c)) t" for t
    by (auto simp: wn_outcome_def intro: wlp_mono [OF wlp_true])
  have work: "wlp (worker_start S) (\<lambda>_. wn_outcome Foreground) t" if "wn_inv t" for t
    by (rule wlp_mono [OF worker_start_inv [OF assms that]]) (simp add: wn_outcome_def)
  have serve: "wlp (service_start S) (\<lambda>ok. wn_outcome (if ok then Service else Exit 0)) t"
    if "wn_inv t" for t
    by (rule wlp_mono [OF service_start_inv [OF assms that]]) (simp add: wn_outcome_def)
  have eta: "wlp (ret m) wn_outcome = wn_outcome m" for m :: wn_mode
    by (rule ext) (simp add: wlp_ret)
  show ?thesis
    unfolding wn_main_def wlp_bnd
    by (rule wlp_mono [OF wn_args_wlp [OF fresh]])
      (auto simp: wlp_bnd wlp_modify wlp_kcall wlp_emit wlp_gets wlp_if wlp_ret eta wn_outcome_def [of "Exit _"]
wn_fresh_inv
        intro!: dry work serve split: option.split prod.split)
qed

end
