(* ===== verification/Windows_Entry.thy ===== *)
theory Windows_Entry
  imports Windows_Pass
begin

text \<open>
  What a pass of the Windows daemon achieves when the tables stand still while it looks:
  \<open>wn_spec\<close> is the decision they call for, \<open>nbr_law\<close> the documented effect of the three calls
  on the neighbor table, and \<open>reconcile_win_sets\<close> the entry a pass leaves.
\<close>

section \<open>The decision\<close>

definition wn_quiet :: "('k, 'x) wn_sys_scheme \<Rightarrow> bool" where
  "wn_quiet S \<longleftrightarrow> (\<forall>a. quiet (win_alias_to_luid S a)) \<and> (\<forall>i. quiet (win_index_to_luid S i)) \<and>
     (\<forall>l. quiet (win_luid_to_index S l)) \<and> (\<forall>l. quiet (win_if_entry S l)) \<and>
     (\<forall>f. quiet (win_fwd_table S f)) \<and> (\<forall>f. quiet (win_net_table S f)) \<and>
     (\<forall>n. quiet (win_reg_get S n)) \<and> (\<forall>n. quiet (win_reg_set S n))"

lemma wn_quietD:
  assumes "wn_quiet S"
  shows "quiet (win_alias_to_luid S a)" and "quiet (win_index_to_luid S i)"
    and "quiet (win_luid_to_index S l)" and "quiet (win_if_entry S l)" and "quiet (win_fwd_table S f)"
    and "quiet (win_net_table S f)" and "quiet (win_reg_get S n)" and "quiet (win_reg_set S n)"
  using assms by (simp_all add: wn_quiet_def)

text \<open>A table that cannot be read counts as empty.\<close>

definition rows :: "'r list option \<Rightarrow> 'r list" where
  "rows tbl = (case tbl of None \<Rightarrow> [] | Some rs \<Rightarrow> rs)"

text \<open>The interface: the one resolved before, else the alias, else the index.\<close>

definition wn_luid :: "('k, 'x) wn_sys_scheme \<Rightarrow> 'k wn_state \<Rightarrow> u64 option" where
  "wn_luid S s =
     (if g_luid_valid s then Some (g_luid s)
      else case fst (win_alias_to_luid S (g_ifarg s) (kern s)) of
        Some luid \<Rightarrow> Some luid
      | None \<Rightarrow>
          (case wcstoul (g_ifarg s) of
             Some (n, []) \<Rightarrow> if n = 0 then None else fst (win_index_to_luid S n (kern s))
           | _ \<Rightarrow> None))"

definition wn_host_mac :: "('k, 'x) wn_sys_scheme \<Rightarrow> u64 \<Rightarrow> 'k \<Rightarrow> mac_addr option" where
  "wn_host_mac S luid k =
     (case fst (win_if_entry S luid k) of
        None \<Rightarrow> None
      | Some e \<Rightarrow> if e_phys_len e = 6 then Some (take 6 (e_phys e)) else None)"

definition wn_router_mac :: "('k, 'x) wn_sys_scheme \<Rightarrow> u64 \<Rightarrow> 'k \<Rightarrow> mac_addr option" where
  "wn_router_mac S luid k =
     (case best_route luid (rows (fst (win_fwd_table S WIN_AF_INET6 k))) of
        None \<Rightarrow> None
      | Some r \<Rightarrow> map_option (\<lambda>n. take 6 (n_phys n))
          (find (resolved6 luid (si_v6 (f_nexthop r))) (rows (fst (win_net_table S WIN_AF_INET6 k)))))"

definition wn_cached :: "('k, 'x) wn_sys_scheme \<Rightarrow> 'k wn_state \<Rightarrow> mac_addr \<Rightarrow> mac_addr option" where
  "wn_cached S s host = (if fst (win_reg_get S (mac_str_reg host) (kern s)) then reg_view s host else None)"

definition wn_spec :: "('k, 'x) wn_sys_scheme \<Rightarrow> 'k wn_state \<Rightarrow> wn_decision" where
  "wn_spec S s =
     (case wn_luid S s of
        None \<Rightarrow> Gone
      | Some luid \<Rightarrow>
          if fst (win_luid_to_index S luid (kern s)) = None then Gone
          else if g_require_sentinel_route s \<and>
              \<not> (\<exists>r \<in> set (rows (fst (win_fwd_table S WIN_AF_INET (kern s)))). sentinel_route luid r)
            then Cease ''sentinel 192.0.0.11 route removed; ceasing per draft s4''
          else case wn_router_mac S luid (kern s) of
            Some mac \<Rightarrow> Pin mac (wn_host_mac S luid (kern s))
          | None \<Rightarrow>
              (case Option.bind (wn_host_mac S luid (kern s)) (wn_cached S s) of
                 Some mac \<Rightarrow> Pin mac None
               | None \<Rightarrow> Cease ''no IPv6 default router resolved yet; ceding to ARP bootstrap''))"

definition wn_resolved :: "('k, 'x) wn_sys_scheme \<Rightarrow> 'k wn_state \<Rightarrow> 'k wn_state" where
  "wn_resolved S s =
     (case wn_luid S s of None \<Rightarrow> s | Some luid \<Rightarrow> s\<lparr>g_luid := luid, g_luid_valid := True\<rparr>)"

lemma resolve_luid_quiet:
  assumes "wn_quiet S"
  shows "resolve_luid S s = Some (wn_luid S s \<noteq> None, wn_resolved S s)"
proof -
  have valid: "s\<lparr>g_luid := g_luid s, g_luid_valid := True\<rparr> = s" if "g_luid_valid s"
    using that by simp
  show ?thesis
    by (auto simp: resolve_luid_def bnd_def run_simps kcall_quiet wn_quietD [OF assms] wn_luid_def
        wn_resolved_def valid split: option.split list.split)
qed

lemma reads_quiet:
  assumes q: "wn_quiet S"
  shows "iface_present S s = Some (fst (win_luid_to_index S (g_luid s) (kern s)) \<noteq> None, s)"
    and "interface_mac S s = Some (wn_host_mac S (g_luid s) (kern s), s)"
    and "resolve_router_win S s = Some (wn_router_mac S (g_luid s) (kern s), s)"
    and "sentinel_in_fib_win S s = Some
      ((\<exists>r \<in> set (rows (fst (win_fwd_table S WIN_AF_INET (kern s)))). sentinel_route (g_luid s) r), s)"
    and "router_cache_lookup_win S h s = Some (wn_cached S s h, s)"
    and "find_default_router_win S s = Some (map_option (\<lambda>r. si_v6 (f_nexthop r))
      (best_route (g_luid s) (rows (fst (win_fwd_table S WIN_AF_INET6 (kern s))))), s)"
proof -
  show router: "find_default_router_win S s = Some (map_option (\<lambda>r. si_v6 (f_nexthop r))
      (best_route (g_luid s) (rows (fst (win_fwd_table S WIN_AF_INET6 (kern s))))), s)"
    by (auto simp: find_default_router_win_def bnd_def run_simps kcall_quiet wn_quietD [OF q] rows_def
        router_fold router_of_def option.map_comp comp_def split: option.split)
  have lladdr: "router_lladdr_win S gw s = Some (map_option (\<lambda>n. take 6 (n_phys n))
      (find (resolved6 (g_luid s) gw) (rows (fst (win_net_table S WIN_AF_INET6 (kern s))))), s)" for gw
    by (auto simp: router_lladdr_win_def bnd_def run_simps kcall_quiet wn_quietD [OF q] rows_def
        lladdr_scan_find split: option.split)
  show "resolve_router_win S s = Some (wn_router_mac S (g_luid s) (kern s), s)"
    by (auto simp: resolve_router_win_def bnd_def router lladdr run_simps wn_router_mac_def
        split: option.split)
  show "iface_present S s = Some (fst (win_luid_to_index S (g_luid s) (kern s)) \<noteq> None, s)"
    by (simp add: iface_present_def bnd_def run_simps kcall_quiet wn_quietD [OF q])
  show "interface_mac S s = Some (wn_host_mac S (g_luid s) (kern s), s)"
    by (auto simp: interface_mac_def bnd_def run_simps kcall_quiet wn_quietD [OF q] wn_host_mac_def
        split: option.split)
  show "sentinel_in_fib_win S s = Some
      ((\<exists>r \<in> set (rows (fst (win_fwd_table S WIN_AF_INET (kern s)))). sentinel_route (g_luid s) r), s)"
    by (auto simp: sentinel_in_fib_win_def bnd_def run_simps kcall_quiet wn_quietD [OF q] rows_def
        fib_scan_ex split: option.split)
  show "router_cache_lookup_win S h s = Some (wn_cached S s h, s)"
    by (auto simp: router_cache_lookup_win_def bnd_def run_simps kcall_quiet wn_quietD [OF q]
        wn_cached_def reg_view_def split: option.split)
qed

lemma wn_observe_spec:
  assumes q: "wn_quiet S"
  shows "wn_observe S s = Some (wn_spec S s, wn_resolved S s)"
proof (cases "wn_luid S s")
  case None
  then show ?thesis
    by (simp add: wn_observe_def bnd_def resolve_luid_quiet [OF q] run_simps wn_spec_def)
next
  case (Some luid)
  then have r: "wn_resolved S s = s\<lparr>g_luid := luid, g_luid_valid := True\<rparr>"
    by (simp add: wn_resolved_def)
  have cached: "wn_cached S (s\<lparr>g_luid := luid, g_luid_valid := True\<rparr>) h = wn_cached S s h" for h
    by (simp add: wn_cached_def reg_view_def)
  show ?thesis
    using Some
    by (cases "wn_host_mac S luid (kern s)")
      (auto simp: wn_observe_def wn_decide_def bnd_def resolve_luid_quiet [OF q] reads_quiet [OF q]
        run_simps wn_spec_def r cached split: option.split)
qed

lemma reconcile_win_spec:
  "wn_quiet S \<Longrightarrow> reconcile_win S s = wn_act S (wn_spec S s) (wn_resolved S s)"
  by (simp add: reconcile_win_split bnd_def wn_observe_spec)

section \<open>The neighbor entry\<close>

text \<open>
  The documented effect of the calls on the entry of the gateway address on one interface,
  which \<open>entry\<close> reads off a world. A deletion leaves no permanent entry, though the address may
  be resolved anew at once; a creation makes the entry or reports that there is one; a set
  replaces the entry that is there.
\<close>

definition nbr_law :: "('k, 'x) wn_sys_scheme \<Rightarrow> ('k \<Rightarrow> net_row option) \<Rightarrow> u64 \<Rightarrow> bool" where
  "nbr_law S entry luid \<longleftrightarrow>
     (\<forall>m k. pinned_mac (entry (snd (win_delete S (fill_sentinel_row luid m) k))) = None) \<and>
     (\<forall>m k. length m = 6 \<longrightarrow>
       (let row = fill_sentinel_row luid (Some m); r = win_create S row k in
        fst r = NO_ERROR \<and> entry (snd r) = Some row \<or>
        fst r = ERROR_OBJECT_ALREADY_EXISTS \<and> entry (snd r) \<noteq> None)) \<and>
     (\<forall>m k. length m = 6 \<longrightarrow> entry k \<noteq> None \<longrightarrow>
       (let row = fill_sentinel_row luid (Some m); r = win_set S row k in
        fst r = NO_ERROR \<and> entry (snd r) = Some row))"

text \<open>The IPv4 neighbor table shows that entry.\<close>

definition nbr_shown :: "('k, 'x) wn_sys_scheme \<Rightarrow> ('k \<Rightarrow> net_row option) \<Rightarrow> u64 \<Rightarrow> 'k \<Rightarrow> bool" where
  "nbr_shown S entry luid k \<longleftrightarrow>
     entry k = find (sentinel_row luid) (rows (fst (win_net_table S WIN_AF_INET k)))"

lemma pinned_fill [simp]:
  "length m = 6 \<Longrightarrow> pinned_mac (Some (fill_sentinel_row luid (Some m))) = Some m"
  by (simp add: pinned_mac_def fill_sentinel_row_def Let_def)

lemma sentinel_row_fill: "sentinel_row luid (fill_sentinel_row luid m)"
  by (simp add: sentinel_row_def fill_sentinel_row_def Let_def split: option.split)

lemma neighbor_present_quiet:
  assumes q: "wn_quiet S" and arrays: "arrays_ok S" and len: "length mac = 6"
  shows "neighbor_present S mac s = Some (pinned_mac (find (sentinel_row (g_luid s))
    (rows (fst (win_net_table S WIN_AF_INET (kern s))))) = Some mac, s)"
proof (cases "fst (win_net_table S WIN_AF_INET (kern s))")
  case None
  then show ?thesis
    by (simp add: neighbor_present_def bnd_def run_simps kcall_quiet wn_quietD [OF q] rows_def pinned_mac_def)
next
  case (Some rs)
  then have "\<forall>r \<in> set rs. 6 \<le> length (n_phys r)"
    using arrays by (simp add: arrays_ok_def)
  then show ?thesis
    using Some len
    by (simp add: neighbor_present_def bnd_def run_simps kcall_quiet wn_quietD [OF q] rows_def
        present_scan_find)
qed

text \<open>What an action leaves alone.\<close>

definition wn_frame :: "'k wn_state \<Rightarrow> 'k wn_state \<Rightarrow> bool" where
  "wn_frame s t \<longleftrightarrow> files t = files s \<and> g_luid t = g_luid s \<and> g_luid_valid t = g_luid_valid s \<and>
     g_ifarg t = g_ifarg s \<and> g_require_sentinel_route t = g_require_sentinel_route s"

lemma create_or_set_pins:
  fixes S :: "('k, 'x) wn_sys_scheme"
  assumes law: "nbr_law S entry luid" and len: "length mac = 6"
    and row: "row = fill_sentinel_row luid (Some mac)"
    and pinned: "\<And>k (es :: wn_event list). entry k = Some row \<Longrightarrow> Q NO_ERROR (s\<lparr>kern := k, out := out s @ es\<rparr>)"
  shows "wp (create_or_set S row) Q s"
proof -
  obtain c k1 where c: "win_create S row (kern s) = (c, k1)" by fastforce
  obtain e k2 where e: "win_set S row k1 = (e, k2)" by fastforce
  have created: "c = NO_ERROR \<and> entry k1 = Some row \<or> c = ERROR_OBJECT_ALREADY_EXISTS \<and> entry k1 \<noteq> None"
    using law len c row unfolding nbr_law_def Let_def by (metis fst_conv snd_conv)
  moreover have "entry k1 \<noteq> None \<Longrightarrow> e = NO_ERROR \<and> entry k2 = Some row"
    using law len e row unfolding nbr_law_def Let_def by (metis fst_conv snd_conv)
  ultimately show ?thesis
    using pinned [of k1 "[Ev_create row c]"] pinned [of k2 "[Ev_create row c, Ev_set row e]"]
    by (auto simp: create_or_set_def wp_simps c e NO_ERROR_def ERROR_OBJECT_ALREADY_EXISTS_def)
qed

lemma install_win_sets:
  assumes q: "wn_quiet S" and arrays: "arrays_ok S" and law: "nbr_law S entry (g_luid s)"
    and shown: "nbr_shown S entry (g_luid s) (kern s)" and inv: "wn_inv s" and len: "length mac = 6"
  shows "wp (install_win S mac) (\<lambda>_ t. pinned_mac (entry (kern t)) = Some mac \<and> g_installed t \<and>
    g_installed_mac t = mac \<and> wn_frame s t) s"
proof -
  let ?row = "fill_sentinel_row (g_luid s) (Some mac)"
  have "g_installed_mac s = mac" if "g_installed s" "memcmp (g_installed_mac s) mac = 0"
    using that inv len by (simp add: wn_inv_def pin_recorded_def memcmp_zero)
  moreover have "neighbor_present S mac s = Some (pinned_mac (entry (kern s)) = Some mac, s)"
    using neighbor_present_quiet [OF q arrays len] shown by (simp add: nbr_shown_def)
  moreover have "pinned_mac (entry (snd (win_delete S ?row k))) = None" for k
    using law by (simp add: nbr_law_def)
  moreover have "wp (create_or_set S ?row) (\<lambda>e. wp
      (if e \<noteq> NO_ERROR then emit (Log_create_failed (mac_str mac) e)
       else bnd (emit (Log_pinned (mac_str mac)))
         (\<lambda>_. modify (\<lambda>s. s\<lparr>g_installed := True, g_installed_mac := mac\<rparr>)))
      (\<lambda>_ t. pinned_mac (entry (kern t)) = Some mac \<and> g_installed t \<and> g_installed_mac t = mac \<and>
        wn_frame s t)) t" if "wn_frame s t" for t
    using that by (intro create_or_set_pins [OF law len refl]) (simp add: wp_simps len wn_frame_def)
  ultimately show ?thesis
    by (auto simp: install_win_def wp_bnd wp_gets wp_kcall wp_emit wp_ret Let_def
        wp_def [of "neighbor_present S mac"] wn_frame_def)
qed

lemma withdraw_win_clears:
  assumes "nbr_law S entry (g_luid s)"
  shows "wp (withdraw_win S reason) (\<lambda>_ t. \<not> g_installed t \<and>
    pinned_mac (entry (kern t)) = (if g_installed s then None else pinned_mac (entry (kern s)))) s"
  using assms by (simp add: withdraw_win_def wp_simps Let_def nbr_law_def)

text \<open>
  The end of the worker: cancelling a notification and reporting a status do not touch the neighbor
  table, whose entry of the gateway address \<open>entries\<close> reads for each interface.
\<close>

definition stop_law :: "('k, 'x) wn_sys_scheme \<Rightarrow> (u64 \<Rightarrow> 'k \<Rightarrow> net_row option) \<Rightarrow> bool" where
  "stop_law S entries \<longleftrightarrow> (\<forall>l. nbr_law S (entries l) l) \<and>
     (\<forall>l h k. entries l (snd (win_cancel S h k)) = entries l k) \<and>
     (\<forall>l st k. entries l (snd (win_set_status S st k)) = entries l k)"

definition wn_cleared :: "(u64 \<Rightarrow> 'k \<Rightarrow> net_row option) \<Rightarrow> 'k wn_state \<Rightarrow> 'k wn_state \<Rightarrow> bool" where
  "wn_cleared entries s t \<longleftrightarrow> pinned_mac (entries (g_luid s) (kern t)) =
     (if g_installed s then None else pinned_mac (entries (g_luid s) (kern s)))"

lemma wn_stop_clears:
  assumes "stop_law S entries"
  shows "wp (wn_stop S) (\<lambda>_. wn_cleared entries s) s"
proof -
  have "wp (withdraw_win S reason) (\<lambda>_. wn_cleared entries s) u"
    if "g_luid u = g_luid s" "g_installed u = g_installed s"
      "entries (g_luid s) (kern u) = entries (g_luid s) (kern s)" for u reason
  proof -
    have "nbr_law S (entries (g_luid u)) (g_luid u)" using assms by (simp add: stop_law_def)
    then show ?thesis
      using that by (intro wp_mono [OF withdraw_win_clears]) (auto simp: wn_cleared_def)
  qed
  then show ?thesis
    using assms by (simp add: wn_stop_def wp_simps stop_law_def)
qed

lemma service_stop_clears:
  assumes "stop_law S entries"
  shows "wp (service_stop S) (\<lambda>_. wn_cleared entries s) s"
  unfolding service_stop_def wp_bnd
  by (rule wp_mono [OF wn_stop_clears [OF assms]])
    (use assms in \<open>simp add: report_def wp_simps stop_law_def wn_cleared_def\<close>)

lemma reg_put_quiet:
  assumes "wn_quiet S"
  shows "wp (router_cache_put_win S h mac) (\<lambda>_ t. kern t = kern s \<and> g_installed t = g_installed s) s"
  by (simp add: router_cache_put_win_def wp_simps wn_quietD [OF assms]
      wp_def [of "router_cache_lookup_win S h"] reads_quiet(5) [OF assms])

lemma wn_spec_ok:
  assumes "wn_quiet S" and "arrays_ok S"
  shows "wn_decision_ok (wn_spec S s)"
  using wlpD [OF wlp_wn_observe [OF assms(2), where Q = "\<lambda>d _. wn_decision_ok d"] wn_observe_spec [OF assms(1)]]
  by blast

text \<open>When a decision is carried out: the system keeps its promises, the memory is in order.\<close>

definition wn_keeps :: "('k, 'x) wn_sys_scheme \<Rightarrow> ('k \<Rightarrow> net_row option) \<Rightarrow> 'k wn_state \<Rightarrow> bool" where
  "wn_keeps S entry s \<longleftrightarrow> wn_quiet S \<and> arrays_ok S \<and> nbr_law S entry (g_luid s) \<and>
     nbr_shown S entry (g_luid s) (kern s) \<and> wn_inv s"

lemma wn_pin_sets:
  assumes "wn_keeps S entry s" and "length mac = 6"
  shows "wp (wn_pin S mac host) (\<lambda>_ t. pinned_mac (entry (kern t)) = Some mac \<and> g_installed t) s"
proof -
  have q: "wn_quiet S" using assms(1) by (simp add: wn_keeps_def)
  have "wp (case host of None \<Rightarrow> ret () | Some h \<Rightarrow> router_cache_put_win S h mac)
      (\<lambda>_ u. pinned_mac (entry (kern u)) = Some mac \<and> g_installed u) t"
    if "pinned_mac (entry (kern t)) = Some mac \<and> g_installed t" for t
    using that by (auto simp: wp_ret intro: wp_mono [OF reg_put_quiet [OF q]] split: option.split)
  then show ?thesis
    unfolding wn_pin_def wp_bnd
    using assms by (intro wp_mono [OF install_win_sets [where entry = entry]]) (simp_all add: wn_keeps_def)
qed

interpretation wn_keeper: entry_keeper "modify (\<lambda>s. s\<lparr>g_installed := False\<rparr>)" "withdraw_win S" "wn_pin S"
  "\<lambda>s. pinned_mac (entry (kern s))" g_installed "wn_keeps S entry" "\<lambda>mac host. length mac = 6 \<and> six host" "\<lambda>_. Some" None
  for S :: "('k, 'x) wn_sys_scheme" and entry
proof
  fix s :: "'k wn_state" and reason mac host
  assume ok: "wn_keeps S entry s"
  show "wp (modify (\<lambda>s. s\<lparr>g_installed := False\<rparr>))
      (\<lambda>_ t. pinned_mac (entry (kern t)) = pinned_mac (entry (kern s)) \<and> \<not> g_installed t) s"
    by (simp add: wp_simps)
  show "wp (withdraw_win S reason) (\<lambda>_ t. pinned_mac (entry (kern t)) =
      (if g_installed s then None else pinned_mac (entry (kern s))) \<and> \<not> g_installed t) s"
    using ok by (intro wp_mono [OF withdraw_win_clears [where entry = entry]]) (simp_all add: wn_keeps_def)
  show "wp (wn_pin S mac host) (\<lambda>_ t. pinned_mac (entry (kern t)) = Some mac \<and> g_installed t) s"
    if "length mac = 6 \<and> six host"
    using ok conjunct1 [OF that] by (rule wn_pin_sets)
qed

lemma wn_keeps_resolved:
  assumes "wn_quiet S" and "arrays_ok S" and "wn_luid S s = Some luid"
    and "nbr_law S entry luid" and "nbr_shown S entry luid (kern s)" and "wn_inv s"
  shows "wn_keeps S entry (wn_resolved S s)"
proof -
  have r: "wn_resolved S s = s\<lparr>g_luid := luid, g_luid_valid := True\<rparr>"
    using assms(3) by (simp add: wn_resolved_def)
  have "wn_inv (wn_resolved S s)"
    using assms(3,6)
    by (auto simp: r wn_inv_def pin_recorded_def checkpoints_ok_def wn_luid_def Let_def)
  then show ?thesis using assms by (simp add: wn_keeps_def r)
qed

lemma reconcile_win_sets:
  assumes q: "wn_quiet S" and arrays: "arrays_ok S" and luid: "wn_luid S s = Some luid"
    and law: "nbr_law S entry luid" and shown: "nbr_shown S entry luid (kern s)" and inv: "wn_inv s"
  shows "wp (reconcile_win S) (\<lambda>_ t. pinned_mac (entry (kern t)) =
    entry_after Some None (wn_spec S s) (g_installed s) (pinned_mac (entry (kern s)))) s"
proof -
  have r: "wn_resolved S s = s\<lparr>g_luid := luid, g_luid_valid := True\<rparr>"
    using luid by (simp add: wn_resolved_def)
  have "wn_keeps S entry (wn_resolved S s)"
    using assms by (rule wn_keeps_resolved)
  moreover have "fit_decision (\<lambda>mac host. length mac = 6 \<and> six host) (wn_spec S s)"
    using wn_spec_ok [OF q arrays, of s] by (simp add: wn_decision_ok_def fit_decision_def)
  ultimately show ?thesis
    unfolding reconcile_win_split wn_act_def
    by (rule wp_mono [OF wn_keeper.pass_sets [OF wn_observe_spec [OF q]]]) (simp add: r)
qed

end
