(* ===== verification/Windows_Demo.thy ===== *)
theory Windows_Demo
  imports Windows_Entry
begin

text \<open>
  The rest of what the properties of the Windows daemon need: the whole effect of \<open>install\<close>, the
  last status of the service, and \<open>wn_demo\<close>, a small world for the witnesses.
\<close>

section \<open>Effects\<close>

definition install_calls :: "net_row \<Rightarrow> u32 \<Rightarrow> wn_event list \<Rightarrow> bool" where
  "install_calls row e es \<longleftrightarrow>
     es = [Ev_create row e] \<and> e \<noteq> ERROR_OBJECT_ALREADY_EXISTS \<or>
     es = [Ev_create row ERROR_OBJECT_ALREADY_EXISTS, Ev_set row e]"

definition created :: "'k wn_state \<Rightarrow> net_row \<Rightarrow> u32 \<Rightarrow> 'k wn_state \<Rightarrow> bool" where
  "created s row e t \<longleftrightarrow> (\<exists>k es. install_calls row e es \<and> t = s\<lparr>kern := k, out := out s @ es\<rparr>)"

lemma createdI: "install_calls row e es \<Longrightarrow> created s row e (s\<lparr>kern := k, out := out s @ es\<rparr>)"
  by (auto simp: created_def)

lemma create_or_set_effect: "wlp (create_or_set S row) (created s row) s"
  by (auto simp: create_or_set_def wp_simps intro!: createdI) (simp_all add: install_calls_def)

definition install_effect :: "'k wn_state \<Rightarrow> mac_addr \<Rightarrow> 'k wn_state \<Rightarrow> bool" where
  "install_effect s mac t \<longleftrightarrow>
     (\<exists>k. t = s\<lparr>kern := k\<rparr> \<and> g_installed s \<and> memcmp (g_installed_mac s) mac = 0) \<or>
     (\<exists>k d es e. let row = fill_sentinel_row (g_luid s) (Some mac) in install_calls row e es \<and>
       (if e = NO_ERROR
        then t = s\<lparr>kern := k, out := out s @ [Ev_delete row d] @ es @ [Log_pinned (mac_str mac)],
          g_installed := True, g_installed_mac := mac\<rparr>
        else t = s\<lparr>kern := k, out := out s @ [Ev_delete row d] @ es @ [Log_create_failed (mac_str mac) e]\<rparr>))"

lemma install_effectI:
  assumes "install_calls (fill_sentinel_row (g_luid s) (Some mac)) e es"
    and "if e = NO_ERROR
      then t = s\<lparr>kern := k, out := out s @ [Ev_delete (fill_sentinel_row (g_luid s) (Some mac)) d] @ es @
          [Log_pinned (mac_str mac)], g_installed := True, g_installed_mac := mac\<rparr>
      else t = s\<lparr>kern := k, out := out s @ [Ev_delete (fill_sentinel_row (g_luid s) (Some mac)) d] @ es @
          [Log_create_failed (mac_str mac) e]\<rparr>"
  shows "install_effect s mac t"
  using assms unfolding install_effect_def Let_def by blast

lemma install_win_effect: "wlp (install_win S mac) (\<lambda>_. install_effect s mac) s"
proof -
  let ?row = "fill_sentinel_row (g_luid s) (Some mac)"
  have kept: "install_effect s mac (s\<lparr>kern := k\<rparr>)" if "g_installed s" "memcmp (g_installed_mac s) mac = 0" for k
    using that unfolding install_effect_def by blast
  have rest: "wlp (create_or_set S ?row) (\<lambda>e. wlp
      (if e \<noteq> NO_ERROR then emit (Log_create_failed (mac_str mac) e)
       else bnd (emit (Log_pinned (mac_str mac)))
         (\<lambda>_. modify (\<lambda>s. s\<lparr>g_installed := True, g_installed_mac := mac\<rparr>)))
      (\<lambda>_. install_effect s mac)) (s\<lparr>kern := k, out := out s @ [Ev_delete ?row d]\<rparr>)" for k d
  proof (rule wlp_mono [OF create_or_set_effect], unfold created_def, elim exE conjE)
    fix e t k' es
    assume "install_calls ?row e es"
      and "t = s\<lparr>kern := k, out := out s @ [Ev_delete ?row d]\<rparr>\<lparr>kern := k',
        out := out (s\<lparr>kern := k, out := out s @ [Ev_delete ?row d]\<rparr>) @ es\<rparr>"
    then show "wlp (if e \<noteq> NO_ERROR then emit (Log_create_failed (mac_str mac) e)
       else bnd (emit (Log_pinned (mac_str mac)))
         (\<lambda>_. modify (\<lambda>s. s\<lparr>g_installed := True, g_installed_mac := mac\<rparr>)))
      (\<lambda>_. install_effect s mac) t"
      by (auto simp: wp_simps intro!: install_effectI [where es = es and e = e and k = k' and d = d])
  qed
  have check: "wlp (if b then neighbor_present S mac else ret False) Q s"
    if "\<And>r k. (r \<longrightarrow> b) \<Longrightarrow> Q r (s\<lparr>kern := k\<rparr>)" for b Q
  proof (cases b)
    case True
    then show ?thesis
      using wlp_kern_only [OF kern_only_wn_reads(5), of Q s S mac] that by simp
  next
    case False
    then show ?thesis using that [of False "kern s"] by (simp add: wlp_ret)
  qed
  show ?thesis
    unfolding install_win_def wlp_bnd wlp_gets id_apply Let_def
  proof (rule check)
    fix r k
    assume r: "r \<longrightarrow> g_installed s \<and> memcmp (g_installed_mac s) mac = 0"
    show "wlp (if r then ret () else bnd (kcall (win_delete S ?row)) (\<lambda>d. bnd (emit (Ev_delete ?row d))
        (\<lambda>_. bnd (create_or_set S ?row) (\<lambda>e. if e \<noteq> NO_ERROR then emit (Log_create_failed (mac_str mac) e)
       else bnd (emit (Log_pinned (mac_str mac)))
         (\<lambda>_. modify (\<lambda>s. s\<lparr>g_installed := True, g_installed_mac := mac\<rparr>))))))
      (\<lambda>_. install_effect s mac) (s\<lparr>kern := k\<rparr>)"
      using r rest kept by (simp add: wlp_ret wlp_bnd wlp_kcall wlp_emit)
  qed
qed

lemma service_stop_effect:
  fixes s :: "'k wn_state"
  assumes "wn_inv s"
  shows "wlp (service_stop S) (\<lambda>_ t. \<exists>cp. last (out t) = Ev_status (new_status SERVICE_STOPPED 0 cp)) s"
  unfolding service_stop_def wlp_bnd
proof (rule wlp_mono [OF wn_stop_inv [OF assms]])
  fix t :: "'k wn_state"
  assume "wn_inv t \<and> \<not> g_installed t"
  then have "wn_inv t" ..
  then show "wlp (report S SERVICE_STOPPED 0)
      (\<lambda>_ u. \<exists>cp. last (out u) = Ev_status (new_status SERVICE_STOPPED 0 cp)) t"
    by (rule wlp_mono [OF wp_wlp [OF report_inv]]) auto
qed

section \<open>A small world\<close>

text \<open>
  A machine with one interface \<open>E\<close> of LUID 7 whose entry for the gateway address is the world.
  With \<open>raced\<close>, the address is resolved anew right after each deletion.
\<close>

definition sin_inet6 :: "in6_addr \<Rightarrow> sockaddr_inet" where
  "sin_inet6 a = \<lparr>si_family = WIN_AF_INET6, si_v4 = [], si_v6 = a\<rparr>"

definition demo_gw :: "byte \<Rightarrow> in6_addr" where
  "demo_gw x = [0xfe, 0x80, 0, 0, 0, 0, 0, 0, 0, 0, 0, 0, 0, 0, 0, x]"

definition demo_fwd :: "byte \<Rightarrow> u32 \<Rightarrow> fwd_row" where
  "demo_fwd x metric = \<lparr>f_luid = 7, f_prefix_len = 0, f_prefix = sin_inet6 (replicate 16 0),
     f_nexthop = sin_inet6 (demo_gw x), f_metric = metric\<rparr>"

definition demo_net :: "byte \<Rightarrow> mac_addr \<Rightarrow> net_row" where
  "demo_net x mac = \<lparr>n_luid = 7, n_addr = sin_inet6 (demo_gw x), n_phys_len = 6,
     n_phys = mac @ replicate 26 0, n_state = NlnsReachable\<rparr>"

definition wn_demo :: "bool \<Rightarrow> fwd_row list \<Rightarrow> net_row list \<Rightarrow> net_row option wn_sys" where
  "wn_demo raced routes neighbors =
     \<lparr>win_alias_to_luid = (\<lambda>a k. (if a = [69] then Some 7 else None, k)),
      win_index_to_luid = (\<lambda>i k. (None, k)),
      win_luid_to_index = (\<lambda>l k. (if l = 7 then Some 3 else None, k)),
      win_if_entry = (\<lambda>l k. (Some \<lparr>e_phys_len = 6, e_phys = [2, 0, 0, 0, 0, 9] @ replicate 26 0\<rparr>, k)),
      win_reg_get = (\<lambda>n k. (True, k)),
      win_reg_set = (\<lambda>n k. (True, k)),
      win_fwd_table = (\<lambda>f k. (Some (if f = WIN_AF_INET6 then routes else []), k)),
      win_net_table = (\<lambda>f k. (Some (if f = WIN_AF_INET6 then neighbors else case k of None \<Rightarrow> []
        | Some r \<Rightarrow> if 6 \<le> length (n_phys r) then [r] else []), k)),
      win_delete = (\<lambda>r k. (NO_ERROR, if raced then Some (r\<lparr>n_state := NlnsReachable\<rparr>) else None)),
      win_create = (\<lambda>r k. case k of None \<Rightarrow> (NO_ERROR, Some r) | Some _ \<Rightarrow> (ERROR_OBJECT_ALREADY_EXISTS, k)),
      win_set = (\<lambda>r k. case k of None \<Rightarrow> (1168, None) | Some _ \<Rightarrow> (NO_ERROR, Some r)),
      win_notify = (\<lambda>n k. (n + 1, k)),
      win_cancel = (\<lambda>h k. ((), k)),
      win_wait = (\<lambda>t k. (True, k)),
      win_sleep = (\<lambda>t k. ((), k)),
      win_register_handler = (\<lambda>k. (1, k)),
      win_set_status = (\<lambda>st k. ((), k)),
      win_create_event = (\<lambda>k. (True, k)),
      win_dispatch = (\<lambda>k. (0, k)),
      win_widen = map (\<lambda>c. of_nat (of_char c))\<rparr>"

definition wn_demo_state :: "'k \<Rightarrow> 'k wn_state" where
  "wn_demo_state k = (wn_init k (\<lambda>_. None))\<lparr>g_ifarg := [69]\<rparr>"

lemma wn_demo_quiet: "wn_quiet (wn_demo raced routes neighbors)"
  by (simp add: wn_quiet_def quiet_def wn_demo_def)

lemma wn_demo_arrays:
  "\<forall>r \<in> set neighbors. 6 \<le> length (n_phys r) \<Longrightarrow> arrays_ok (wn_demo raced routes neighbors)"
  by (auto simp: arrays_ok_def wn_demo_def split: option.splits if_splits)

lemma wn_demo_law: "nbr_law (wn_demo raced routes neighbors) id l"
  by (auto simp: nbr_law_def wn_demo_def Let_def pinned_mac_def split: option.split)

lemma wn_demo_stop_law: "stop_law (wn_demo raced routes neighbors) (\<lambda>_. id)"
  using wn_demo_law by (simp add: stop_law_def) (simp add: wn_demo_def)

lemma wn_demo_state_simps [simp]:
  "kern (wn_demo_state k) = k" "g_luid_valid (wn_demo_state k) = False" "g_installed (wn_demo_state k) = False"
  "g_ifarg (wn_demo_state k) = [69]" "g_require_sentinel_route (wn_demo_state k) = False"
  "files (wn_demo_state k) n = None" "out (wn_demo_state k) = []" "g_luid (wn_demo_state k) = 0"
  by (simp_all add: wn_demo_state_def wn_init_def)

lemma wn_demo_inv: "wn_inv (wn_demo_state k)"
  by (simp add: wn_inv_def pin_recorded_def checkpoints_ok_def checkpoints_law_def wn_demo_state_def wn_init_def)

lemma wn_demo_luid [simp]: "wn_luid (wn_demo raced routes neighbors) (wn_demo_state k) = Some 7"
  by (simp add: wn_luid_def wn_demo_def)

lemma demo_best:
  "best_route 7 [demo_fwd 2 35, demo_fwd 1 25, demo_fwd 3 25] = Some (demo_fwd 1 25)"
  by (simp add: best_route_Cons default6_def demo_fwd_def sin_inet6_def)

lemma demo_resolved: "find (resolved6 7 (demo_gw x)) [demo_net x mac] = Some (demo_net x mac)"
  by (simp add: resolved6_def demo_net_def sin_inet6_def memcmp_zero)

lemma wn_demo_facts [simp]:
  "fst (win_luid_to_index (wn_demo raced routes neighbors) 7 k) = Some 3"
  "wn_host_mac (wn_demo raced routes neighbors) luid k = Some [2, 0, 0, 0, 0, 9]"
  "wn_router_mac (wn_demo raced [] neighbors) luid k = None"
  by (simp_all add: wn_demo_def wn_host_mac_def wn_router_mac_def rows_def)

lemma demo_idle_spec:
  assumes "wn_luid (wn_demo raced [] []) s = Some 7" and "files s = (\<lambda>_. None)"
    and "\<not> g_require_sentinel_route s"
  shows "wn_spec (wn_demo raced [] []) s = Cease ''no IPv6 default router resolved yet; ceding to ARP bootstrap''"
  using assms by (simp add: wn_spec_def wn_cached_def reg_view_def)

lemma demo_idle_pass:
  assumes "g_ifarg s = [69]" and "files s = (\<lambda>_. None)" and "\<not> g_require_sentinel_route s"
    and "\<not> g_installed s" and "\<not> g_luid_valid s"
  shows "reconcile_win (wn_demo raced [] []) s = Some ((), s\<lparr>g_luid := 7, g_luid_valid := True\<rparr>)"
proof -
  have luid: "wn_luid (wn_demo raced [] []) s = Some 7"
    using assms by (simp add: wn_luid_def wn_demo_def)
  then show ?thesis
    using assms demo_idle_spec [OF luid assms(2,3)]
    by (simp add: reconcile_win_spec [OF wn_demo_quiet] wn_resolved_def withdraw_win_def bnd_def run_simps)
qed

lemma wn_demo_calls:
  "win_create_event (wn_demo raced routes neighbors) k = (True, k)"
  "win_dispatch (wn_demo raced routes neighbors) k = (0, k)"
  "win_register_handler (wn_demo raced routes neighbors) k = (1, k)"
  "win_notify (wn_demo raced routes neighbors) n k = (n + 1, k)"
  "win_widen (wn_demo raced routes neighbors) ''E'' = [69]"
  by (simp_all add: wn_demo_def)

lemma wn_demo_main:
  "\<exists>s. wn_main (wn_demo False [] []) [''-i'', ''5'', ''E''] (wn_init None (\<lambda>_. None)) = Some (Service, s) \<and>
    \<not> g_console s"
proof -
  have five: "atoi ''5'' = Some 5" by code_simp
  have "wp (wn_main (wn_demo False [] []) [''-i'', ''5'', ''E'']) (\<lambda>m s. m = Service \<and> \<not> g_console s)
      (wn_init None (\<lambda>_. None))"
    by (simp add: wn_main_def wp_simps five c_hd_def service_start_def worker_start_def report_def
        wp_def [of "reconcile_win (wn_demo False [] [])"] demo_idle_pass wn_init_def wn_demo_calls)
  then show ?thesis by (auto elim: wpE)
qed

text \<open>The first pass on a machine where ARP interferes.\<close>

lemma demo_first_pass:
  "wp (reconcile_win (wn_demo True [demo_fwd 2 35, demo_fwd 1 25, demo_fwd 3 25]
      [demo_net 1 [2, 0, 0, 0, 0, 1]]))
    (\<lambda>_ t. kern t = Some (fill_sentinel_row 7 (Some [2, 0, 0, 0, 0, 1]))) (wn_demo_state None)"
proof -
  let ?m = "[2, 0, 0, 0, 0, 1] :: mac_addr"
  let ?S = "wn_demo True [demo_fwd 2 35, demo_fwd 1 25, demo_fwd 3 25] [demo_net 1 ?m]"
  let ?row = "fill_sentinel_row 7 (Some ?m)"
  have "wn_router_mac ?S 7 None = Some ?m"
    using demo_best demo_resolved [of 1 ?m]
    by (simp add: wn_router_mac_def wn_demo_def rows_def demo_fwd_def sin_inet6_def demo_net_def)
  then have "wn_spec ?S (wn_demo_state None) = Pin ?m (Some [2, 0, 0, 0, 0, 9])"
    by (simp add: wn_spec_def)
  then have first: "reconcile_win ?S (wn_demo_state None)
      = wn_act ?S (Pin ?m (Some [2, 0, 0, 0, 0, 9])) (wn_demo_state None\<lparr>g_luid := 7, g_luid_valid := True\<rparr>)"
    by (simp add: reconcile_win_spec [OF wn_demo_quiet] wn_resolved_def del: wn_act_simps)
  have calls: "win_create ?S ?row (Some r) = (ERROR_OBJECT_ALREADY_EXISTS, Some r)"
    "win_set ?S ?row (Some r) = (NO_ERROR, Some ?row)"
    "win_delete ?S ?row k = (NO_ERROR, Some (?row\<lparr>n_state := NlnsReachable\<rparr>))" for r k
    by (simp_all add: wn_demo_def)
  have put: "kern u = Some ?row \<Longrightarrow> wp (router_cache_put_win ?S h m) (\<lambda>_ t. kern t = Some ?row) u" for u h m
    by (rule wp_mono [OF reg_put_quiet [OF wn_demo_quiet]]) simp
  have "wp (wn_act ?S (Pin ?m (Some [2, 0, 0, 0, 0, 9]))) (\<lambda>_ t. kern t = Some ?row)
      (wn_demo_state None\<lparr>g_luid := 7, g_luid_valid := True\<rparr>)"
    by (simp add: install_win_def create_or_set_def Let_def wp_simps calls put)
  then show ?thesis by (simp only: first wp_def)
qed

end
