(* ===== verification/Windows_Steady.thy ===== *)
theory Windows_Steady
  imports Windows_Entry
begin

text \<open>
  A second pass of the Windows daemon over the same tables does nothing: the daemon is a
  \<open>steady_keeper\<close>, and a value that is set in the registry again is the value that is there.
\<close>

section \<open>Doing it again\<close>

lemma reg_put_again:
  assumes q: "wn_quiet S"
  shows "wp (router_cache_put_win S h mac) (\<lambda>_ t. kern t = kern s \<and>
    wn_frame s (t\<lparr>files := files s\<rparr>) \<and> g_installed t = g_installed s \<and>
    g_installed_mac t = g_installed_mac s \<and> router_cache_put_win S h mac t = Some ((), t)) s"
  by (auto simp: wn_frame_def router_cache_put_win_def wp_def bnd_def run_simps kcall_quiet wn_quietD [OF q]
      reads_quiet(5) [OF q] wn_cached_def reg_view_def split: option.splits)

lemma install_win_shown:
  assumes "wn_quiet S" and "arrays_ok S" and "nbr_shown S entry (g_luid t) (kern t)"
    and "pinned_mac (entry (kern t)) = Some mac" and "g_installed t" and "g_installed_mac t = mac"
    and "length mac = 6"
  shows "install_win S mac t = Some ((), t)"
proof -
  have "neighbor_present S mac t = Some (True, t)"
    using neighbor_present_quiet [OF assms(1,2,7)] assms(3,4) by (simp add: nbr_shown_def)
  then show ?thesis
    using assms(5-7) by (simp add: install_win_def bnd_def run_simps memcmp_zero)
qed

lemma wn_pin_again:
  assumes ok: "wn_keeps S entry s" and len: "length mac = 6"
  shows "wp (wn_pin S mac host) (\<lambda>_ t. nbr_shown S entry (g_luid t) (kern t) \<longrightarrow>
    wn_pin S mac host t = Some ((), t)) s"
proof -
  have q: "wn_quiet S" and arrays: "arrays_ok S" and law: "nbr_law S entry (g_luid s)"
    and shown: "nbr_shown S entry (g_luid s) (kern s)" and inv: "wn_inv s"
    using ok by (simp_all add: wn_keeps_def)
  let ?put = "case host of None \<Rightarrow> ret () | Some h \<Rightarrow> router_cache_put_win S h mac"
  let ?Q = "\<lambda>t. nbr_shown S entry (g_luid t) (kern t) \<longrightarrow> wn_pin S mac host t = Some ((), t)"
  have "wp ?put (\<lambda>_ t. kern t = kern u \<and> wn_frame u (t\<lparr>files := files u\<rparr>) \<and>
      g_installed t = g_installed u \<and> g_installed_mac t = g_installed_mac u \<and>
      ?put t = Some ((), t)) u" for u
    using reg_put_again [OF q] by (cases host) (simp_all add: wp_simps run_simps wn_frame_def)
  moreover have "?Q t" if "pinned_mac (entry (kern u)) = Some mac" "g_installed u"
    "g_installed_mac u = mac" "kern t = kern u" "g_installed t = g_installed u"
    "g_installed_mac t = g_installed_mac u" "?put t = Some ((), t)" for t u
    using that install_win_shown [OF q arrays, of entry t mac] len
    by (simp add: wn_pin_def bnd_def)
  ultimately have "wp ?put (\<lambda>_. ?Q) u"
    if "pinned_mac (entry (kern u)) = Some mac" "g_installed u" "g_installed_mac u = mac" for u
    using that by (fast elim: wp_mono)
  then show ?thesis
    unfolding wn_pin_def wp_bnd
    by (intro wp_mono [OF install_win_sets [OF q arrays law shown inv len]]) (simp add: wn_pin_def)
qed

text \<open>What a decision leaves alone: the registry too, unless it remembers a router.\<close>

definition wn_left :: "wn_decision \<Rightarrow> 'k wn_state \<Rightarrow> 'k wn_state \<Rightarrow> bool" where
  "wn_left d s t \<longleftrightarrow> wn_frame s (t\<lparr>files := files s\<rparr>) \<and>
     ((\<exists>mac h. d = Pin mac (Some h)) \<or> files t = files s)"

lemma wn_act_left:
  fixes S :: "('k, 'x) wn_sys_scheme"
  shows "wlp (wn_act S d) (\<lambda>_. wn_left d s) s"
proof -
  have install: "wlp (install_win S mac) Q s" if "\<And>t. wn_frame s t \<Longrightarrow> Q () t"
    for mac Q and s :: "'k wn_state"
    unfolding install_win_def create_or_set_def wlp_bnd wlp_gets id_apply Let_def
    by (rule wlp_kern_only [OF kern_only_if [OF kern_only_wn_reads(5) kern_only_ret]])
      (auto simp: wp_simps wn_frame_def intro!: that)
  have put: "wlp (router_cache_put_win S h mac) (\<lambda>_ t. wn_frame s (t\<lparr>files := files s\<rparr>)) u"
    if "wn_frame s u" for h mac and s u :: "'k wn_state"
    using that by (auto simp: wn_frame_def intro!: wp_wlp wp_mono [OF reg_put])
  show ?thesis
  proof (cases d)
    case (Pin mac host)
    then show ?thesis
      by (cases host) (auto simp: wlp_bnd wlp_ret wn_left_def intro!: install wlp_mono [OF put]
          simp: wn_frame_def)
  qed (simp_all add: withdraw_win_def wp_simps Let_def wn_left_def wn_frame_def)
qed

interpretation wn_steady: steady_keeper "modify (\<lambda>s. s\<lparr>g_installed := False\<rparr>)" "withdraw_win S" "wn_pin S"
  "\<lambda>s. pinned_mac (entry (kern s))" g_installed "wn_keeps S entry" "\<lambda>mac host. length mac = 6 \<and> six host"
  "\<lambda>_. Some" None "\<lambda>t. nbr_shown S entry (g_luid t) (kern t)" wn_left
  for S :: "('k, 'x) wn_sys_scheme" and entry
proof
  fix s t :: "'k wn_state" and d reason mac host
  show "wlp (carry_out (modify (\<lambda>s. s\<lparr>g_installed := False\<rparr>)) (withdraw_win S) (wn_pin S) d)
      (\<lambda>_. wn_left d s) s"
    using wn_act_left by (simp only: wn_act_def)
  show "modify (\<lambda>s. s\<lparr>g_installed := False\<rparr>) t = Some ((), t)" if "\<not> g_installed t"
    using that by (simp add: run_simps)
  show "withdraw_win S reason t = Some ((), t)" if "\<not> g_installed t"
    using that by (simp add: withdraw_win_def bnd_def run_simps)
  show "wp (wn_pin S mac host) (\<lambda>_ t. nbr_shown S entry (g_luid t) (kern t) \<longrightarrow>
      wn_pin S mac host t = Some ((), t)) s"
    if "wn_keeps S entry s" and "length mac = 6 \<and> six host"
    using that(2) by (intro wn_pin_again [OF that(1)]) simp_all
qed

section \<open>A second pass\<close>

text \<open>What a decision reads of the world has not changed.\<close>

definition same_tables :: "('k, 'x) wn_sys_scheme \<Rightarrow> u64 \<Rightarrow> 'k \<Rightarrow> 'k \<Rightarrow> bool" where
  "same_tables S luid k k' \<longleftrightarrow> fst (win_luid_to_index S luid k') = fst (win_luid_to_index S luid k) \<and>
     fst (win_if_entry S luid k') = fst (win_if_entry S luid k) \<and>
     (\<forall>f. fst (win_fwd_table S f k') = fst (win_fwd_table S f k)) \<and>
     fst (win_net_table S WIN_AF_INET6 k') = fst (win_net_table S WIN_AF_INET6 k) \<and>
     (\<forall>n. fst (win_reg_get S n k') = fst (win_reg_get S n k))"

lemma wn_spec_again:
  assumes luid: "wn_luid S s = Some luid" and left: "wn_left (wn_spec S s) (wn_resolved S s) t"
    and tables: "same_tables S luid (kern s) (kern t)"
  shows "wn_spec S t = wn_spec S s" and "wn_resolved S t = t"
proof -
  have r: "wn_resolved S s = s\<lparr>g_luid := luid, g_luid_valid := True\<rparr>"
    using luid by (simp add: wn_resolved_def)
  have valid: "g_luid_valid t" and t: "g_luid t = luid"
    and req: "g_require_sentinel_route t = g_require_sentinel_route s"
    using left by (simp_all add: r wn_left_def wn_frame_def)
  then have luid': "wn_luid S t = Some luid" by (simp add: wn_luid_def)
  show "wn_resolved S t = t"
    using valid t by (simp add: wn_resolved_def luid')
  have host: "wn_host_mac S luid (kern t) = wn_host_mac S luid (kern s)"
    and router: "wn_router_mac S luid (kern t) = wn_router_mac S luid (kern s)"
    using tables by (simp_all add: same_tables_def wn_host_mac_def wn_router_mac_def
        cong: option.case_cong)
  show "wn_spec S t = wn_spec S s"
  proof (cases "files t = files s")
    case True
    then have "wn_cached S t = wn_cached S s"
      using tables by (simp add: fun_eq_iff wn_cached_def reg_view_def same_tables_def)
    then show ?thesis
      using tables by (simp add: wn_spec_def luid luid' host router req same_tables_def cong: option.case_cong)
  next
    case False
    then obtain mac h where "wn_spec S s = Pin mac (Some h)"
      using left by (auto simp: wn_left_def r)
    then show ?thesis
      using tables
      by (auto simp: wn_spec_def luid luid' host router req same_tables_def cong: option.case_cong split: if_splits option.splits)
  qed
qed

lemma reconcile_win_again:
  assumes q: "wn_quiet S" and arrays: "arrays_ok S" and luid: "wn_luid S s = Some luid"
    and law: "nbr_law S entry luid" and shown: "nbr_shown S entry luid (kern s)" and inv: "wn_inv s"
  shows "wp (reconcile_win S) (\<lambda>_ t. same_tables S luid (kern s) (kern t) \<and>
    nbr_shown S entry luid (kern t) \<longrightarrow> reconcile_win S t = Some ((), t)) s"
proof -
  let ?d = "wn_spec S s" and ?s = "wn_resolved S s"
  have "wn_keeps S entry ?s"
    using assms by (rule wn_keeps_resolved)
  moreover have "fit_decision (\<lambda>mac host. length mac = 6 \<and> six host) ?d"
    using wn_spec_ok [OF q arrays, of s] by (simp add: wn_decision_ok_def fit_decision_def)
  ultimately have "wp (wn_act S ?d) (\<lambda>_ t. wn_left ?d ?s t \<and>
      (nbr_shown S entry (g_luid t) (kern t) \<longrightarrow> wn_act S ?d t = Some ((), t))) ?s"
    unfolding wn_act_def by (rule wn_steady.carry_again)
  then have "wp (wn_act S ?d) (\<lambda>_ t. same_tables S luid (kern s) (kern t) \<and>
      nbr_shown S entry luid (kern t) \<longrightarrow> reconcile_win S t = Some ((), t)) ?s"
  proof (rule wp_mono, intro impI, elim conjE)
    fix t
    assume left: "wn_left ?d ?s t" and tables: "same_tables S luid (kern s) (kern t)"
      and t: "nbr_shown S entry luid (kern t)"
      and again: "nbr_shown S entry (g_luid t) (kern t) \<longrightarrow> wn_act S ?d t = Some ((), t)"
    have "g_luid t = luid"
      using left luid by (simp add: wn_left_def wn_frame_def wn_resolved_def)
    moreover have "reconcile_win S t = wn_act S ?d t"
      by (simp only: reconcile_win_spec [OF q] wn_spec_again [OF luid left tables])
    ultimately show "reconcile_win S t = Some ((), t)"
      using again t by simp
  qed
  then show ?thesis by (simp only: reconcile_win_spec [OF q] wp_def)
qed

end
