(* ===== verification/Windows_Properties.thy ===== *)
theory Windows_Properties
  imports Windows_Demo Windows_Steady
begin

text \<open>The properties of the Windows daemon, each with a witness on a concrete machine.\<close>

section \<open>A pass\<close>

text \<open>
  C15: Against a neighbor table that does as documented, one pass of \<open>reconcile\<close> leaves the
  permanent entry of 192.0.0.11 as the tables call for: on the router resolved by Neighbor
  Discovery, else on the one remembered for this network, else none of the daemon's. That holds
  even when the address is resolved by ARP between the deletion and the creation.
\<close>
theorem wn_reconcile_entry:
  assumes "wn_quiet S" and "arrays_ok S" and "wn_luid S s = Some luid"
    and "nbr_law S entry luid" and "nbr_shown S entry luid (kern s)" and "wn_inv s"
  shows "wp (reconcile_win S) (\<lambda>_ t. pinned_mac (entry (kern t)) =
    entry_after Some None (wn_spec S s) (g_installed s) (pinned_mac (entry (kern s)))) s"
  using assms by (rule reconcile_win_sets)

theorem wn_reconcile_entry_witness:
  "wp (reconcile_win (wn_demo True [demo_fwd 2 35, demo_fwd 1 25, demo_fwd 3 25]
      [demo_net 1 [2, 0, 0, 0, 0, 1]]))
    (\<lambda>_ t. pinned_mac (kern t) = Some [2, 0, 0, 0, 0, 1]) (wn_demo_state None)"
proof -
  let ?S = "wn_demo True [demo_fwd 2 35, demo_fwd 1 25, demo_fwd 3 25] [demo_net 1 [2, 0, 0, 0, 0, 1]]"
  have "wn_router_mac ?S 7 None = Some [2, 0, 0, 0, 0, 1]"
    using demo_best demo_resolved [of 1 "[2, 0, 0, 0, 0, 1]"]
    by (simp add: wn_router_mac_def wn_demo_def rows_def demo_fwd_def sin_inet6_def demo_net_def)
  then have "wn_spec ?S (wn_demo_state None) = Pin [2, 0, 0, 0, 0, 1] (Some [2, 0, 0, 0, 0, 9])"
    by (simp add: wn_spec_def)
  moreover have "nbr_shown ?S id 7 None"
    by (simp add: nbr_shown_def wn_demo_def rows_def WIN_AF_INET_def WIN_AF_INET6_def)
  moreover have "arrays_ok ?S"
    by (rule wn_demo_arrays) (simp add: demo_net_def)
  ultimately show ?thesis
    using wn_reconcile_entry [OF wn_demo_quiet _ wn_demo_luid wn_demo_law _ wn_demo_inv, of True
        "[demo_fwd 2 35, demo_fwd 1 25, demo_fwd 3 25]" "[demo_net 1 [2, 0, 0, 0, 0, 1]]" None]
    by simp
qed

text \<open>
  C16: What a pass of \<open>reconcile\<close> does, exactly, over tables that stand still while it looks: it
  records the interface it resolved and carries out the decision \<open>wn_spec\<close> reads off the tables
  and the map.
\<close>
theorem wn_reconcile_decision:
  assumes "wn_quiet S"
  shows "reconcile_win S s = wn_act S (wn_spec S s) (wn_resolved S s)"
  using assms by (rule reconcile_win_spec)

theorem wn_reconcile_decision_witness:
  "reconcile_win (wn_demo False [] []) (wn_demo_state None)
    = Some ((), wn_demo_state None\<lparr>g_luid := 7, g_luid_valid := True\<rparr>)"
proof -
  have "wn_spec (wn_demo False [] []) (wn_demo_state None)
      = Cease ''no IPv6 default router resolved yet; ceding to ARP bootstrap''"
    by (intro demo_idle_spec) (simp_all add: fun_eq_iff)
  then show ?thesis
    using wn_reconcile_decision [OF wn_demo_quiet, of False "[]" "[]" "wn_demo_state None"]
    by (simp add: withdraw_win_def bnd_def run_simps wn_resolved_def)
qed

text \<open>
  C17: Reconciliation is idempotent: after a pass against a documented neighbor table, a second
  pass over the same tables, which now show the entry, deletes, creates and sets nothing and
  leaves the whole state as it is.
\<close>
theorem wn_reconcile_idempotent:
  assumes "wn_quiet S" and "arrays_ok S" and "wn_luid S s = Some luid"
    and "nbr_law S entry luid" and "nbr_shown S entry luid (kern s)" and "wn_inv s"
  shows "wp (reconcile_win S) (\<lambda>_ t. same_tables S luid (kern s) (kern t) \<and>
    nbr_shown S entry luid (kern t) \<longrightarrow> reconcile_win S t = Some ((), t)) s"
  using assms by (rule reconcile_win_again)

theorem wn_reconcile_idempotent_witness:
  "wp (reconcile_win (wn_demo True [demo_fwd 2 35, demo_fwd 1 25, demo_fwd 3 25]
      [demo_net 1 [2, 0, 0, 0, 0, 1]]))
    (\<lambda>_ t. kern t = Some (fill_sentinel_row 7 (Some [2, 0, 0, 0, 0, 1])) \<and>
      reconcile_win (wn_demo True [demo_fwd 2 35, demo_fwd 1 25, demo_fwd 3 25]
        [demo_net 1 [2, 0, 0, 0, 0, 1]]) t = Some ((), t)) (wn_demo_state None)"
proof -
  let ?m = "[2, 0, 0, 0, 0, 1] :: mac_addr"
  let ?S = "wn_demo True [demo_fwd 2 35, demo_fwd 1 25, demo_fwd 3 25] [demo_net 1 ?m]"
  let ?row = "fill_sentinel_row 7 (Some ?m)"
  have tables: "same_tables ?S 7 k k'" for k k'
    by (simp add: same_tables_def wn_demo_def WIN_AF_INET_def WIN_AF_INET6_def)
  have shown: "nbr_shown ?S id 7 k" if "k \<in> {None, Some ?row}" for k
    using that sentinel_row_fill [of 7 "Some ?m"]
    by (auto simp: nbr_shown_def wn_demo_def rows_def WIN_AF_INET_def WIN_AF_INET6_def
        fill_sentinel_row_def Let_def)
  have "wp (reconcile_win ?S) (\<lambda>_ t. kern t = Some ?row) (wn_demo_state None)"
    by (rule demo_first_pass)
  moreover have "wp (reconcile_win ?S) (\<lambda>_ t. same_tables ?S 7 None (kern t) \<and>
      nbr_shown ?S id 7 (kern t) \<longrightarrow> reconcile_win ?S t = Some ((), t)) (wn_demo_state None)"
    using wn_reconcile_idempotent [OF wn_demo_quiet wn_demo_arrays wn_demo_luid wn_demo_law _ wn_demo_inv, of
        "[demo_net 1 ?m]" True "[demo_fwd 2 35, demo_fwd 1 25, demo_fwd 3 25]" None] shown
    by (simp add: demo_net_def)
  ultimately show ?thesis
    using tables shown by (auto simp: wp_def split: option.splits)
qed

text \<open>
  C18: The scan of \<open>find_default_router\<close> is a stable sort: its result is the next hop of the
  first route after sorting the IPv6 default routes of the interface by their metric. So it is a
  default route of the interface that no other one undercuts.
\<close>
theorem wn_find_default_router:
  assumes "quiet (win_fwd_table S WIN_AF_INET6)" and "fst (win_fwd_table S WIN_AF_INET6 (kern s)) = Some rs"
  shows "find_default_router_win S s = Some
     (case sort_key f_metric (filter (default6 (g_luid s)) rs) of
        [] \<Rightarrow> None
      | r # _ \<Rightarrow> Some (si_v6 (f_nexthop r)), s)"
  using assms
  by (auto simp: find_default_router_win_def bnd_def run_simps kcall_quiet router_fold best_route_def
      router_of_def split: list.split)

theorem wn_find_default_router_witness:
  "find_default_router_win (wn_demo False [demo_fwd 2 35, demo_fwd 1 25, demo_fwd 3 25] [])
      (wn_demo_state None\<lparr>g_luid := 7\<rparr>)
    = Some (Some (demo_gw 1), wn_demo_state None\<lparr>g_luid := 7\<rparr>)"
  using wn_find_default_router [of "wn_demo False [demo_fwd 2 35, demo_fwd 1 25, demo_fwd 3 25] []"
      "wn_demo_state None\<lparr>g_luid := 7\<rparr>" "[demo_fwd 2 35, demo_fwd 1 25, demo_fwd 3 25]"]
  by (simp add: quiet_def wn_demo_def) (simp add: default6_def demo_fwd_def sin_inet6_def)

text \<open>
  \<open>neighbor_present\<close> answers whether the first IPv4 neighbor entry of 192.0.0.11 on the
  interface is permanent and holds exactly this MAC; an entry that ARP made, or one of another
  interface, counts as absent.
\<close>
theorem wn_neighbor_present:
  assumes "wn_quiet S" and "arrays_ok S" and "length mac = 6"
  shows "neighbor_present S mac s = Some (pinned_mac (find (sentinel_row (g_luid s))
    (rows (fst (win_net_table S WIN_AF_INET (kern s))))) = Some mac, s)"
  using assms by (rule neighbor_present_quiet)

theorem wn_neighbor_present_witness:
  "neighbor_present (wn_demo False [] []) [2, 0, 0, 0, 0, 1]
      (wn_demo_state (Some (fill_sentinel_row 7 (Some [2, 0, 0, 0, 0, 1])\<lparr>n_state := NlnsReachable\<rparr>))\<lparr>g_luid := 7\<rparr>)
    = Some (False, wn_demo_state (Some (fill_sentinel_row 7 (Some [2, 0, 0, 0, 0, 1])
        \<lparr>n_state := NlnsReachable\<rparr>))\<lparr>g_luid := 7\<rparr>)"
proof -
  let ?r = "fill_sentinel_row 7 (Some [2, 0, 0, 0, 0, 1])\<lparr>n_state := NlnsReachable\<rparr>"
  have "pinned_mac (find (sentinel_row 7) (rows (fst (win_net_table (wn_demo False [] []) WIN_AF_INET (Some ?r))))) = None"
    by (simp add: wn_demo_def rows_def WIN_AF_INET_def WIN_AF_INET6_def pinned_mac_def)
  then show ?thesis
    using wn_neighbor_present [OF wn_demo_quiet wn_demo_arrays, of "[]" "[2, 0, 0, 0, 0, 1]" False "[]"
        "wn_demo_state (Some ?r)\<lparr>g_luid := 7\<rparr>"]
    by simp
qed

text \<open>
  The registry map only ever holds what was put into it: if every entry, and the pair that
  is put now, is in a relation \<open>G\<close>, for example of routers resolved on that network, then so is
  every answer of a later lookup, whether or not the registry calls succeed.
\<close>
theorem wn_cache_trusted:
  assumes "\<forall>h r. length h = 6 \<longrightarrow> reg_view s h = Some r \<longrightarrow> G h r"
    and "length host = 6" and "length router = 6" and "G host router" and "length h = 6"
  shows "wp (bnd (router_cache_put_win S host router) (\<lambda>_. router_cache_lookup_win S h))
    (\<lambda>r _. \<forall>m. r = Some m \<longrightarrow> G h m) s"
proof -
  have "wp (router_cache_put_win S host router) (\<lambda>_. reg_cache.all_good G) s"
    by (rule reg_cache.put_good) (use assms in \<open>simp_all add: reg_cache.all_good_def\<close>)
  then show ?thesis
    unfolding wp_bnd
    by (rule wp_mono) (rule wp_mono [OF reg_cache.look_good [OF _ assms(5)]], blast+)
qed

theorem wn_cache_trusted_witness:
  "wp (bnd (router_cache_put_win (wn_demo False [] []) [2, 0, 0, 0, 0, 9] [2, 0, 0, 0, 0, 1])
      (\<lambda>_. router_cache_lookup_win (wn_demo False [] []) [2, 0, 0, 0, 0, 9]))
    (\<lambda>r _. \<forall>m. r = Some m \<longrightarrow> m = [2, 0, 0, 0, 0, 1]) (wn_demo_state None)"
  by (rule wn_cache_trusted [where G = "\<lambda>h m. m = [2, 0, 0, 0, 0, 1]"]) (simp_all add: reg_view_def)

text \<open>
  Everything \<open>install\<close> can do, whatever the calls return: it does nothing, when the same MAC
  is installed and present; or it deletes, creates, and sets only after the one error that says
  the entry exists, and then either records the new MAC and logs it or, after any other error,
  logs the failure and keeps its flag and MAC, although the old entry was deleted.
\<close>
theorem wn_install_effect:
  "wlp (install_win S mac) (\<lambda>_ t.
    (\<exists>k. t = s\<lparr>kern := k\<rparr> \<and> g_installed s \<and> memcmp (g_installed_mac s) mac = 0) \<or>
    (\<exists>k d es e. let row = fill_sentinel_row (g_luid s) (Some mac) in install_calls row e es \<and>
      (if e = NO_ERROR
       then t = s\<lparr>kern := k, out := out s @ [Ev_delete row d] @ es @ [Log_pinned (mac_str mac)],
         g_installed := True, g_installed_mac := mac\<rparr>
       else t = s\<lparr>kern := k, out := out s @ [Ev_delete row d] @ es @ [Log_create_failed (mac_str mac) e]\<rparr>))) s"
proof -
  have "wlp (install_win S mac) (\<lambda>_. install_effect s mac) s" by (rule install_win_effect)
  then show ?thesis by (rule wlp_mono) (simp only: install_effect_def)
qed

section \<open>The life of the daemon\<close>



text \<open>
  In every phase of the daemon's life, the statuses that the service has reported for
  pending states carry the check points 1, 2, 3 and so on, those of SERVICE_RUNNING and
  SERVICE_STOPPED carry 0, and only SERVICE_START_PENDING refuses controls.
\<close>
theorem wn_checkpoints:
  assumes "arrays_ok S" and "wn_main S args (wn_init k reg) = Some (mode, s)"
    and "mode = Foreground \<and> stop = wn_stop S \<or> mode = Service \<and> stop = service_stop S"
    and "loop_reaches wn_running (wn_env S) (wn_iter S) stop s p" and "p = Running t \<or> p = Stopped t"
  shows "checkpoints_law (statuses (out t)) (g_checkpoint t)"
proof -
  have good: "wn_good S s"
    using wlpD [OF wn_main_wlp [OF assms(1)] assms(2)] assms(1,3)
    by (auto simp: wn_outcome_def wn_good_def)
  have "phase_ok (wn_good S) g_installed p"
    using assms(3,4) wn_foreground.reach_ok [OF _ good] wn_service.reach_ok [OF _ good] by auto
  then show ?thesis
    using assms(5) by (auto simp: wn_good_def wn_inv_def checkpoints_ok_def)
qed

theorem wn_checkpoints_witness:
  "\<exists>s. wn_main (wn_demo False [] []) [''-i'', ''5'', ''E''] (wn_init None (\<lambda>_. None)) = Some (Service, s) \<and>
    checkpoints_law (statuses (out s)) (g_checkpoint s)"
proof -
  obtain s where main: "wn_main (wn_demo False [] []) [''-i'', ''5'', ''E''] (wn_init None (\<lambda>_. None))
      = Some (Service, s)"
    using wn_demo_main by blast
  have arrays: "arrays_ok (wn_demo False [] [])" by (rule wn_demo_arrays) simp
  show ?thesis
    using main wn_checkpoints [OF arrays main, of "service_stop (wn_demo False [] [])" "Running s" s]
    by (simp add: loop_reaches_refl)
qed

end
