(* ===== verification/Powershell_Daemon.thy ===== *)
theory Powershell_Daemon
  imports Daemon_Loop
begin

text \<open>
  The daemon for Windows in PowerShell (\<^verbatim>\<open>host/windows/v4gwd.ps1\<close>). Like the one in C it keeps a
  permanent neighbor entry of 192.0.0.11 on the MAC address of the IPv6 router and a map of routers
  in the registry, but it has no memory of its own: it looks for its entry in the neighbor table.

  A cmdlet is a parameter. What it prints is a list of objects, and one whose errors the script
  silences prints fewer. A terminating error, of a cmdlet that is not silenced or of a conversion,
  is the result \<open>Thrown\<close>, which ends the pass; the script then runs its \<open>finally\<close> block. (Started
  with \<^verbatim>\<open>-File\<close>, as its usage says, it sets \<open>ErrorActionPreference\<close> in the global scope, where the
  cmdlets of a module see it.) Texts are ASCII; comparison with \<open>-eq\<close> ignores case. The values under
  the registry key are the \<open>files\<close>, named by the MAC address as an adapter prints it. Ctrl-C comes
  between two passes.
\<close>

section \<open>Terminating errors\<close>

datatype 'a ps_result = Value 'a | Thrown

definition ps_then :: "('s, 'a ps_result) prog \<Rightarrow> ('a \<Rightarrow> ('s, 'b ps_result) prog) \<Rightarrow> ('s, 'b ps_result) prog" where
  "ps_then m f = bnd m (\<lambda>r. case r of Thrown \<Rightarrow> ret Thrown | Value x \<Rightarrow> f x)"

text \<open>A cmdlet that succeeds or throws.\<close>

definition ps_must :: "('k \<Rightarrow> bool \<times> 'k) \<Rightarrow> (('k, 'e, 'z) os_state_scheme, unit ps_result) prog" where
  "ps_must f = bnd (kcall f) (\<lambda>ok. ret (if ok then Value () else Thrown))"

definition ps_do :: "('s, 'a) prog \<Rightarrow> ('s, 'a ps_result) prog" where
  "ps_do m = bnd m (\<lambda>x. ret (Value x))"

definition ps_eq :: "string \<Rightarrow> string \<Rightarrow> bool" where
  "ps_eq a b \<longleftrightarrow> map lower_char a = map lower_char b"

section \<open>Data\<close>

record ps_adapter =
  pa_index :: int
  pa_mac :: string

record ps_route =
  pr_nexthop :: string
  pr_metric :: int

record ps_neigh =
  pn_index :: int
  pn_lla :: string
  pn_permanent :: bool    \<comment> \<open>whether \<open>State\<close> is \<open>Permanent\<close>\<close>

text \<open>The parameters of the script.\<close>

record ps_args =
  arg_interface :: string
  arg_interval :: u32
  arg_require :: bool

datatype ps_event =
    Ps_remove int
  | Ps_new int string bool
  | Ps_log_pinned string
  | Ps_log_withdrew string
  | Ps_log_not_elevated
  | Ps_log_starting
  | Ps_log_stopped
  | Ps_rep_none
  | Ps_rep_header "int list"
  | Ps_rep_fib bool
  | Ps_rep_no_router
  | Ps_rep_router string
  | Ps_rep_unresolved
  | Ps_rep_mac string
  | Ps_rep_would string

record 'k ps_state = "('k, ps_event) os_state" +
  ps_running :: bool

record 'k ps_sys =
  ps_adapter_index :: "int \<Rightarrow> 'k \<Rightarrow> ps_adapter list \<times> 'k"
  ps_adapter_name :: "string \<Rightarrow> 'k \<Rightarrow> ps_adapter list \<times> 'k"
    \<comment> \<open>a name may be a pattern that several adapters match\<close>
  ps_routes6 :: "int \<Rightarrow> 'k \<Rightarrow> ps_route list \<times> 'k"
  ps_routes4 :: "int \<Rightarrow> 'k \<Rightarrow> ps_route list \<times> 'k"
  ps_neigh6 :: "int \<Rightarrow> string \<Rightarrow> 'k \<Rightarrow> ps_neigh list \<times> 'k"
  ps_neigh4 :: "int \<Rightarrow> 'k \<Rightarrow> ps_neigh list \<times> 'k"
  ps_neigh4_all :: "'k \<Rightarrow> ps_neigh list \<times> 'k"
  ps_sort :: "ps_route list \<Rightarrow> ps_route list"    \<comment> \<open>\<open>Sort-Object RouteMetric\<close>\<close>
  ps_remove :: "int \<Rightarrow> 'k \<Rightarrow> unit \<times> 'k"
  ps_new :: "int \<Rightarrow> string \<Rightarrow> 'k \<Rightarrow> bool \<times> 'k"
  ps_reg_get :: "string \<Rightarrow> 'k \<Rightarrow> bool \<times> 'k"
  ps_reg_path :: "'k \<Rightarrow> bool \<times> 'k"
  ps_reg_create :: "'k \<Rightarrow> bool \<times> 'k"
  ps_reg_set :: "string \<Rightarrow> string \<Rightarrow> 'k \<Rightarrow> bool \<times> 'k"
  ps_is_admin :: "'k \<Rightarrow> bool \<times> 'k"
  ps_sleep :: "u32 \<Rightarrow> 'k \<Rightarrow> bool \<times> 'k"

definition Sentinel :: string where "Sentinel = ''192.0.0.11''"

section \<open>What it reads\<close>

text \<open>
  \<open>-match '^\d+$'\<close>, where \<open>$\<close> also stands before a line feed at the end, and \<open>[int]\<close>, which throws
  beyond 31 bits.
\<close>

definition int_text :: "string \<Rightarrow> string option" where
  "int_text s =
     (let ds = (if s \<noteq> [] \<and> last s = newline then butlast s else s) in
      if ds \<noteq> [] \<and> list_all is_digit ds then Some ds else None)"

text \<open>The result is what the script returns: nothing, an index, or an array of them.\<close>

definition get_managed_ifindex :: "('k, 'x) ps_sys_scheme \<Rightarrow> ps_args \<Rightarrow> ('k ps_state, int list ps_result) prog" where
  "get_managed_ifindex S A =
     (case int_text (arg_interface A) of
        Some ds \<Rightarrow>
          if dec_val ds > 2147483647 then ret Thrown
          else
            let idx = int (dec_val ds) in
            bnd (kcall (ps_adapter_index S idx)) (\<lambda>a.
            ret (Value (if a \<noteq> [] then [idx] else [])))
      | None \<Rightarrow>
          bnd (kcall (ps_adapter_name S (arg_interface A))) (\<lambda>a.
          ret (Value (map pa_index a))))"

text \<open>\<open>-not $ifx\<close>\<close>

definition no_index :: "int list \<Rightarrow> bool" where
  "no_index ifx \<longleftrightarrow> ifx = [] \<or> ifx = [0]"

text \<open>The conversion of \<open>$ifx\<close> to a parameter of type \<open>[int]\<close>.\<close>

definition as_int :: "int list \<Rightarrow> int ps_result" where
  "as_int ifx = (case ifx of [i] \<Rightarrow> Value i | _ \<Rightarrow> Thrown)"

definition get_default_router :: "('k, 'x) ps_sys_scheme \<Rightarrow> int \<Rightarrow> ('k ps_state, string option) prog" where
  "get_default_router S i =
     bnd (kcall (ps_routes6 S i)) (\<lambda>rs.
     ret (case ps_sort S rs of [] \<Rightarrow> None | r # _ \<Rightarrow> Some (pr_nexthop r)))"

definition get_router_mac :: "('k, 'x) ps_sys_scheme \<Rightarrow> int \<Rightarrow> string \<Rightarrow> ('k ps_state, string option) prog" where
  "get_router_mac S i ll =
     bnd (kcall (ps_neigh6 S i ll)) (\<lambda>ns.
     ret (map_option pn_lla (find (\<lambda>n. pn_lla n \<noteq> [] \<and> \<not> ps_eq (pn_lla n) ''00-00-00-00-00-00'') ns)))"

text \<open>An index names at most one adapter.\<close>

definition get_interface_mac :: "('k, 'x) ps_sys_scheme \<Rightarrow> int \<Rightarrow> ('k ps_state, string option) prog" where
  "get_interface_mac S i =
     bnd (kcall (ps_adapter_index S i)) (\<lambda>a.
     ret (case a of [] \<Rightarrow> None | x # _ \<Rightarrow> if pa_mac x \<noteq> [] then Some (pa_mac x) else None))"

definition get_cached_router_mac :: "('k, 'x) ps_sys_scheme \<Rightarrow> string \<Rightarrow> ('k ps_state, string option) prog" where
  "get_cached_router_mac S host_mac =
     bnd (kcall (ps_reg_get S host_mac)) (\<lambda>ok.
     bnd (gets files) (\<lambda>fs.
     ret (if ok then fs host_mac else None)))"

definition test_sentinel_route :: "('k, 'x) ps_sys_scheme \<Rightarrow> int \<Rightarrow> ('k ps_state, bool) prog" where
  "test_sentinel_route S i =
     bnd (kcall (ps_routes4 S i)) (\<lambda>rs.
     ret (list_ex (\<lambda>r. ps_eq (pr_nexthop r) Sentinel) rs))"

text \<open>A text as a condition: \<open>$null\<close> and the empty text count as false.\<close>

definition truthy :: "string option \<Rightarrow> string option" where
  "truthy v = (case v of Some [] \<Rightarrow> None | _ \<Rightarrow> v)"

section \<open>What it changes\<close>

definition set_cached_router_mac :: "('k, 'x) ps_sys_scheme \<Rightarrow> string \<Rightarrow> string \<Rightarrow> ('k ps_state, unit ps_result) prog" where
  "set_cached_router_mac S host_mac router_mac =
     bnd (get_cached_router_mac S host_mac) (\<lambda>c.
     if (case c of None \<Rightarrow> False | Some m \<Rightarrow> ps_eq m router_mac) then ret (Value ())
     else
       bnd (kcall (ps_reg_path S)) (\<lambda>there.
       ps_then (if there then ret (Value ()) else ps_must (ps_reg_create S)) (\<lambda>_.
       ps_then (ps_must (ps_reg_set S host_mac router_mac)) (\<lambda>_.
       ps_do (put_file host_mac (Some router_mac))))))"

definition get_sentinel_neighbor :: "('k, 'x) ps_sys_scheme \<Rightarrow> ('k ps_state, ps_neigh option) prog" where
  "get_sentinel_neighbor S = bnd (kcall (ps_neigh4_all S)) (\<lambda>ns. ret (find pn_permanent ns))"

definition remove_neighbor :: "('k, 'x) ps_sys_scheme \<Rightarrow> int \<Rightarrow> ('k ps_state, unit) prog" where
  "remove_neighbor S i = bnd (kcall (ps_remove S i)) (\<lambda>_. emit (Ps_remove i))"

definition set_sentinel_neighbor :: "('k, 'x) ps_sys_scheme \<Rightarrow> int \<Rightarrow> string \<Rightarrow> ('k ps_state, unit ps_result) prog" where
  "set_sentinel_neighbor S i mac =
     bnd (kcall (ps_neigh4 S i)) (\<lambda>ns.
     let cur = (case ns of [] \<Rightarrow> None | n # _ \<Rightarrow> Some n) in
     if (case cur of None \<Rightarrow> False | Some n \<Rightarrow> pn_permanent n \<and> ps_eq (pn_lla n) mac) then ret (Value ())
     else
       bnd (if cur \<noteq> None then remove_neighbor S i else ret ()) (\<lambda>_.
       bnd (kcall (ps_new S i mac)) (\<lambda>ok.
       bnd (emit (Ps_new i mac ok)) (\<lambda>_.
       if \<not> ok then ret Thrown
       else ps_do (emit (Ps_log_pinned mac))))))"

definition remove_sentinel_neighbor :: "('k, 'x) ps_sys_scheme \<Rightarrow> string \<Rightarrow> ('k ps_state, unit) prog" where
  "remove_sentinel_neighbor S reason =
     bnd (get_sentinel_neighbor S) (\<lambda>cur.
     case cur of
       None \<Rightarrow> ret ()
     | Some n \<Rightarrow>
         bnd (remove_neighbor S (pn_index n)) (\<lambda>_.
         emit (Ps_log_withdrew reason)))"

section \<open>Reconciliation\<close>

text \<open>What \<open>Invoke-Reconcile\<close> does once it has a single index.\<close>

definition reconcile_index :: "('k, 'x) ps_sys_scheme \<Rightarrow> ps_args \<Rightarrow> int \<Rightarrow> ('k ps_state, unit ps_result) prog" where
  "reconcile_index S A i =
     bnd (if arg_require A then test_sentinel_route S i else ret True) (\<lambda>ok.
     if \<not> ok then ps_do (remove_sentinel_neighbor S ''sentinel 192.0.0.11 route removed; ceasing per draft s4'')
     else
       bnd (get_interface_mac S i) (\<lambda>host_mac.
       bnd (get_default_router S i) (\<lambda>ll.
       bnd (case truthy ll of None \<Rightarrow> ret None | Some a \<Rightarrow> get_router_mac S i a) (\<lambda>mac.
       case truthy mac of
         Some m \<Rightarrow>
           ps_then (set_sentinel_neighbor S i m) (\<lambda>_.
           case host_mac of None \<Rightarrow> ret (Value ()) | Some h \<Rightarrow> set_cached_router_mac S h m)
       | None \<Rightarrow>
           bnd (case host_mac of None \<Rightarrow> ret None | Some h \<Rightarrow> get_cached_router_mac S h) (\<lambda>c.
           case truthy c of
             Some cached \<Rightarrow> set_sentinel_neighbor S i cached
           | None \<Rightarrow> ps_do (remove_sentinel_neighbor S
               ''no IPv6 default router resolved yet; ceding to ARP bootstrap''))))))"

definition invoke_reconcile :: "('k, 'x) ps_sys_scheme \<Rightarrow> ps_args \<Rightarrow> ('k ps_state, unit ps_result) prog" where
  "invoke_reconcile S A =
     ps_then (get_managed_ifindex S A) (\<lambda>ifx.
     if no_index ifx then ret (Value ())
     else case as_int ifx of Thrown \<Rightarrow> ret Thrown | Value i \<Rightarrow> reconcile_index S A i)"

text \<open>The report of \<open>-DryRun\<close> and its exit status.\<close>

definition invoke_dry_run :: "('k, 'x) ps_sys_scheme \<Rightarrow> ps_args \<Rightarrow> ('k ps_state, int ps_result) prog" where
  "invoke_dry_run S A =
     ps_then (get_managed_ifindex S A) (\<lambda>ifx.
     if no_index ifx then ps_do (bnd (emit Ps_rep_none) (\<lambda>_. ret 1))
     else
       bnd (emit (Ps_rep_header ifx)) (\<lambda>_.
       case as_int ifx of
         Thrown \<Rightarrow> ret Thrown
       | Value i \<Rightarrow>
           bnd (if arg_require A then bnd (test_sentinel_route S i) (\<lambda>ok. emit (Ps_rep_fib ok)) else ret ()) (\<lambda>_.
           bnd (get_default_router S i) (\<lambda>ll.
           case truthy ll of
             None \<Rightarrow> ps_do (bnd (emit Ps_rep_no_router) (\<lambda>_. ret 0))
           | Some a \<Rightarrow>
               bnd (emit (Ps_rep_router a)) (\<lambda>_.
               bnd (get_router_mac S i a) (\<lambda>mac.
               case truthy mac of
                 None \<Rightarrow> ps_do (bnd (emit Ps_rep_unresolved) (\<lambda>_. ret 0))
               | Some m \<Rightarrow>
                   ps_do (bnd (emit (Ps_rep_mac m)) (\<lambda>_. bnd (emit (Ps_rep_would m)) (\<lambda>_. ret 0)))))))))"

section \<open>The loop\<close>

text \<open>A terminating error leaves the \<open>try\<close> block for good.\<close>

definition ps_block :: "('k ps_state, unit ps_result) prog \<Rightarrow> ('k ps_state, unit) prog" where
  "ps_block m =
     bnd m (\<lambda>r. case r of Value _ \<Rightarrow> ret () | Thrown \<Rightarrow> modify (\<lambda>s. s\<lparr>ps_running := False\<rparr>))"

definition ps_main :: "('k, 'x) ps_sys_scheme \<Rightarrow> ps_args \<Rightarrow> ('k ps_state, unit) prog" where
  "ps_main S A =
     bnd (kcall (ps_is_admin S)) (\<lambda>admin.
     bnd (if \<not> admin then emit Ps_log_not_elevated else ret ()) (\<lambda>_.
     bnd (emit Ps_log_starting) (\<lambda>_.
     ps_block (invoke_reconcile S A))))"

definition ps_iter :: "('k, 'x) ps_sys_scheme \<Rightarrow> ps_args \<Rightarrow> ('k ps_state, unit) prog" where
  "ps_iter S A =
     ps_block (ps_then (ps_must (ps_sleep S (arg_interval A))) (\<lambda>_. invoke_reconcile S A))"

text \<open>The \<open>finally\<close> block.\<close>

definition ps_stop :: "('k, 'x) ps_sys_scheme \<Rightarrow> ('k ps_state, unit) prog" where
  "ps_stop S = bnd (remove_sentinel_neighbor S ''daemon shutdown'') (\<lambda>_. emit Ps_log_stopped)"

definition ps_init :: "'k \<Rightarrow> (string \<Rightarrow> string option) \<Rightarrow> 'k ps_state" where
  "ps_init k fs = \<lparr>kern = k, files = fs, out = [], ps_running = True\<rparr>"

text \<open>Changes of the system, of the registry, and Ctrl-C.\<close>

inductive ps_env :: "'k ps_state \<Rightarrow> 'k ps_state \<Rightarrow> bool" where
  ps_kernel: "ps_env s (s\<lparr>kern := k\<rparr>)"
| ps_registry: "ps_env s (s\<lparr>files := fs\<rparr>)"
| ps_ctrl_c: "ps_env s (s\<lparr>ps_running := False\<rparr>)"

end
