(* ===== verification/Powershell_Pass.thy ===== *)
theory Powershell_Pass
  imports Powershell_Daemon
begin

text \<open>
  What a pass of the PowerShell daemon leaves behind. \<open>ps_law\<close> states what is documented of the
  cmdlets in an elevated session over standing tables; \<open>decide\<close> reads the decision off the tables
  and the registry; \<open>ps_table\<close> and \<open>ps_map\<close> are the neighbor table and the map of routers that the
  decision calls for.
\<close>

section \<open>The laws of the cmdlets\<close>

text \<open>
  \<open>nb\<close> are the neighbor entries of 192.0.0.11. An interface holds at most one; \<open>Remove-NetNeighbor\<close>
  takes those of an interface away; \<open>New-NetNeighbor\<close> succeeds where the interface has none.
\<close>

abbreviation (input) on_index :: "int \<Rightarrow> ps_neigh list \<Rightarrow> ps_neigh list" where
  "on_index i \<equiv> filter (\<lambda>n. pn_index n = i)"

abbreviation (input) off_index :: "int \<Rightarrow> ps_neigh list \<Rightarrow> ps_neigh list" where
  "off_index i \<equiv> filter (\<lambda>n. pn_index n \<noteq> i)"

definition reads_quiet :: "('k, 'x) ps_sys_scheme \<Rightarrow> bool" where
  "reads_quiet S \<longleftrightarrow>
     (\<forall>i. quiet (ps_adapter_index S i)) \<and> (\<forall>n. quiet (ps_adapter_name S n)) \<and>
     (\<forall>i. quiet (ps_routes6 S i)) \<and> (\<forall>i. quiet (ps_routes4 S i)) \<and> (\<forall>i a. quiet (ps_neigh6 S i a)) \<and>
     (\<forall>i. quiet (ps_neigh4 S i)) \<and> quiet (ps_neigh4_all S) \<and> (\<forall>h. quiet (ps_reg_get S h)) \<and>
     quiet (ps_reg_path S)"

definition ps_law :: "('k, 'x) ps_sys_scheme \<Rightarrow> ('k \<Rightarrow> ps_neigh list) \<Rightarrow> bool" where
  "ps_law S nb \<longleftrightarrow> reads_quiet S \<and>
     (\<forall>k. distinct (map pn_index (nb k))) \<and>
     (\<forall>k. fst (ps_neigh4_all S k) = nb k) \<and>
     (\<forall>i k. fst (ps_neigh4 S i k) = on_index i (nb k)) \<and>
     (\<forall>i k. nb (snd (ps_remove S i k)) = off_index i (nb k)) \<and>
     (\<forall>i m k. on_index i (nb k) = [] \<longrightarrow> fst (ps_new S i m k) \<and>
        on_index i (nb (snd (ps_new S i m k))) = [\<lparr>pn_index = i, pn_lla = m, pn_permanent = True\<rparr>] \<and>
        off_index i (nb (snd (ps_new S i m k))) = off_index i (nb k)) \<and>
     (\<forall>k. nb (snd (ps_reg_create S k)) = nb k) \<and>
     (\<forall>h m k. nb (snd (ps_reg_set S h m k)) = nb k)"

lemma ps_law_quiet:
  assumes "ps_law S nb"
  shows "snd (ps_adapter_index S i k) = k" "snd (ps_adapter_name S n k) = k"
    "snd (ps_routes6 S i k) = k" "snd (ps_routes4 S i k) = k" "snd (ps_neigh6 S i a k) = k"
    "snd (ps_neigh4 S i k) = k" "snd (ps_neigh4_all S k) = k" "snd (ps_reg_get S h k) = k"
    "snd (ps_reg_path S k) = k"
  using assms by (simp_all add: ps_law_def reads_quiet_def quiet_def)

lemma ps_lawD:
  assumes "ps_law S nb"
  shows "distinct (map pn_index (nb k))" "fst (ps_neigh4_all S k) = nb k"
    "fst (ps_neigh4 S i k) = on_index i (nb k)"
    "nb (snd (ps_remove S i k)) = off_index i (nb k)"
    "nb (snd (ps_reg_create S k)) = nb k" "nb (snd (ps_reg_set S h m k)) = nb k"
  using assms by (simp_all add: ps_law_def)

lemma ps_law_new:
  assumes "ps_law S nb" and "on_index i (nb k) = []"
  shows "fst (ps_new S i m k)"
    "on_index i (nb (snd (ps_new S i m k))) = [\<lparr>pn_index = i, pn_lla = m, pn_permanent = True\<rparr>]"
    "off_index i (nb (snd (ps_new S i m k))) = off_index i (nb k)"
  using assms by (simp_all add: ps_law_def)

section \<open>The decision\<close>

text \<open>
  \<open>Ps_pin i m own\<close>: on interface \<open>i\<close> the entry is to hold \<open>m\<close>, and \<open>m\<close> is to be remembered under
  the interface's own address \<open>own\<close> when it comes from the neighbor table.
\<close>

datatype ps_decision = Ps_leave | Ps_several | Ps_cease | Ps_pin int string "string option"

definition live_router :: "('k, 'x) ps_sys_scheme \<Rightarrow> int \<Rightarrow> 'k \<Rightarrow> string option" where
  "live_router S i k =
     (case ps_sort S (fst (ps_routes6 S i k)) of
        [] \<Rightarrow> None
      | r # _ \<Rightarrow>
          if pr_nexthop r = [] then None
          else map_option pn_lla (find (\<lambda>n. pn_lla n \<noteq> [] \<and> \<not> ps_eq (pn_lla n) ''00-00-00-00-00-00'')
                 (fst (ps_neigh6 S i (pr_nexthop r) k))))"

definition own_mac :: "('k, 'x) ps_sys_scheme \<Rightarrow> int \<Rightarrow> 'k \<Rightarrow> string option" where
  "own_mac S i k =
     (case fst (ps_adapter_index S i k) of [] \<Rightarrow> None | x # _ \<Rightarrow> if pa_mac x = [] then None else Some (pa_mac x))"

definition remembered :: "('k, 'x) ps_sys_scheme \<Rightarrow> string \<Rightarrow> 'k \<Rightarrow> (string \<Rightarrow> string option) \<Rightarrow> string option" where
  "remembered S h k fs = (if fst (ps_reg_get S h k) then fs h else None)"

definition decide_index ::
    "('k, 'x) ps_sys_scheme \<Rightarrow> ps_args \<Rightarrow> int \<Rightarrow> 'k \<Rightarrow> (string \<Rightarrow> string option) \<Rightarrow> ps_decision" where
  "decide_index S A i k fs =
     (if arg_require A \<and> (\<forall>r \<in> set (fst (ps_routes4 S i k)). \<not> ps_eq (pr_nexthop r) Sentinel) then Ps_cease
      else case live_router S i k of
        Some m \<Rightarrow> Ps_pin i m (own_mac S i k)
      | None \<Rightarrow>
          (case Option.bind (own_mac S i k) (\<lambda>h. remembered S h k fs) of
             Some (c # cs) \<Rightarrow> Ps_pin i (c # cs) None
           | _ \<Rightarrow> Ps_cease))"

definition indices :: "('k, 'x) ps_sys_scheme \<Rightarrow> ps_args \<Rightarrow> 'k \<Rightarrow> int list ps_result" where
  "indices S A k =
     (case int_text (arg_interface A) of
        None \<Rightarrow> Value (map pa_index (fst (ps_adapter_name S (arg_interface A) k)))
      | Some ds \<Rightarrow>
          if dec_val ds \<ge> 2 ^ 31 then Thrown
          else if fst (ps_adapter_index S (int (dec_val ds)) k) = [] then Value []
          else Value [int (dec_val ds)])"

definition decide :: "('k, 'x) ps_sys_scheme \<Rightarrow> ps_args \<Rightarrow> 'k \<Rightarrow> (string \<Rightarrow> string option) \<Rightarrow> ps_decision" where
  "decide S A k fs =
     (case indices S A k of
        Value [] \<Rightarrow> Ps_leave
      | Value [i] \<Rightarrow> if i = 0 then Ps_leave else decide_index S A i k fs
      | _ \<Rightarrow> Ps_several)"

section \<open>What the decision calls for\<close>

definition ps_pinned :: "int \<Rightarrow> string \<Rightarrow> ps_neigh list \<Rightarrow> ps_neigh list \<Rightarrow> bool" where
  "ps_pinned i m old new \<longleftrightarrow>
     (\<exists>n. on_index i new = [n] \<and> pn_permanent n \<and> ps_eq (pn_lla n) m) \<and> off_index i new = off_index i old"

text \<open>Ceasing takes away the first permanent entry, whatever interface it is on.\<close>

definition ps_without_first :: "ps_neigh list \<Rightarrow> ps_neigh list" where
  "ps_without_first old = (case find pn_permanent old of None \<Rightarrow> old | Some n \<Rightarrow> off_index (pn_index n) old)"

definition ps_table :: "ps_decision \<Rightarrow> ps_neigh list \<Rightarrow> ps_neigh list \<Rightarrow> bool" where
  "ps_table d old new =
     (case d of
        Ps_pin i m _ \<Rightarrow> ps_pinned i m old new
      | Ps_cease \<Rightarrow> new = ps_without_first old
      | _ \<Rightarrow> new = old)"

definition ps_map ::
    "ps_decision \<Rightarrow> unit ps_result \<Rightarrow> (string \<Rightarrow> string option) \<Rightarrow> (string \<Rightarrow> string option) \<Rightarrow> bool" where
  "ps_map d r old new =
     (case d of
        Ps_pin i m (Some h) \<Rightarrow>
          (if r = Thrown then new = old
           else (\<exists>m'. new = old(h \<mapsto> m') \<and> ps_eq m' m))
      | Ps_several \<Rightarrow> r = Thrown \<and> new = old
      | _ \<Rightarrow> r = Value () \<and> new = old)"

section \<open>The operations\<close>

lemma wp_ps_result [wp_simps]:
  "wp (case r of Value x \<Rightarrow> f x | Thrown \<Rightarrow> g) Q s =
    (case r of Value x \<Rightarrow> wp (f x) Q s | Thrown \<Rightarrow> wp g Q s)"
  by (cases r) auto

lemma wp_ps_then [wp_simps]:
  "wp (ps_then m f) Q s = wp m (\<lambda>r. case r of Thrown \<Rightarrow> Q Thrown | Value x \<Rightarrow> wp (f x) Q) s"
  unfolding ps_then_def wp_bnd
  by (rule arg_cong [of _ _ "\<lambda>P. wp m P s"]) (auto simp: fun_eq_iff wp_simps split: ps_result.split)

lemma wp_ps_do [wp_simps]: "wp (ps_do m) Q s = wp m (\<lambda>x. Q (Value x)) s"
  unfolding ps_do_def wp_bnd
  by (rule arg_cong [of _ _ "\<lambda>P. wp m P s"]) (simp add: fun_eq_iff wp_simps)

lemma wp_ps_must [wp_simps]:
  "wp (ps_must f) Q s =
    Q (if fst (f (kern s)) then Value () else Thrown) (s\<lparr>kern := snd (f (kern s))\<rparr>)"
  by (simp add: ps_must_def wp_simps)

lemma wp_ps_thenI:
  assumes "wp m (\<lambda>r t. r = Value v \<and> P t) s" and "\<And>t. P t \<Longrightarrow> wp (f v) Q t"
  shows "wp (ps_then m f) Q s"
  unfolding wp_ps_then by (rule wp_mono [OF assms(1)]) (auto simp: assms(2))

text \<open>A step that leaves the map and the state of the loop alone.\<close>

definition ps_frame :: "'k ps_state \<Rightarrow> 'k ps_state \<Rightarrow> bool" where
  "ps_frame s t \<longleftrightarrow> files t = files s \<and> ps_running t = ps_running s"

lemma on_index_first:
  assumes "distinct (map pn_index ns)" and "on_index i ns = n # rest"
  shows "rest = []"
proof (cases rest)
  case (Cons a l)
  have "distinct (map pn_index (on_index i ns))"
    by (rule distinct_map_filter [OF assms(1)])
  then have "pn_index n \<noteq> pn_index a" by (simp add: assms(2) Cons)
  moreover have "\<forall>x \<in> {n, a}. x \<in> set (on_index i ns)" by (simp only: assms(2) Cons) simp
  then have "pn_index n = i" "pn_index a = i" by auto
  ultimately show ?thesis by simp
qed simp

lemma wp_set_sentinel_neighbor:
  assumes "ps_law S nb"
  shows "wp (set_sentinel_neighbor S i m)
    (\<lambda>r t. r = Value () \<and> ps_pinned i m (nb (kern s)) (nb (kern t)) \<and> ps_frame s t) s"
proof (cases "on_index i (nb (kern s))")
  case Nil
  then show ?thesis
    using ps_law_new [OF assms Nil]
    by (simp add: set_sentinel_neighbor_def Let_def wp_simps
      ps_law_quiet [OF assms] ps_lawD [OF assms] ps_pinned_def
      ps_frame_def ps_eq_def)
next
  case (Cons n rest)
  have "rest = []" by (rule on_index_first [OF ps_lawD(1) [OF assms] Cons])
  moreover have "on_index i (nb (snd (ps_remove S i (kern s)))) = []"
    by (simp add: ps_lawD [OF assms])
  ultimately show ?thesis
    using Cons ps_law_new [OF assms, of i "snd (ps_remove S i (kern s))"]
    by (simp add: set_sentinel_neighbor_def remove_neighbor_def Let_def wp_simps
      ps_law_quiet [OF assms] ps_lawD [OF assms] ps_pinned_def ps_frame_def ps_eq_def)
qed

lemma wp_remove_sentinel_neighbor:
  assumes "ps_law S nb"
  shows "wp (remove_sentinel_neighbor S why)
    (\<lambda>_ t. nb (kern t) = ps_without_first (nb (kern s)) \<and> ps_frame s t) s"
  by (cases "find pn_permanent (nb (kern s))")
    (simp_all add: remove_sentinel_neighbor_def get_sentinel_neighbor_def remove_neighbor_def wp_simps
      ps_law_quiet [OF assms] ps_lawD [OF assms] ps_without_first_def ps_frame_def)

lemma wp_set_cached_router_mac:
  assumes "ps_law S nb"
  shows "wp (set_cached_router_mac S h m)
    (\<lambda>r t. nb (kern t) = nb (kern s) \<and> ps_running t = ps_running s \<and>
      (if r = Thrown then files t = files s else \<exists>m'. files t = (files s)(h \<mapsto> m') \<and> ps_eq m' m) \<and>
      ((\<forall>k. \<not> fst (ps_reg_set S h m k)) \<longrightarrow> files t = files s)) s"
proof (cases "fst (ps_reg_get S h (kern s)) \<and> (\<exists>c. files s h = Some c \<and> ps_eq c m)")
  case True
  then obtain c where "fst (ps_reg_get S h (kern s))" "files s h = Some c" "ps_eq c m" by blast
  then show ?thesis
    using fun_upd_idem [of "files s" h "Some c"]
    by (auto simp: set_cached_router_mac_def get_cached_router_mac_def wp_ret wp_bnd wp_kcall wp_gets
      ps_law_quiet [OF assms] intro!: exI [of _ c])
next
  case False
  then have "\<not> (case if fst (ps_reg_get S h (kern s)) then files s h else None of
      None \<Rightarrow> False | Some c \<Rightarrow> ps_eq c m)"
    by (auto split: option.split)
  then show ?thesis
    by (simp add: set_cached_router_mac_def get_cached_router_mac_def put_file_def wp_simps
      ps_law_quiet [OF assms] ps_lawD [OF assms]) (auto simp: ps_eq_def)
qed

section \<open>A pass\<close>

lemma kern_idem: "s\<lparr>kern := kern s\<rparr> = s"
  by simp

text \<open>Over standing tables every read returns what the decision looks at.\<close>

lemma wp_reads:
  assumes "ps_law S nb"
  shows "wp (test_sentinel_route S i) B s =
      B (\<exists>r \<in> set (fst (ps_routes4 S i (kern s))). ps_eq (pr_nexthop r) Sentinel) s"
    and "wp (get_interface_mac S i) Q s = Q (own_mac S i (kern s)) s"
    and "wp (get_default_router S i) Q s =
      Q (case ps_sort S (fst (ps_routes6 S i (kern s))) of [] \<Rightarrow> None | r # _ \<Rightarrow> Some (pr_nexthop r)) s"
    and "wp (get_router_mac S i a) Q s =
      Q (map_option pn_lla (find (\<lambda>n. pn_lla n \<noteq> [] \<and> \<not> ps_eq (pn_lla n) ''00-00-00-00-00-00'')
        (fst (ps_neigh6 S i a (kern s))))) s"
    and "wp (get_cached_router_mac S h) Q s = Q (remembered S h (kern s) (files s)) s"
    and "wp (get_managed_ifindex S A) I s = I (indices S A (kern s)) s"
proof -
  note defs = wp_simps ps_law_quiet [OF assms] kern_idem
  show "wp (test_sentinel_route S i) B s =
      B (\<exists>r \<in> set (fst (ps_routes4 S i (kern s))). ps_eq (pr_nexthop r) Sentinel) s"
    by (simp add: test_sentinel_route_def defs list_ex_iff)
  show "wp (get_interface_mac S i) Q s = Q (own_mac S i (kern s)) s"
    by (simp add: get_interface_mac_def own_mac_def defs split: list.split)
  show "wp (get_default_router S i) Q s =
      Q (case ps_sort S (fst (ps_routes6 S i (kern s))) of [] \<Rightarrow> None | r # _ \<Rightarrow> Some (pr_nexthop r)) s"
    by (simp add: get_default_router_def defs)
  show "wp (get_router_mac S i a) Q s =
      Q (map_option pn_lla (find (\<lambda>n. pn_lla n \<noteq> [] \<and> \<not> ps_eq (pn_lla n) ''00-00-00-00-00-00'')
        (fst (ps_neigh6 S i a (kern s))))) s"
    by (simp add: get_router_mac_def defs)
  show "wp (get_cached_router_mac S h) Q s = Q (remembered S h (kern s) (files s)) s"
    by (simp add: get_cached_router_mac_def remembered_def defs)
  show "wp (get_managed_ifindex S A) I s = I (indices S A (kern s)) s"
    by (simp add: get_managed_ifindex_def indices_def defs Let_def split: option.split)
qed

lemma live_router_nonempty: "live_router S i k = Some m \<Longrightarrow> m \<noteq> []"
  by (auto simp: live_router_def find_Some_iff split: list.splits if_splits)

lemma wp_find_router:
  assumes "ps_law S nb"
  shows "wp (bnd (get_default_router S i) (\<lambda>ll. bnd (case truthy ll of None \<Rightarrow> ret None
      | Some a \<Rightarrow> get_router_mac S i a) f)) Q s = wp (f (live_router S i (kern s))) Q s"
  by (simp add: wp_bnd wp_reads [OF assms] live_router_def truthy_def wp_ret split: list.split)

lemma wp_recall_router:
  assumes "ps_law S nb"
  shows "wp (bnd (case own of None \<Rightarrow> ret None | Some h \<Rightarrow> get_cached_router_mac S h) f) Q s =
    wp (f (Option.bind own (\<lambda>h. remembered S h (kern s) (files s)))) Q s"
  by (cases own) (simp_all add: wp_bnd wp_reads [OF assms] wp_ret)

text \<open>The outcome of a pass; a registry that refuses the value stays as it is.\<close>

definition ps_outcome ::
    "('k, 'x) ps_sys_scheme \<Rightarrow> ps_decision \<Rightarrow> ('k \<Rightarrow> ps_neigh list) \<Rightarrow> 'k ps_state \<Rightarrow> unit ps_result \<Rightarrow>
      'k ps_state \<Rightarrow> bool" where
  "ps_outcome S d nb s r t \<longleftrightarrow>
     ps_table d (nb (kern s)) (nb (kern t)) \<and> ps_map d r (files s) (files t) \<and>
     ps_running t = ps_running s \<and>
     (\<forall>i m h. d = Ps_pin i m (Some h) \<longrightarrow> (\<forall>k. \<not> fst (ps_reg_set S h m k)) \<longrightarrow> files t = files s)"

lemma wp_reconcile_index:
  assumes "ps_law S nb"
  shows "wp (reconcile_index S A i)
    (ps_outcome S (decide_index S A i (kern s) (files s)) nb s) s"
proof -
  let ?k = "kern s" let ?own = "own_mac S i (kern s)"
  let ?found = "\<exists>r \<in> set (fst (ps_routes4 S i ?k)). ps_eq (pr_nexthop r) Sentinel"
  have cease: "wp (ps_do (remove_sentinel_neighbor S why)) (ps_outcome S Ps_cease nb s) s" for why
    unfolding wp_ps_do
    by (rule wp_mono [OF wp_remove_sentinel_neighbor [OF assms]])
      (simp add: ps_outcome_def ps_table_def ps_map_def ps_frame_def)
  have recall: "wp (set_sentinel_neighbor S i m) (ps_outcome S (Ps_pin i m None) nb s) s" for m
    by (rule wp_mono [OF wp_set_sentinel_neighbor [OF assms]])
      (simp add: ps_outcome_def ps_table_def ps_map_def ps_frame_def)
  have learn: "wp (ps_then (set_sentinel_neighbor S i m) (\<lambda>_.
      case own of None \<Rightarrow> ret (Value ()) | Some h \<Rightarrow> set_cached_router_mac S h m))
      (ps_outcome S (Ps_pin i m own) nb s) s" for m own
  proof (rule wp_ps_thenI [OF wp_set_sentinel_neighbor [OF assms]])
    fix t
    assume t: "ps_pinned i m (nb (kern s)) (nb (kern t)) \<and> ps_frame s t"
    show "wp (case own of None \<Rightarrow> ret (Value ()) | Some h \<Rightarrow> set_cached_router_mac S h m)
        (ps_outcome S (Ps_pin i m own) nb s) t"
    proof (cases own)
      case None
      then show ?thesis
        using t by (simp add: wp_ret ps_outcome_def ps_table_def ps_map_def ps_frame_def)
    next
      case (Some h)
      have "wp (set_cached_router_mac S h m) (ps_outcome S (Ps_pin i m own) nb s) t"
        by (rule wp_mono [OF wp_set_cached_router_mac [OF assms]])
          (use t Some in \<open>auto simp: ps_outcome_def ps_table_def ps_map_def ps_frame_def\<close>)
      then show ?thesis using Some by simp
    qed
  qed
  show ?thesis
  proof (cases "arg_require A \<and> \<not> ?found")
    case True
    then show ?thesis
      using cease by (simp add: reconcile_index_def decide_index_def wp_simps wp_reads [OF assms])
  next
    case False
    let ?known = "Option.bind ?own (\<lambda>h. remembered S h ?k (files s))"
    have head: "wp (reconcile_index S A i) Q s =
      wp (case truthy (live_router S i ?k) of
          Some m \<Rightarrow> ps_then (set_sentinel_neighbor S i m) (\<lambda>_.
            case ?own of None \<Rightarrow> ret (Value ()) | Some h \<Rightarrow> set_cached_router_mac S h m)
        | None \<Rightarrow> bnd (case ?own of None \<Rightarrow> ret None | Some h \<Rightarrow> get_cached_router_mac S h) (\<lambda>c.
            case truthy c of Some m \<Rightarrow> set_sentinel_neighbor S i m
            | None \<Rightarrow> ps_do (remove_sentinel_neighbor S
               ''no IPv6 default router resolved yet; ceding to ARP bootstrap''))) Q s" for Q
      using False unfolding reconcile_index_def
      by (cases "arg_require A")
        (simp_all add: wp_reads [OF assms] wp_bnd [of "test_sentinel_route S i"] wp_bnd [of "get_interface_mac S i"]
          wp_bnd [of "ret True"] wp_ret wp_find_router [OF assms])
    show ?thesis
    proof (cases "live_router S i ?k")
      case (Some m)
      then have "truthy (Some m) = Some m" using live_router_nonempty [of S i ?k m]
        by (cases m) (simp_all add: truthy_def)
      moreover have "decide_index S A i ?k (files s) = Ps_pin i m ?own"
        using False Some by (auto simp: decide_index_def)
      ultimately show ?thesis using Some learn by (simp add: head)
    next
      case None
      have "wp (case truthy ?known of Some m \<Rightarrow> set_sentinel_neighbor S i m
            | None \<Rightarrow> ps_do (remove_sentinel_neighbor S
               ''no IPv6 default router resolved yet; ceding to ARP bootstrap''))
          (ps_outcome S (decide_index S A i ?k (files s)) nb s) s"
        using False None cease recall
        by (cases ?known; cases "the ?known") (auto simp: decide_index_def truthy_def)
      then show ?thesis
        by (simp add: head None truthy_def [of None] wp_recall_router [OF assms])
    qed
  qed
qed

lemma wp_invoke_reconcile:
  assumes "ps_law S nb"
  shows "wp (invoke_reconcile S A) (ps_outcome S (decide S A (kern s) (files s)) nb s) s"
proof -
  have leave: "ps_outcome S Ps_leave nb s (Value ()) s" "ps_outcome S Ps_several nb s Thrown s"
    by (simp_all add: ps_outcome_def ps_table_def ps_map_def)
  show ?thesis
  proof (cases "indices S A (kern s)")
    case (Value l)
    then show ?thesis
      using wp_reconcile_index [OF assms, of A] leave
      by (cases l; cases "tl l")
        (auto simp: invoke_reconcile_def wp_simps wp_reads [OF assms] decide_def no_index_def as_int_def)
  next
    case Thrown
    then show ?thesis
      using leave by (simp add: invoke_reconcile_def wp_simps wp_reads [OF assms] decide_def)
  qed
qed

end
