(* ===== verification/Powershell_Properties.thy ===== *)
theory Powershell_Properties
  imports Powershell_Pass
begin

text \<open>
  The properties of the PowerShell daemon: the neighbor table and the registry after a pass, what a
  registry that cannot be written does to the daemon, and its life under any interleaving with the
  system. A small system for the witnesses has one adapter with index 3 and stores the
  neighbor entries of 192.0.0.11 as its state.
\<close>

section \<open>Shutdown\<close>

lemma wp_ps_stop:
  assumes "ps_law S nb"
  shows "wp (ps_stop S) (\<lambda>_ t. nb (kern t) = ps_without_first (nb (kern s)) \<and> last (out t) = Ps_log_stopped) s"
  unfolding ps_stop_def wp_bnd
  by (rule wp_mono [OF wp_remove_sentinel_neighbor [OF assms]]) (simp add: wp_emit)

lemma find_filter: "find P xs = (case filter P xs of [] \<Rightarrow> None | x # _ \<Rightarrow> Some x)"
  by (induction xs) auto

text \<open>Of the permanent entries, all but the first stay.\<close>

lemma ps_without_first_permanent:
  assumes "distinct (map pn_index ns)"
  shows "filter pn_permanent (ps_without_first ns) = tl (filter pn_permanent ns)"
proof (cases "filter pn_permanent ns")
  case Nil
  then show ?thesis by (simp add: ps_without_first_def find_filter)
next
  case (Cons n ps)
  have "distinct (map pn_index (n # ps))"
    using distinct_map_filter [OF assms] unfolding Cons [symmetric] .
  then have "off_index (pn_index n) (n # ps) = ps"
    by (simp add: filter_id_conv image_iff eq_commute)
  then have "off_index (pn_index n) (filter pn_permanent ns) = ps" using Cons by simp
  moreover have "filter pn_permanent (off_index i ns) = off_index i (filter pn_permanent ns)" for i
    by (simp add: conj_commute)
  ultimately show ?thesis
    using Cons by (simp add: ps_without_first_def find_filter del: filter_filter)
qed

section \<open>No fault\<close>

lemma safe_ps_result [safe_intros]:
  "(\<And>x. safe (f x)) \<Longrightarrow> safe g \<Longrightarrow> safe (case r of Value x \<Rightarrow> f x | Thrown \<Rightarrow> g)"
  by (cases r) auto

lemma safe_ps [safe_intros]:
  "safe m \<Longrightarrow> (\<And>x. safe (f x)) \<Longrightarrow> safe (ps_then m f)"
  "safe (ps_must h)" "safe n \<Longrightarrow> safe (ps_do n)"
  unfolding ps_then_def ps_must_def ps_do_def by (auto intro!: safe_intros)

lemma safe_let: "(\<And>x. safe (f x)) \<Longrightarrow> safe (Let x f)"
  by (simp add: Let_def)

lemma safe_remove_sentinel_neighbor [safe_intros]: "safe (remove_sentinel_neighbor S why)"
  unfolding remove_sentinel_neighbor_def get_sentinel_neighbor_def remove_neighbor_def
  by (intro safe_intros)

lemma safe_set_sentinel_neighbor [safe_intros]: "safe (set_sentinel_neighbor S i m)"
  unfolding set_sentinel_neighbor_def remove_neighbor_def by (intro safe_intros safe_let)

lemma safe_set_cached_router_mac [safe_intros]: "safe (set_cached_router_mac S h m)"
  unfolding set_cached_router_mac_def get_cached_router_mac_def put_file_def by (intro safe_intros)

lemma safe_invoke_reconcile [safe_intros]: "safe (invoke_reconcile S A)"
  unfolding invoke_reconcile_def reconcile_index_def get_managed_ifindex_def test_sentinel_route_def
    get_interface_mac_def get_default_router_def get_router_mac_def get_cached_router_mac_def
  by (intro safe_intros safe_let)





section \<open>The demonstration system\<close>

definition demo_nb :: "ps_neigh list \<Rightarrow> ps_neigh list" where
  "demo_nb k = (if distinct (map pn_index k) then k else [])"

definition ps_demo :: "bool \<Rightarrow> bool \<Rightarrow> ps_neigh list ps_sys" where
  "ps_demo router writable =
     \<lparr>ps_adapter_index = (\<lambda>i k. (if i = 3 then [\<lparr>pa_index = 3, pa_mac = ''2E-A6-31-A8-D4-5D''\<rparr>] else [], k)),
      ps_adapter_name = (\<lambda>n k. ([\<lparr>pa_index = 3, pa_mac = ''2E-A6-31-A8-D4-5D''\<rparr>], k)),
      ps_routes6 = (\<lambda>i k. (if router then [\<lparr>pr_nexthop = ''fe80::1'', pr_metric = 16\<rparr>] else [], k)),
      ps_routes4 = (\<lambda>i k. ([], k)),
      ps_neigh6 = (\<lambda>i a k. ([\<lparr>pn_index = 3, pn_lla = ''02-00-00-00-00-01'', pn_permanent = False\<rparr>], k)),
      ps_neigh4 = (\<lambda>i k. (on_index i (demo_nb k), k)),
      ps_neigh4_all = (\<lambda>k. (demo_nb k, k)),
      ps_sort = sort_key pr_metric,
      ps_remove = (\<lambda>i k. ((), off_index i (demo_nb k))),
      ps_new = (\<lambda>i m k. if on_index i (demo_nb k) = []
         then (True, demo_nb k @ [\<lparr>pn_index = i, pn_lla = m, pn_permanent = True\<rparr>]) else (False, k)),
      ps_reg_get = (\<lambda>h k. (True, k)),
      ps_reg_path = (\<lambda>k. (True, k)),
      ps_reg_create = (\<lambda>k. (True, k)),
      ps_reg_set = (\<lambda>h m k. (writable, k)),
      ps_is_admin = (\<lambda>k. (True, k)),
      ps_sleep = (\<lambda>n k. (True, k))\<rparr>"

lemma demo_nb_distinct: "distinct (map pn_index (demo_nb k))"
  by (simp add: demo_nb_def)

lemma demo_nb_id: "distinct (map pn_index k) \<Longrightarrow> demo_nb k = k"
  by (simp add: demo_nb_def)

lemma ps_demo_law: "ps_law (ps_demo router writable) demo_nb"
proof -
  have off: "demo_nb (off_index i (demo_nb k)) = off_index i (demo_nb k)" for i k
    by (rule demo_nb_id) (rule distinct_map_filter [OF demo_nb_distinct])
  have new: "demo_nb (demo_nb k @ [\<lparr>pn_index = i, pn_lla = m, pn_permanent = True\<rparr>]) =
      demo_nb k @ [\<lparr>pn_index = i, pn_lla = m, pn_permanent = True\<rparr>]" if "on_index i (demo_nb k) = []" for i m k
    using that demo_nb_distinct [of k] by (intro demo_nb_id) (auto simp: filter_empty_conv)
  show ?thesis
    unfolding ps_law_def reads_quiet_def
    by (simp add: ps_demo_def quiet_def demo_nb_distinct off new)
qed

definition demo_args :: ps_args where
  "demo_args = \<lparr>arg_interface = ''3'', arg_interval = 15, arg_require = False\<rparr>"

section \<open>The properties\<close>

text \<open>
  C20: Over standing tables a pass always ends, and leaves the neighbor entries of 192.0.0.11 as the
  decision read off the tables and the registry calls for: on the managed interface a single
  permanent entry with the router's MAC and nothing changed elsewhere, or, when it ceases, without
  the first permanent entry, whatever interface that one is on, or as they were. A router found in
  the neighbor table is in the registry afterwards, unless the pass was ended by an error.
\<close>
theorem ps_reconcile_table:
  assumes "ps_law S nb"
  shows "\<exists>r t. invoke_reconcile S A s = Some (r, t) \<and>
    ps_outcome S (decide S A (kern s) (files s)) nb s r t"
  using wp_invoke_reconcile [OF assms, of A s] by (elim wpE) blast

text \<open>The entry of another interface goes when this daemon ceases.\<close>

lemma ps_demo_decides:
  "decide (ps_demo True w) demo_args k fs = Ps_pin 3 ''02-00-00-00-00-01'' (Some ''2E-A6-31-A8-D4-5D'')"
  "decide (ps_demo False w) demo_args k (\<lambda>_. None) = Ps_cease"
proof -
  have "int_text ''3'' = Some ''3''" "dec_val ''3'' = 3" "\<not> ps_eq ''02-00-00-00-00-01'' ''00-00-00-00-00-00''"
    by code_simp+
  then show "decide (ps_demo True w) demo_args k fs = Ps_pin 3 ''02-00-00-00-00-01'' (Some ''2E-A6-31-A8-D4-5D'')"
    "decide (ps_demo False w) demo_args k (\<lambda>_. None) = Ps_cease"
    by (simp_all add: decide_def indices_def decide_index_def live_router_def own_mac_def remembered_def
      ps_demo_def demo_args_def)
qed

theorem ps_reconcile_table_witness:
  "\<exists>r t u. invoke_reconcile (ps_demo True True) demo_args (ps_init [] (\<lambda>_. None)) = Some (r, t) \<and>
    ps_pinned 3 ''02-00-00-00-00-01'' [] (demo_nb (kern t)) \<and>
    invoke_reconcile (ps_demo False True) demo_args
      (ps_init [\<lparr>pn_index = 7, pn_lla = ''02-00-00-00-00-09'', pn_permanent = True\<rparr>] (\<lambda>_. None)) = Some (Value (), u) \<and>
    demo_nb (kern u) = []"
proof -
  let ?k = "[\<lparr>pn_index = 7, pn_lla = ''02-00-00-00-00-09'', pn_permanent = True\<rparr>]"
  obtain r t where "invoke_reconcile (ps_demo True True) demo_args (ps_init [] (\<lambda>_. None)) = Some (r, t)"
    and "ps_pinned 3 ''02-00-00-00-00-01'' [] (demo_nb (kern t))"
    using ps_reconcile_table [OF ps_demo_law [of True True], of demo_args "ps_init [] (\<lambda>_. None)"]
    by (auto simp: ps_demo_decides ps_outcome_def ps_table_def ps_init_def demo_nb_def)
  moreover obtain u where
    "invoke_reconcile (ps_demo False True) demo_args (ps_init ?k (\<lambda>_. None)) = Some (Value (), u)"
    and "demo_nb (kern u) = []"
    using ps_reconcile_table [OF ps_demo_law [of False True], of demo_args "ps_init ?k (\<lambda>_. None)"]
    by (auto simp: ps_demo_decides ps_outcome_def ps_table_def ps_map_def ps_init_def demo_nb_def
      ps_without_first_def)
  ultimately show ?thesis by blast
qed




lemma permanent_on_index:
  "filter pn_permanent (off_index i ns) = [] \<Longrightarrow> filter pn_permanent ns = filter pn_permanent (on_index i ns)"
  by (induction ns) (auto split: if_splits)

text \<open>
  C22: When the router's MAC is new and the registry refuses to be written, the pass after a sleep
  pins the entry and then ends the daemon, which takes the first permanent entry away. When no other
  interface has one, that is the entry just pinned: the host loses a gateway it had just resolved.
  Otherwise it may be that of another interface, and the pinned entry stays.
\<close>
theorem ps_registry_refused:
  assumes "ps_law S nb" and "ps_running s" and "fst (ps_sleep S (arg_interval A) (kern s))"
    and "decide S A (snd (ps_sleep S (arg_interval A) (kern s))) (files s) = Ps_pin i m (Some h)"
    and "\<forall>k. \<not> fst (ps_reg_set S h m k)" and "\<nexists>c. files s h = Some c \<and> ps_eq c m"
  shows "\<exists>t u. ps_iter S A s = Some ((), t) \<and>
    ps_pinned i m (nb (snd (ps_sleep S (arg_interval A) (kern s)))) (nb (kern t)) \<and> \<not> ps_running t \<and>
    loop_step ps_running ps_env (ps_iter S A) (ps_stop S) (Running t) (Stopped u) \<and>
    filter pn_permanent (nb (kern u)) = tl (filter pn_permanent (nb (kern t))) \<and>
    (filter pn_permanent (off_index i (nb (snd (ps_sleep S (arg_interval A) (kern s))))) = [] \<longrightarrow>
      filter pn_permanent (nb (kern u)) = [])"
proof -
  define s1 where "s1 = s\<lparr>kern := snd (ps_sleep S (arg_interval A) (kern s))\<rparr>"
  have d: "decide S A (kern s1) (files s1) = Ps_pin i m (Some h)"
    using assms(4) by (simp add: s1_def)
  have refused: "r = Thrown \<and> ps_pinned i m (nb (kern s1)) (nb (kern t))"
    if "ps_outcome S (decide S A (kern s1) (files s1)) nb s1 r t" for r t
  proof -
    have outcome: "ps_outcome S (Ps_pin i m (Some h)) nb s1 r t" using that d by simp
    then have "ps_map (Ps_pin i m (Some h)) r (files s1) (files t)" by (simp add: ps_outcome_def)
    then have "r = Thrown \<or> (\<exists>c. files t h = Some c \<and> ps_eq c m)"
      by (auto simp: ps_map_def split: if_splits)
    moreover have "ps_pinned i m (nb (kern s1)) (nb (kern t))" "files t = files s1"
      using outcome assms(5) by (auto simp: ps_outcome_def ps_table_def)
    moreover have "files s1 = files s" by (simp add: s1_def)
    ultimately show ?thesis using assms(6) by auto
  qed
  have "wp (ps_iter S A) (\<lambda>_ t. ps_pinned i m (nb (kern s1)) (nb (kern t)) \<and> \<not> ps_running t) s"
  proof -
    have "wp (invoke_reconcile S A) (\<lambda>r. wp (case r of Value _ \<Rightarrow> ret ()
        | Thrown \<Rightarrow> modify (\<lambda>s. s\<lparr>ps_running := False\<rparr>))
        (\<lambda>_ t. ps_pinned i m (nb (kern s1)) (nb (kern t)) \<and> \<not> ps_running t)) s1"
      by (rule wp_mono [OF wp_invoke_reconcile [OF assms(1)]]) (auto dest!: refused simp: wp_modify)
    then show ?thesis
      using assms(3) by (simp add: ps_iter_def ps_block_def wp_bnd wp_ps_then wp_ps_must s1_def)
  qed
  then obtain x t where t: "ps_iter S A s = Some (x, t)" "\<not> ps_running t"
    "ps_pinned i m (nb (kern s1)) (nb (kern t))" by (elim wpE) blast
  obtain y u where u: "ps_stop S t = Some (y, u)"
    "filter pn_permanent (nb (kern u)) = tl (filter pn_permanent (nb (kern t)))"
    using wp_ps_stop [OF assms(1), of t]
    by (elim wpE) (auto simp: ps_without_first_permanent ps_lawD(1) [OF assms(1)])
  have "filter pn_permanent (nb (kern u)) = []" if "filter pn_permanent (off_index i (nb (kern s1))) = []"
  proof -
    obtain n where "on_index i (nb (kern t)) = [n]" "off_index i (nb (kern t)) = off_index i (nb (kern s1))"
      using t(3) by (auto simp: ps_pinned_def)
    then show ?thesis using that u(2) permanent_on_index [of i "nb (kern t)"] by simp
  qed
  moreover have "kern s1 = snd (ps_sleep S (arg_interval A) (kern s))" by (simp add: s1_def)
  moreover have "loop_step ps_running ps_env (ps_iter S A) (ps_stop S) (Running t) (Stopped u)"
    using t u by (simp add: loop_step.finish)
  ultimately show ?thesis using t u by auto
qed

lemma demo_args_interval: "arg_interval demo_args = 15"
  by (simp add: demo_args_def)

theorem ps_registry_refused_witness:
  "\<exists>t u. ps_iter (ps_demo True False) demo_args (ps_init [] (\<lambda>_. None)) = Some ((), t) \<and>
    ps_pinned 3 ''02-00-00-00-00-01'' [] (demo_nb (kern t)) \<and>
    loop_step ps_running ps_env (ps_iter (ps_demo True False) demo_args) (ps_stop (ps_demo True False))
      (Running t) (Stopped u) \<and>
    filter pn_permanent (demo_nb (kern u)) = [] \<and> \<not> ps_running t"
proof -
  have "ps_running (ps_init [] (\<lambda>_. None))" "fst (ps_sleep (ps_demo True False) 15 [])"
    "snd (ps_sleep (ps_demo True False) 15 []) = []" "\<not> fst (ps_reg_set (ps_demo True False) h m k)" for h m k
    by (simp_all add: ps_init_def ps_demo_def)
  then show ?thesis
    using ps_registry_refused [OF ps_demo_law [of True False], of "ps_init [] (\<lambda>_. None)" demo_args 3
        "''02-00-00-00-00-01''" "''2E-A6-31-A8-D4-5D''"]
    by (auto simp: ps_init_def demo_args_interval ps_demo_decides demo_nb_id)
qed

end
