(* ===== verification/Networkd_Gateway.thy ===== *)
theory Networkd_Gateway
  imports Freebsd_Select
begin

text \<open>
  The patch to systemd-networkd
  (\<^verbatim>\<open>host/systemd-networkd/0001-network-support-IPv6-resolved-IPv4-gateway-192.0.0.1.patch\<close>):
  the functions it adds to \<^verbatim>\<open>networkd-dhcp4.c\<close>. They run inside networkd, whose own functions
  and tables are not in this repository: the fields of \<open>nd_sys\<close> stand for them. The link, its
  network and its default router list are the state.

  \<open>nd_routers\<close> is the hash map of the NDisc routers of the link in the order it is iterated;
  the specification \<open>nd_best\<close> is a maximum over its entries, so the order does not matter.
\<close>

section \<open>The state and what networkd provides\<close>

datatype nd_source = Source_dhcp4 | Source_other

record nd_route =
  rt_source :: nd_source
  rt_ifindex :: int
  rt_family :: byte
  rt_dst_prefixlen :: byte
  rt_nh_family :: byte
  rt_gw :: in6_addr   \<comment> \<open>\<open>nexthop.gw.in6\<close>, when the next hop's family is \<open>AF_INET6\<close>\<close>

record nd_network =
  dhcp_use_gateway :: int
  dhcp_use_ipv6_resolved_gateway :: bool
  dhcp_use_routes :: bool

datatype nd_event =
    Nd_unsupported
  | Nd_deferring
  | Nd_removed nd_route int
  | Nd_using in6_addr
  | Nd_requested in6_addr in_addr int   \<comment> \<open>next hop, preferred source, result\<close>

record 'k nd_state = "('k, nd_event) os_state" +
  nd_cached :: int                      \<comment> \<open>\<open>static int cached\<close>\<close>
  nd_ifindex :: int
  nd_lease :: bool                      \<comment> \<open>\<open>link->dhcp_lease\<close> is set\<close>
  nd_net :: "nd_network option"
  nd_routers :: "(in6_addr \<times> byte option) list"
    \<comment> \<open>sender and preference, \<open>None\<close> when \<open>sd_ndisc_router_get_preference\<close> fails\<close>

record 'k nd_sys =
  nd_uname :: "'k \<Rightarrow> string option \<times> 'k"
  nd_strverscmp :: "string \<Rightarrow> string \<Rightarrow> int"  \<comment> \<open>\<open>strverscmp_improved\<close>\<close>
  nd_lease_address :: "'k \<Rightarrow> (int + in_addr) \<times> 'k"
  nd_lease_router :: "'k \<Rightarrow> (int + in_addr) \<times> 'k"       \<comment> \<open>\<open>dhcp4_get_router\<close>\<close>
  nd_classless :: "'k \<Rightarrow> int \<times> 'k"
    \<comment> \<open>\<open>dhcp4_get_classless_static_or_static_routes(link, NULL, NULL)\<close>\<close>
  nd_routes :: "'k \<Rightarrow> nd_route list"                     \<comment> \<open>\<open>link->manager->routes\<close>\<close>
  nd_realloc :: "nat \<Rightarrow> 'k \<Rightarrow> bool \<times> 'k"
  nd_remove :: "nd_route \<Rightarrow> 'k \<Rightarrow> int \<times> 'k"               \<comment> \<open>\<open>route_remove_and_cancel\<close>\<close>
  nd_route_new :: "'k \<Rightarrow> int \<times> 'k"
  nd_request :: "in6_addr \<Rightarrow> in_addr \<Rightarrow> 'k \<Rightarrow> int \<times> 'k"    \<comment> \<open>\<open>dhcp4_request_route\<close>\<close>

section \<open>The code\<close>

definition DHCP4_GATEWAY_IPV6_RESOLVED :: in_addr where
  "DHCP4_GATEWAY_IPV6_RESOLVED = [192, 0, 0, 11]"

definition dhcp4_router_is_ipv6_resolved :: "in_addr \<Rightarrow> bool" where
  "dhcp4_router_is_ipv6_resolved router \<longleftrightarrow> router = DHCP4_GATEWAY_IPV6_RESOLVED"

text \<open>The two bits of a Default Router Preference (RFC 4191).\<close>

definition SD_NDISC_PREFERENCE_HIGH :: byte where "SD_NDISC_PREFERENCE_HIGH = 1"
definition SD_NDISC_PREFERENCE_MEDIUM :: byte where "SD_NDISC_PREFERENCE_MEDIUM = 0"
definition SD_NDISC_PREFERENCE_LOW :: byte where "SD_NDISC_PREFERENCE_LOW = 3"

lemmas nd_pref_defs = SD_NDISC_PREFERENCE_HIGH_def SD_NDISC_PREFERENCE_MEDIUM_def
  SD_NDISC_PREFERENCE_LOW_def

definition ndisc_preference_rank :: "byte \<Rightarrow> int" where
  "ndisc_preference_rank pref =
     (if pref = SD_NDISC_PREFERENCE_HIGH then 2
      else if pref = SD_NDISC_PREFERENCE_MEDIUM then 1
      else if pref = SD_NDISC_PREFERENCE_LOW then 0
      else -1)"

definition kernel_supports_ipv4_via_ipv6 :: "('k, 'x) nd_sys_scheme \<Rightarrow> ('k nd_state, bool) prog" where
  "kernel_supports_ipv4_via_ipv6 S =
     bnd (gets nd_cached) (\<lambda>cached.
     bnd (if cached < 0 then
            bnd (kcall (nd_uname S)) (\<lambda>u.
            bnd (of_opt u) (\<lambda>release.
            modify (\<lambda>s. s\<lparr>nd_cached := (if 0 \<le> nd_strverscmp S release ''5.2'' then 1 else 0)\<rparr>)))
          else ret ()) (\<lambda>_.
     bnd (gets nd_cached) (\<lambda>cached.
     ret (cached \<noteq> 0))))"

text \<open>The loop of \<open>dhcp4_select_ndisc_router\<close> over \<open>best\<close> and \<open>best_rank\<close>.\<close>

definition nd_step :: "in6_addr \<times> int \<Rightarrow> in6_addr \<times> byte option \<Rightarrow> in6_addr \<times> int" where
  "nd_step st e =
     (case st of (b, br) \<Rightarrow> case e of (sender, p) \<Rightarrow>
      let pref = (case p of None \<Rightarrow> SD_NDISC_PREFERENCE_MEDIUM | Some q \<Rightarrow> q);
          rank = ndisc_preference_rank pref in
      if rank < br then st
      else if rank = br \<and> memcmp sender b \<ge> 0 then st
      else (sender, rank))"

definition dhcp4_select_ndisc_router :: "(in6_addr \<times> byte option) list \<Rightarrow> in6_addr option" where
  "dhcp4_select_ndisc_router routers =
     (case foldl nd_step (replicate 16 0, -1) routers of (b, br) \<Rightarrow>
      if br < 0 then None else Some b)"

definition AF_INET6 :: byte where "AF_INET6 = 10"

definition nd_stale :: "int \<Rightarrow> in6_addr \<Rightarrow> nd_route \<Rightarrow> bool" where
  "nd_stale ifindex gw r \<longleftrightarrow> \<not> (rt_source r \<noteq> Source_dhcp4) \<and> \<not> (rt_ifindex r \<noteq> ifindex) \<and>
     \<not> (rt_family r \<noteq> AF_INET \<or> rt_dst_prefixlen r \<noteq> 0) \<and> \<not> (rt_nh_family r \<noteq> AF_INET6) \<and> rt_gw r \<noteq> gw"

text \<open>The loop that collects what to remove; \<open>None\<close> when the array cannot grow.\<close>

fun collect_stale :: "('k, 'x) nd_sys_scheme \<Rightarrow> int \<Rightarrow> in6_addr \<Rightarrow> nd_route list \<Rightarrow> nd_route list \<Rightarrow>
    ('k nd_state, nd_route list option) prog" where
  "collect_stale S ifindex gw [] stale = ret (Some stale)"
| "collect_stale S ifindex gw (existing # rest) stale =
     (if \<not> nd_stale ifindex gw existing then collect_stale S ifindex gw rest stale
      else
        bnd (kcall (nd_realloc S (length stale + 1))) (\<lambda>ok.
        if \<not> ok then ret None else collect_stale S ifindex gw rest (stale @ [existing])))"

fun remove_all :: "('k, 'x) nd_sys_scheme \<Rightarrow> nd_route list \<Rightarrow> ('k nd_state, unit) prog" where
  "remove_all S [] = ret ()"
| "remove_all S (rt # rest) =
     bnd (kcall (nd_remove S rt)) (\<lambda>r.
     bnd (emit (Nd_removed rt r)) (\<lambda>_.
     remove_all S rest))"

definition ENOMEM :: int where "ENOMEM = 12"

definition dhcp4_request_ipv6_resolved_gateway ::
    "('k, 'x) nd_sys_scheme \<Rightarrow> ('k nd_state, int) prog" where
  "dhcp4_request_ipv6_resolved_gateway S =
     bnd (kernel_supports_ipv4_via_ipv6 S) (\<lambda>ok.
     if \<not> ok then bnd (emit Nd_unsupported) (\<lambda>_. ret 0)
     else
       bnd (gets nd_routers) (\<lambda>routers.
       case dhcp4_select_ndisc_router routers of
         None \<Rightarrow> bnd (emit Nd_deferring) (\<lambda>_. ret 0)
       | Some gw \<Rightarrow>
           bnd (kcall (nd_lease_address S)) (\<lambda>a.
           case a of
             Inl r \<Rightarrow> ret r
           | Inr address \<Rightarrow>
               bnd (gets nd_ifindex) (\<lambda>ifindex.
               bnd (gets (\<lambda>s. nd_routes S (kern s))) (\<lambda>routes.
               bnd (collect_stale S ifindex gw routes []) (\<lambda>stale.
               case stale of
                 None \<Rightarrow> ret (- ENOMEM)
               | Some stale \<Rightarrow>
                   bnd (remove_all S stale) (\<lambda>_.
                   bnd (kcall (nd_route_new S)) (\<lambda>r.
                   if r < 0 then ret r
                   else
                     bnd (emit (Nd_using gw)) (\<lambda>_.
                     bnd (kcall (nd_request S gw address)) (\<lambda>r.
                     bnd (emit (Nd_requested gw address r)) (\<lambda>_.
                     ret r)))))))))))"

definition dhcp4_ipv6_resolved_gateway_update ::
    "('k, 'x) nd_sys_scheme \<Rightarrow> ('k nd_state, int) prog" where
  "dhcp4_ipv6_resolved_gateway_update S =
     bnd (gets id) (\<lambda>s.
     if \<not> nd_lease s then ret 0
     else case nd_net s of
       None \<Rightarrow> ret 0
     | Some net \<Rightarrow>
         if dhcp_use_gateway net = 0 then ret 0
         else if \<not> dhcp_use_ipv6_resolved_gateway net then ret 0
         else
           bnd (if dhcp_use_routes net
                then bnd (kcall (nd_classless S)) (\<lambda>n. ret (n > 0)) else ret False) (\<lambda>overridden.
           if overridden then ret 0
           else
             bnd (kcall (nd_lease_router S)) (\<lambda>r.
             case r of
               Inl e \<Rightarrow> ret 0
             | Inr router \<Rightarrow>
                 if \<not> dhcp4_router_is_ipv6_resolved router then ret 0
                 else dhcp4_request_ipv6_resolved_gateway S)))"

text \<open>
  What the patch puts into \<open>dhcp4_request_default_gateway\<close> once the router of the lease is known;
  \<open>plain\<close> is the rest of that function.
\<close>

definition dhcp4_request_default_gateway ::
    "('k, 'x) nd_sys_scheme \<Rightarrow> in_addr \<Rightarrow> ('k nd_state, int) prog \<Rightarrow> ('k nd_state, int) prog" where
  "dhcp4_request_default_gateway S router plain =
     bnd (gets nd_net) (\<lambda>n. bnd (of_opt n) (\<lambda>net.
     if dhcp_use_ipv6_resolved_gateway net \<and> dhcp4_router_is_ipv6_resolved router
     then dhcp4_request_ipv6_resolved_gateway S
     else plain))"

section \<open>Selection\<close>

text \<open>
  Entries of the reserved preference are skipped: their rank equals the initial one, and no
  address is below the initial one. The rest compete as in the FreeBSD daemon.
\<close>

definition nd_pref :: "in6_addr \<times> byte option \<Rightarrow> byte" where
  "nd_pref e = (case snd e of None \<Rightarrow> SD_NDISC_PREFERENCE_MEDIUM | Some q \<Rightarrow> q)"

definition nd_key :: "in6_addr \<times> byte option \<Rightarrow> router_key" where
  "nd_key e = Router_key (ndisc_preference_rank (nd_pref e)) (fst e)"

definition nd_eligible :: "(in6_addr \<times> byte option) list \<Rightarrow> (in6_addr \<times> byte option) list" where
  "nd_eligible es = filter (\<lambda>e. ndisc_preference_rank (nd_pref e) \<noteq> -1) es"

definition nd_best :: "(in6_addr \<times> byte option) list \<Rightarrow> in6_addr option" where
  "nd_best es = (if nd_eligible es = [] then None else Some (rk_addr (Max (nd_key ` set (nd_eligible es)))))"

definition nd_sel_inv :: "(in6_addr \<times> byte option) list \<Rightarrow> in6_addr \<times> int \<Rightarrow> bool" where
  "nd_sel_inv es st \<longleftrightarrow> length (fst st) = 16 \<and>
     (if nd_eligible es = [] then st = (replicate 16 0, -1)
      else 0 \<le> snd st \<and> Router_key (snd st) (fst st) = Max (nd_key ` set (nd_eligible es)))"

lemma rank_range: "ndisc_preference_rank p = -1 \<or> 0 \<le> ndisc_preference_rank p"
  by (simp add: ndisc_preference_rank_def)

lemma memcmp_zeros: "0 \<le> memcmp a (replicate n 0)"
  by (induction a arbitrary: n) (case_tac n; simp)+

lemma nd_step_alt:
  assumes "length (fst st) = 16" and "length (fst e) = 16"
  shows "nd_step st e = (let rank = ndisc_preference_rank (nd_pref e) in
    if rank < snd st \<or> rank = snd st \<and> fst st \<le> fst e then st else (fst e, rank))"
  using assms by (cases st; cases e) (simp add: nd_step_def nd_pref_def Let_def memcmp_ge)

lemma nd_step_inv:
  assumes inv: "nd_sel_inv es st" and len: "length (fst e) = 16"
  shows "nd_sel_inv (es @ [e]) (nd_step st e)"
proof (cases "ndisc_preference_rank (nd_pref e) = -1")
  case True
  have "nd_step st e = st"
    using inv True memcmp_zeros [of "fst e" 16]
    by (auto simp: nd_step_def nd_sel_inv_def nd_pref_def Let_def split: prod.split if_splits)
  then show ?thesis
    using inv True by (simp add: nd_sel_inv_def nd_eligible_def)
next
  case False
  then have es: "nd_eligible (es @ [e]) = nd_eligible es @ [e]"
    and pos: "0 \<le> ndisc_preference_rank (nd_pref e)"
    using rank_range [of "nd_pref e"] by (auto simp: nd_eligible_def)
  show ?thesis
  proof (cases "nd_eligible es = []")
    case True
    then have "nd_step st e = (fst e, ndisc_preference_rank (nd_pref e))"
      using inv pos by (auto simp: nd_sel_inv_def nd_step_def nd_pref_def Let_def split: prod.split)
    then show ?thesis using True len pos by (simp add: nd_sel_inv_def es nd_key_def)
  next
    case False
    then have st: "length (fst st) = 16" "0 \<le> snd st"
      and m: "Max (nd_key ` set (nd_eligible es)) = Router_key (snd st) (fst st)"
      using inv by (simp_all add: nd_sel_inv_def)
    have "Max (nd_key ` set (nd_eligible es @ [e])) = max (nd_key e) (Router_key (snd st) (fst st))"
      using False m by (simp add: Max_insert)
    also have "\<dots> = (let st' = nd_step st e in Router_key (snd st') (fst st'))"
      using st(1) len
      by (auto simp: nd_step_alt Let_def max_def nd_key_def less_eq_router_key_def)
    finally show ?thesis
      using st len pos by (auto simp: nd_sel_inv_def es Let_def nd_step_alt)
  qed
qed

lemma foldl_nd_step:
  "\<forall>e \<in> set es. length (fst e) = 16 \<Longrightarrow> nd_sel_inv es (foldl nd_step (replicate 16 0, -1) es)"
proof (induction es rule: rev_induct)
  case Nil
  then show ?case by (simp add: nd_sel_inv_def nd_eligible_def)
next
  case (snoc e es)
  then show ?case by (simp add: nd_step_inv)
qed

lemma select_ndisc_best:
  assumes "\<forall>e \<in> set es. length (fst e) = 16"
  shows "dhcp4_select_ndisc_router es = nd_best es"
proof -
  obtain b rank where st: "foldl nd_step (replicate 16 0, -1) es = (b, rank)" by fastforce
  have inv: "nd_sel_inv es (b, rank)" using foldl_nd_step [OF assms] by (simp only: st)
  then have "rk_addr (Max (nd_key ` set (nd_eligible es))) = b" if "nd_eligible es \<noteq> []"
    using that by (metis fst_conv nd_sel_inv_def router_key.sel(2))
  then show ?thesis
    using inv
    by (auto simp: dhcp4_select_ndisc_router_def st nd_best_def nd_sel_inv_def split: if_splits)
qed

text \<open>The same routers as the FreeBSD daemon reads them off its kernel's list.\<close>

definition nd_entry :: "drouter \<Rightarrow> in6_addr \<times> byte option" where
  "nd_entry d = (d_addr d, Some (drop_bit 3 (d_flags d AND ND_RA_FLAG_RTPREF_MASK)))"

lemma rtpref_cases: "f AND ND_RA_FLAG_RTPREF_MASK \<in> {0x00, 0x08, 0x10, 0x18}"
proof -
  have "f AND 0x18 = (if bit f 3 then 0x08 else 0) OR (if bit f 4 then 0x10 else 0)"
  proof (rule bit_word_eqI)
    fix n
    assume "n < LENGTH(8)"
    then have "n \<in> {0, 1, 2, 3, 4, 5, 6, 7}" by auto
    then show "bit (f AND 0x18) n
        \<longleftrightarrow> bit ((if bit f 3 then 0x08 else 0) OR (if bit f 4 then 0x10 else 0) :: byte) n"
      by (elim insertE emptyE) (simp_all add: bit_simps)
  qed
  then show ?thesis by (auto simp: rtpref_defs)
qed

lemma nd_key_entry: "nd_key (nd_entry d) = drouter_key d"
proof -
  have "ndisc_preference_rank (drop_bit 3 w) = (if w = ND_RA_FLAG_RTPREF_HIGH then 2
      else if w = ND_RA_FLAG_RTPREF_MEDIUM then 1 else if w = ND_RA_FLAG_RTPREF_LOW then 0 else -1)"
    if "w \<in> {0x00, 0x08, 0x10, 0x18}" for w
    using that by (auto simp: ndisc_preference_rank_def rtpref_defs nd_pref_defs)
  from this [OF rtpref_cases [of "d_flags d"]] show ?thesis
    by (simp add: nd_key_def nd_entry_def nd_pref_def drouter_key_def pref_rank_def Let_def
        del: drop_bit_and)
qed

lemma nd_eligible_entries:
  "nd_eligible (map nd_entry ds) = map nd_entry (filter (\<lambda>d. pref_rank (d_flags d) \<noteq> -1) ds)"
proof -
  have "ndisc_preference_rank (nd_pref (nd_entry d)) = pref_rank (d_flags d)" for d
    using nd_key_entry [of d] by (simp add: nd_key_def drouter_key_def)
  then show ?thesis by (simp add: nd_eligible_def filter_map comp_def)
qed

text \<open>Both daemons choose the same router, unless all of them have the reserved preference.\<close>

lemma select_ndisc_freebsd:
  assumes "\<forall>d \<in> set ds. wf_drouter d"
  shows "dhcp4_select_ndisc_router (map nd_entry (candidates ifindex ds)) = best_router ifindex ds \<longleftrightarrow>
    (candidates ifindex ds \<noteq> [] \<longrightarrow> (\<exists>d \<in> set (candidates ifindex ds). pref_rank (d_flags d) \<noteq> -1))"
proof -
  let ?cs = "candidates ifindex ds"
  let ?good = "filter (\<lambda>d. pref_rank (d_flags d) \<noteq> -1) ?cs"
  have keys: "nd_key ` set (nd_eligible (map nd_entry ?cs)) = drouter_key ` set ?good"
    by (simp add: nd_eligible_entries image_image nd_key_entry)
  have best: "dhcp4_select_ndisc_router (map nd_entry ?cs)
      = (if ?good = [] then None else Some (rk_addr (Max (drouter_key ` set ?good))))"
    using assms keys
    by (subst select_ndisc_best)
      (auto simp: nd_best_def nd_eligible_entries nd_entry_def candidates_def wf_drouter_def)
  have "Max (drouter_key ` set ?cs) = Max (drouter_key ` set ?good)" if "?good \<noteq> []"
  proof (rule Max_eqI)
    have "Max (drouter_key ` set ?good) \<in> drouter_key ` set ?good"
      using that by (intro Max_in) (auto simp: filter_empty_conv)
    then show "Max (drouter_key ` set ?good) \<in> drouter_key ` set ?cs" by auto
    obtain g where g: "g \<in> set ?good" "Max (drouter_key ` set ?good) = drouter_key g"
      using \<open>Max (drouter_key ` set ?good) \<in> drouter_key ` set ?good\<close> by blast
    fix k
    assume "k \<in> drouter_key ` set ?cs"
    then obtain d where d: "d \<in> set ?cs" "k = drouter_key d" by blast
    show "k \<le> Max (drouter_key ` set ?good)"
    proof (cases "pref_rank (d_flags d) = -1")
      case True
      then show ?thesis
        using g d pref_rank_range [of "d_flags g"]
        by (auto simp: less_eq_router_key_def drouter_key_def)
    next
      case False
      then have "k \<in> drouter_key ` set ?good" using d by auto
      then show ?thesis by (intro Max_ge) auto
    qed
  qed simp
  then show ?thesis
    by (auto simp: best best_router_def filter_empty_conv)
qed

section \<open>What a request does\<close>

text \<open>
  networkd's own functions: looking changes nothing, memory can be had, and removing a route
  takes it off the manager's set, whatever it returns.
\<close>

definition nd_law :: "('k, 'x) nd_sys_scheme \<Rightarrow> bool" where
  "nd_law S \<longleftrightarrow> quiet (nd_uname S) \<and> quiet (nd_lease_address S) \<and> quiet (nd_lease_router S) \<and>
     quiet (nd_classless S) \<and> quiet (nd_route_new S) \<and> (\<forall>n. quiet (nd_realloc S n)) \<and>
     (\<forall>n k. fst (nd_realloc S n k)) \<and> (\<forall>k. 0 \<le> fst (nd_route_new S k)) \<and>
     (\<forall>r k. nd_routes S (snd (nd_remove S r k)) = removeAll r (nd_routes S k))"

lemma collect_stale_law:
  "nd_law S \<Longrightarrow> collect_stale S ifindex gw rs stale s = Some (Some (stale @ filter (nd_stale ifindex gw) rs), s)"
  by (induction rs arbitrary: stale) (simp_all add: run_simps bnd_def kcall_quiet nd_law_def)

definition removals :: "nd_event list \<Rightarrow> nd_route list" where
  "removals es = concat (map (\<lambda>e. case e of Nd_removed r _ \<Rightarrow> [r] | _ \<Rightarrow> []) es)"

lemma removals_simps [simp]:
  "removals [] = []" "removals (es @ fs) = removals es @ removals fs"
  "removals [Nd_removed r x] = [r]" "removals (Nd_removed r x # es) = r # removals es"
  "removals (Nd_using gw # es) = removals es" "removals (Nd_requested gw a x # es) = removals es"
  "removals (Nd_deferring # es) = removals es" "removals (Nd_unsupported # es) = removals es"
  by (simp_all add: removals_def)

lemma remove_all_law:
  assumes "nd_law S"
  shows "wp (remove_all S rs) (\<lambda>_ t. \<exists>k es. t = s\<lparr>kern := k, out := out s @ es\<rparr> \<and> removals es = rs \<and>
    length es = length rs \<and>
    nd_routes S k = filter (\<lambda>r. r \<notin> set rs) (nd_routes S (kern s))) s"
proof (induction rs arbitrary: s)
  case Nil
  then show ?case by (auto simp: wp_simps intro!: exI [of _ "kern s"])
next
  case (Cons r rs)
  let ?s = "s\<lparr>kern := snd (nd_remove S r (kern s)),
    out := out s @ [Nd_removed r (fst (nd_remove S r (kern s)))]\<rparr>"
  have "nd_routes S (kern ?s) = removeAll r (nd_routes S (kern s))"
    using assms by (simp add: nd_law_def)
  then have "wp (remove_all S rs) (\<lambda>_ t. \<exists>k es. t = s\<lparr>kern := k, out := out s @ es\<rparr> \<and> removals es = r # rs \<and>
      length es = Suc (length rs) \<and>
      nd_routes S k = filter (\<lambda>q. q \<notin> set (r # rs)) (nd_routes S (kern s))) ?s"
    by (intro wp_mono [OF Cons.IH [of ?s]])
      (auto simp: removeAll_filter_not_eq filter_filter conj_commute
        intro!: exI [of _ "Nd_removed r _ # _"] filter_cong)
  then show ?case by (simp add: wp_simps)
qed

lemma supported_law:
  assumes "nd_law S" and "nd_cached s < 0 \<longrightarrow> fst (nd_uname S (kern s)) \<noteq> None"
  shows "\<exists>c. kernel_supports_ipv4_via_ipv6 S s = Some (c \<noteq> 0, s\<lparr>nd_cached := c\<rparr>) \<and> 0 \<le> c"
  using assms
  by (auto simp: kernel_supports_ipv4_via_ipv6_def bnd_def run_simps kcall_quiet nd_law_def)

text \<open>
  A request whose router and lease address are known: the stale routes go, no other does, and
  one route by the router is requested.
\<close>

definition nd_requested :: "('k, 'x) nd_sys_scheme \<Rightarrow> in6_addr \<Rightarrow> in_addr \<Rightarrow> 'k nd_state \<Rightarrow> int \<Rightarrow> 'k nd_state \<Rightarrow> bool" where
  "nd_requested S gw address s r t \<longleftrightarrow> (\<exists>k es.
     nd_routes S k = filter (\<lambda>r. \<not> nd_stale (nd_ifindex s) gw r) (nd_routes S (kern s)) \<and>
     nd_request S gw address k = (r, kern t) \<and>
     removals es = filter (nd_stale (nd_ifindex s) gw) (nd_routes S (kern s)) \<and>
     length es = length (removals es) \<and>
     out t = out s @ es @ [Nd_using gw, Nd_requested gw address r])"

text \<open>
  Whether the kernel can have an IPv4 route by an IPv6 next hop: what an earlier call found, or
  on the first one what \<open>uname\<close> and the comparison of versions say.
\<close>

definition nd_supported :: "('k, 'x) nd_sys_scheme \<Rightarrow> 'k nd_state \<Rightarrow> bool" where
  "nd_supported S s \<longleftrightarrow>
     (if nd_cached s < 0
      then (\<exists>release. fst (nd_uname S (kern s)) = Some release \<and> 0 \<le> nd_strverscmp S release ''5.2'')
      else nd_cached s \<noteq> 0)"

lemma supports_cases:
  assumes "nd_law S" and "nd_cached s < 0 \<longrightarrow> fst (nd_uname S (kern s)) \<noteq> None"
  shows "\<exists>c. kernel_supports_ipv4_via_ipv6 S s = Some (nd_supported S s, s\<lparr>nd_cached := c\<rparr>)"
proof (cases "nd_cached s < 0")
  case True
  then obtain release where "fst (nd_uname S (kern s)) = Some release" using assms(2) by auto
  then show ?thesis
    using assms(1) True
    by (auto simp: kernel_supports_ipv4_via_ipv6_def nd_supported_def bnd_def run_simps kcall_quiet nd_law_def)
next
  case False
  then show ?thesis
    by (auto simp: kernel_supports_ipv4_via_ipv6_def nd_supported_def bnd_def run_simps
        intro!: exI [of _ "nd_cached s"])
qed

lemma request_law:
  assumes law: "nd_law S" and uname: "nd_cached s < 0 \<longrightarrow> fst (nd_uname S (kern s)) \<noteq> None"
    and ok: "nd_supported S s" and gw: "dhcp4_select_ndisc_router (nd_routers s) = Some gw"
    and address: "fst (nd_lease_address S (kern s)) = Inr address"
  shows "wp (dhcp4_request_ipv6_resolved_gateway S) (nd_requested S gw address s) s"
proof -
  obtain c where supported: "kernel_supports_ipv4_via_ipv6 S s = Some (True, s\<lparr>nd_cached := c\<rparr>)"
    using supports_cases [OF law uname] ok by auto
  let ?s = "s\<lparr>nd_cached := c\<rparr>"
  have quiet: "quiet (nd_lease_address S)" "quiet (nd_route_new S)"
    and new: "\<not> fst (nd_route_new S k) < 0" for k
    using law by (simp_all add: nd_law_def not_less)
  let ?stale = "filter (nd_stale (nd_ifindex s) gw) (nd_routes S (kern s))"
  let ?rest = "\<lambda>_. bnd (kcall (nd_route_new S)) (\<lambda>r. if r < 0 then ret r
      else bnd (emit (Nd_using gw)) (\<lambda>_. bnd (kcall (nd_request S gw address)) (\<lambda>r.
        bnd (emit (Nd_requested gw address r)) (\<lambda>_. ret r))))"
  have "wp (bnd (remove_all S ?stale) ?rest) (nd_requested S gw address s) ?s"
    unfolding wp_bnd [of "remove_all S ?stale"]
    by (rule wp_mono [OF remove_all_law [OF law]])
      (auto simp: wp_simps quiet new nd_requested_def intro!: exI prod_eqI filter_cong)
  moreover have "dhcp4_request_ipv6_resolved_gateway S s = bnd (remove_all S ?stale) ?rest ?s"
    by (simp add: dhcp4_request_ipv6_resolved_gateway_def bnd_def run_simps supported gw
        kcall_quiet quiet address collect_stale_law [OF law])
  ultimately show ?thesis by (simp only: wp_def)
qed

text \<open>On an older kernel a request only says so.\<close>

lemma request_unsupported:
  assumes "nd_law S" and "nd_cached s < 0 \<longrightarrow> fst (nd_uname S (kern s)) \<noteq> None"
    and "\<not> nd_supported S s"
  shows "wp (dhcp4_request_ipv6_resolved_gateway S)
    (\<lambda>r t. r = 0 \<and> kern t = kern s \<and> out t = out s @ [Nd_unsupported]) s"
proof -
  obtain c where "kernel_supports_ipv4_via_ipv6 S s = Some (False, s\<lparr>nd_cached := c\<rparr>)"
    using supports_cases [OF assms(1,2)] assms(3) by auto
  then show ?thesis
    by (simp add: dhcp4_request_ipv6_resolved_gateway_def wp_def bnd_def run_simps emit_def)
qed

text \<open>When the lease designates the IPv6-resolved gateway, as \<open>update\<close> decides it.\<close>

definition nd_designated :: "('k, 'x) nd_sys_scheme \<Rightarrow> 'k nd_state \<Rightarrow> bool" where
  "nd_designated S s \<longleftrightarrow> nd_lease s \<and> (\<exists>net. nd_net s = Some net \<and> dhcp_use_gateway net \<noteq> 0 \<and>
     dhcp_use_ipv6_resolved_gateway net \<and>
     \<not> (dhcp_use_routes net \<and> 0 < fst (nd_classless S (kern s)))) \<and>
     fst (nd_lease_router S (kern s)) = Inr [192, 0, 0, 11]"

text \<open>
  \<open>dhcp4_request_route\<close> adds routes by the requested next hop, if any, and drops none.
\<close>

definition nd_request_law :: "('k, 'x) nd_sys_scheme \<Rightarrow> bool" where
  "nd_request_law S \<longleftrightarrow> (\<forall>gw address k. \<exists>new. (\<forall>r \<in> set new. rt_gw r = gw) \<and>
     nd_routes S (snd (nd_request S gw address k)) = nd_routes S k @ new)"

text \<open>
  The link's IPv4 default routes of DHCPv4 by an IPv6 next hop, and what is left of the routes
  when these have been moved to \<open>gw\<close>.
\<close>

definition link_default :: "int \<Rightarrow> nd_route \<Rightarrow> bool" where
  "link_default ifindex r \<longleftrightarrow> rt_source r = Source_dhcp4 \<and> rt_ifindex r = ifindex \<and>
     rt_family r = 2 \<and> rt_dst_prefixlen r = 0 \<and> rt_nh_family r = 10"

definition nd_moved :: "int \<Rightarrow> in6_addr \<Rightarrow> nd_route list \<Rightarrow> nd_route list \<Rightarrow> bool" where
  "nd_moved ifindex gw old new \<longleftrightarrow>
     (\<forall>r \<in> set new. link_default ifindex r \<longrightarrow> rt_gw r = gw) \<and>
     (\<forall>r \<in> set old. \<not> link_default ifindex r \<or> rt_gw r = gw \<longrightarrow> r \<in> set new) \<and>
     (\<forall>r \<in> set new. r \<in> set old \<or> rt_gw r = gw)"

lemma nd_stale_link_default: "nd_stale ifindex gw r \<longleftrightarrow> link_default ifindex r \<and> rt_gw r \<noteq> gw"
  by (auto simp: nd_stale_def link_default_def AF_INET_def AF_INET6_def)

lemma requested_moved:
  assumes "nd_request_law S" and "nd_requested S gw address s r t"
  shows "nd_moved (nd_ifindex s) gw (nd_routes S (kern s)) (nd_routes S (kern t)) \<and>
    (\<exists>es. out t = out s @ es @ [Nd_using gw, Nd_requested gw address r])"
proof -
  obtain k es where k: "nd_routes S k = filter (\<lambda>r. \<not> nd_stale (nd_ifindex s) gw r) (nd_routes S (kern s))"
    "nd_request S gw address k = (r, kern t)"
    and out: "out t = out s @ es @ [Nd_using gw, Nd_requested gw address r]"
    using assms(2) by (auto simp: nd_requested_def)
  obtain new where new: "\<forall>r \<in> set new. rt_gw r = gw"
    "nd_routes S (snd (nd_request S gw address k)) = nd_routes S k @ new"
    using assms(1) unfolding nd_request_law_def by metis
  have "nd_moved (nd_ifindex s) gw (nd_routes S (kern s)) (nd_routes S (kern t))"
    using new k by (auto simp: nd_moved_def nd_stale_link_default)
  then show ?thesis using out by blast
qed

lemma update_law:
  assumes "nd_law S"
  shows "dhcp4_ipv6_resolved_gateway_update S s =
    (if nd_designated S s then dhcp4_request_ipv6_resolved_gateway S s else Some (0, s))"
  using assms
  by (auto simp: dhcp4_ipv6_resolved_gateway_update_def nd_designated_def bnd_def run_simps kcall_quiet
      nd_law_def dhcp4_router_is_ipv6_resolved_def DHCP4_GATEWAY_IPV6_RESOLVED_def
      split: option.split sum.split)

lemma request_defers:
  assumes "nd_law S" and "nd_cached s < 0 \<longrightarrow> fst (nd_uname S (kern s)) \<noteq> None"
    and "dhcp4_select_ndisc_router (nd_routers s) = None"
  shows "wp (dhcp4_request_ipv6_resolved_gateway S)
    (\<lambda>r t. r = 0 \<and> kern t = kern s \<and> (\<exists>e \<in> {Nd_deferring, Nd_unsupported}. out t = out s @ [e])) s"
proof -
  obtain c where "kernel_supports_ipv4_via_ipv6 S s = Some (c \<noteq> 0, s\<lparr>nd_cached := c\<rparr>)"
    using supported_law [OF assms(1,2)] by blast
  then show ?thesis
    using assms(3)
    by (simp add: dhcp4_request_ipv6_resolved_gateway_def wp_def bnd_def run_simps emit_def)
qed

end
