(* ===== verification/Networkd_Properties.thy ===== *)
theory Networkd_Properties
  imports Networkd_Gateway Freebsd_Fib
begin

text \<open>
  The properties of the systemd-networkd patch, with witnesses on a small network manager whose
  state is its set of routes.
\<close>

section \<open>A small network manager\<close>

definition nd_via :: "in6_addr \<Rightarrow> nd_route" where
  "nd_via gw = \<lparr>rt_source = Source_dhcp4, rt_ifindex = 2, rt_family = AF_INET, rt_dst_prefixlen = 0,
     rt_nh_family = AF_INET6, rt_gw = gw\<rparr>"

definition nd_demo :: "nd_route list nd_sys" where
  "nd_demo = \<lparr>nd_uname = (\<lambda>k. (Some ''6.1'', k)), nd_strverscmp = (\<lambda>_ _. 1),
     nd_lease_address = (\<lambda>k. (Inr [198, 51, 100, 7], k)),
     nd_lease_router = (\<lambda>k. (Inr [192, 0, 0, 11], k)),
     nd_classless = (\<lambda>k. (0, k)), nd_routes = id, nd_realloc = (\<lambda>_ k. (True, k)),
     nd_remove = (\<lambda>r k. (0, removeAll r k)), nd_route_new = (\<lambda>k. (0, k)),
     nd_request = (\<lambda>gw _ k. (0, k @ [nd_via gw]))\<rparr>"

definition nd_demo_addr :: "byte \<Rightarrow> in6_addr" where
  "nd_demo_addr n = [0xfe, 0x80, 0, 0, 0, 0, 0, 0, 0, 0, 0, 0, 0, 0, 0, n]"

definition nd_demo_state :: "(in6_addr \<times> byte option) list \<Rightarrow> nd_route list \<Rightarrow> nd_route list nd_state" where
  "nd_demo_state routers routes = \<lparr>kern = routes, files = (\<lambda>_. None), out = [], nd_cached = -1,
     nd_ifindex = 2, nd_lease = True,
     nd_net = Some \<lparr>dhcp_use_gateway = 1, dhcp_use_ipv6_resolved_gateway = True, dhcp_use_routes = True\<rparr>,
     nd_routers = routers\<rparr>"

lemma nd_demo_laws: "nd_law nd_demo" "nd_request_law nd_demo"
  by (auto simp: nd_law_def nd_request_law_def quiet_def nd_demo_def nd_via_def
      intro!: exI [of _ "[nd_via _]"])

lemma nd_demo_designated: "nd_designated nd_demo (nd_demo_state routers routes)"
  by (simp add: nd_designated_def nd_demo_def nd_demo_state_def)

section \<open>Properties\<close>

text \<open>
  C23: The patch chooses the router the FreeBSD daemon chooses on the same default router list,
  unless the list of the interface has routers of the reserved preference only: networkd then
  has none, FreeBSD takes one.
\<close>
theorem nd_selects_as_freebsd:
  assumes "\<forall>d \<in> set ds. wf_drouter d"
  shows "select_router_buf ifindex (enc_drlist ds)
      = Some (dhcp4_select_ndisc_router (map nd_entry (candidates ifindex ds)))
    \<longleftrightarrow> (candidates ifindex ds = [] \<or> (\<exists>d \<in> set (candidates ifindex ds). pref_rank (d_flags d) \<noteq> -1))"
  using select_ndisc_freebsd [OF assms, of ifindex] by (auto simp: select_router_buf_enc [OF assms])

text \<open>
  C24: When the lease designates the gateway and the NDisc list has an acceptable router, an
  update, the first one included, removes the link's DHCPv4 default routes by any other IPv6 next
  hop, keeps every other route, and requests one by the best router with the leased address as
  its source. It does so on a kernel that supports such routes, as \<open>uname\<close> said at the first
  update; on a kernel below 5.2 every update does nothing but say so.
\<close>
theorem nd_update_moves_route:
  assumes "nd_law S" and "nd_request_law S" and "nd_designated S s"
    and "nd_cached s < 0 \<longrightarrow> fst (nd_uname S (kern s)) \<noteq> None"
    and "\<forall>e \<in> set (nd_routers s). length (fst e) = 16" and "nd_best (nd_routers s) = Some gw"
    and "fst (nd_lease_address S (kern s)) = Inr address"
  shows "wp (dhcp4_ipv6_resolved_gateway_update S) (\<lambda>r t.
    if nd_supported S s
    then nd_moved (nd_ifindex s) gw (nd_routes S (kern s)) (nd_routes S (kern t)) \<and>
      (\<exists>es. out t = out s @ es @ [Nd_using gw, Nd_requested gw address r])
    else r = 0 \<and> kern t = kern s \<and> out t = out s @ [Nd_unsupported]) s"
proof (cases "nd_supported S s")
  case True
  then have "wp (dhcp4_request_ipv6_resolved_gateway S) (nd_requested S gw address s) s"
    using assms by (intro request_law) (simp_all add: select_ndisc_best)
  then have "wp (dhcp4_request_ipv6_resolved_gateway S) (\<lambda>r t.
      nd_moved (nd_ifindex s) gw (nd_routes S (kern s)) (nd_routes S (kern t)) \<and>
      (\<exists>es. out t = out s @ es @ [Nd_using gw, Nd_requested gw address r])) s"
    by (rule wp_mono) (rule requested_moved [OF assms(2)])
  then show ?thesis
    using True by (simp add: wp_def update_law [OF assms(1)] assms(3))
next
  case False
  then show ?thesis
    using request_unsupported [OF assms(1,4) False]
    by (simp add: wp_def update_law [OF assms(1)] assms(3))
qed

text \<open>
  C25: An update changes no route when the lease does not designate the gateway, and none either
  when no acceptable router is known: a default route by a router that has expired stays.
\<close>
theorem nd_update_defers:
  assumes "nd_law S" and "nd_cached s < 0 \<longrightarrow> fst (nd_uname S (kern s)) \<noteq> None"
    and "\<forall>e \<in> set (nd_routers s). length (fst e) = 16"
    and "\<not> nd_designated S s \<or> nd_best (nd_routers s) = None"
  shows "wp (dhcp4_ipv6_resolved_gateway_update S) (\<lambda>r t. r = 0 \<and> kern t = kern s \<and>
    (if nd_designated S s then \<exists>e \<in> {Nd_deferring, Nd_unsupported}. out t = out s @ [e] else t = s)) s"
proof (cases "nd_designated S s")
  case True
  then have "dhcp4_select_ndisc_router (nd_routers s) = None"
    using assms by (simp add: select_ndisc_best)
  then show ?thesis
    using request_defers [OF assms(1,2)] True by (simp add: wp_def update_law [OF assms(1)])
next
  case False
  then show ?thesis by (simp add: wp_def update_law [OF assms(1)])
qed

section \<open>Witnesses\<close>

theorem nd_selects_as_freebsd_witness:
  "select_router_buf 1 (enc_drlist [demo_router 9 0x10]) \<noteq> Some (dhcp4_select_ndisc_router [nd_entry (demo_router 9 0x10)])"
proof -
  have "candidates 1 [demo_router 9 0x10] = [demo_router 9 0x10]"
    by (simp add: candidates_def)
  moreover have "wf_drouter (demo_router 9 0x10)" and "pref_rank (d_flags (demo_router 9 0x10)) = -1"
    by (simp_all add: wf_drouter_def demo_router_def pref_rank_def rtpref_defs)
  ultimately show ?thesis
    using nd_selects_as_freebsd [of "[demo_router 9 0x10]" 1] by simp
qed

theorem nd_update_moves_route_witness:
  "wp (dhcp4_ipv6_resolved_gateway_update nd_demo) (\<lambda>r t.
     nd_via (nd_demo_addr 9) \<notin> set (kern t))
    (nd_demo_state [(nd_demo_addr 9, Some 0), (nd_demo_addr 3, None)] [nd_via (nd_demo_addr 9)])"
proof -
  let ?s = "nd_demo_state [(nd_demo_addr 9, Some 0), (nd_demo_addr 3, None)] [nd_via (nd_demo_addr 9)]"
  have best: "nd_best (nd_routers ?s) = Some (nd_demo_addr 3)"
    by (simp add: nd_demo_state_def nd_best_def nd_eligible_def nd_key_def nd_pref_def nd_pref_defs
        ndisc_preference_rank_def nd_demo_addr_def max_def less_eq_router_key_def)
  have "wp (dhcp4_ipv6_resolved_gateway_update nd_demo) (\<lambda>r t.
      nd_moved 2 (nd_demo_addr 3) [nd_via (nd_demo_addr 9)] (kern t) \<and>
      (\<exists>es. out t = es @ [Nd_using (nd_demo_addr 3), Nd_requested (nd_demo_addr 3) [198, 51, 100, 7] r])) ?s"
    using nd_update_moves_route [OF nd_demo_laws nd_demo_designated _ _ best, of "[198, 51, 100, 7]"]
    by (simp add: nd_demo_def nd_demo_state_def nd_demo_addr_def nd_supported_def)
  then show ?thesis
    by (rule wp_mono) (auto simp: nd_moved_def link_default_def nd_via_def nd_demo_addr_def AF_INET_def AF_INET6_def)
qed

theorem nd_update_defers_witness:
  "wp (dhcp4_ipv6_resolved_gateway_update nd_demo) (\<lambda>r t. kern t = [nd_via (nd_demo_addr 9)])
    (nd_demo_state [] [nd_via (nd_demo_addr 9)])"
  using nd_update_defers [OF nd_demo_laws(1), of "nd_demo_state [] [nd_via (nd_demo_addr 9)]"]
  by (rule wp_mono) (simp_all add: nd_demo_def nd_demo_state_def nd_best_def nd_eligible_def)

end
