(* ===== verification/Python_Os.thy ===== *)
theory Python_Os
  imports V4_Prelude "HOL-Library.AList"
begin

text \<open>
  What the two Python daemons share. Their calls of pyroute2 and of the operating system return
  a value or raise an exception; \<open>attempt\<close> is a call whose exception the code looks at, and
  \<open>must\<close> one whose exception nothing catches, which ends the program. A \<open>prog\<close> that is \<open>None\<close>
  is such an end.

  A Python dictionary keeps the order in which its keys were first inserted: it is an
  association list with \<open>AList.update\<close>, which replaces in place or appends, and \<open>AList.delete\<close>.
\<close>

datatype py_exn = Netlink_error int | Os_error

definition must :: "('k \<Rightarrow> (py_exn + 'a) \<times> 'k) \<Rightarrow> (('k, 'e, 'z) os_state_scheme, 'a) prog" where
  "must f = bnd (kcall f) (\<lambda>r. case r of Inl e \<Rightarrow> (\<lambda>_. None) | Inr x \<Rightarrow> ret x)"

text \<open>\<open>try: x = f() except NetlinkError as e\<close>: other exceptions pass.\<close>

definition attempt :: "('k \<Rightarrow> (py_exn + 'a) \<times> 'k) \<Rightarrow> (('k, 'e, 'z) os_state_scheme, int + 'a) prog" where
  "attempt f = bnd (kcall f) (\<lambda>r. case r of
      Inl (Netlink_error c) \<Rightarrow> ret (Inl c)
    | Inl Os_error \<Rightarrow> (\<lambda>_. None)
    | Inr x \<Rightarrow> ret (Inr x))"

text \<open>\<open>try: x = f() except OSError\<close>\<close>

definition attempt_os :: "('k \<Rightarrow> (py_exn + 'a) \<times> 'k) \<Rightarrow> (('k, 'e, 'z) os_state_scheme, 'a option) prog" where
  "attempt_os f = bnd (kcall f) (\<lambda>r. case r of
      Inl (Netlink_error c) \<Rightarrow> (\<lambda>_. None)
    | Inl Os_error \<Rightarrow> ret None
    | Inr x \<Rightarrow> ret (Some x))"

text \<open>Which exceptions a call may raise.\<close>

definition total_call :: "('k \<Rightarrow> (py_exn + 'a) \<times> 'k) \<Rightarrow> bool" where
  "total_call f \<longleftrightarrow> (\<forall>k e. fst (f k) \<noteq> Inl e)"

definition netlink_call :: "('k \<Rightarrow> (py_exn + 'a) \<times> 'k) \<Rightarrow> bool" where
  "netlink_call f \<longleftrightarrow> (\<forall>k. fst (f k) \<noteq> Inl Os_error)"

definition os_call :: "('k \<Rightarrow> (py_exn + 'a) \<times> 'k) \<Rightarrow> bool" where
  "os_call f \<longleftrightarrow> (\<forall>k c. fst (f k) \<noteq> Inl (Netlink_error c))"

lemma wlp_must [wp_simps]: "wlp (must f) Q s = (case f (kern s) of
    (Inl e, k) \<Rightarrow> True | (Inr x, k) \<Rightarrow> Q x (s\<lparr>kern := k\<rparr>))"
  by (simp add: must_def wlp_def bnd_def kcall_def ret_def split: prod.split sum.split)

lemma wlp_attempt [wp_simps]: "wlp (attempt f) Q s = (case f (kern s) of
    (Inl (Netlink_error c), k) \<Rightarrow> Q (Inl c) (s\<lparr>kern := k\<rparr>)
  | (Inl Os_error, k) \<Rightarrow> True
  | (Inr x, k) \<Rightarrow> Q (Inr x) (s\<lparr>kern := k\<rparr>))"
  by (simp add: attempt_def wlp_def bnd_def kcall_def ret_def split: prod.split sum.split py_exn.split)

lemma wp_attempt [wp_simps]: "wp (attempt f) Q s = (case fst (f (kern s)) of
    Inl (Netlink_error c) \<Rightarrow> Q (Inl c) (s\<lparr>kern := snd (f (kern s))\<rparr>)
  | Inl Os_error \<Rightarrow> False
  | Inr x \<Rightarrow> Q (Inr x) (s\<lparr>kern := snd (f (kern s))\<rparr>))"
  by (simp add: attempt_def wp_def bnd_def kcall_def ret_def split: prod.split sum.split py_exn.split)

lemma wlp_attempt_os [wp_simps]: "wlp (attempt_os f) Q s = (case f (kern s) of
    (Inl (Netlink_error c), k) \<Rightarrow> True
  | (Inl Os_error, k) \<Rightarrow> Q None (s\<lparr>kern := k\<rparr>)
  | (Inr x, k) \<Rightarrow> Q (Some x) (s\<lparr>kern := k\<rparr>))"
  by (simp add: attempt_os_def wlp_def bnd_def kcall_def ret_def split: prod.split sum.split py_exn.split)

lemma kern_only_fault [frame_intros]: "kern_only (\<lambda>_. None)"
  by (simp add: kern_only_def)

lemma kern_only_calls [frame_intros]:
  "kern_only (must f)" "kern_only (attempt f)" "kern_only (attempt_os f)"
  unfolding must_def attempt_def attempt_os_def
  by (auto intro!: kern_only_bnd kern_only_kcall kern_only_ret kern_only_fault
      split: sum.split py_exn.split)

lemma safe_must [safe_intros]: "total_call f \<Longrightarrow> safe (must f)"
  by (auto simp: safe_def must_def total_call_def bnd_def kcall_def ret_def
      split: prod.split sum.split) (metis fst_conv)

lemma safe_attempt [safe_intros]: "netlink_call f \<Longrightarrow> safe (attempt f)"
  by (auto simp: safe_def attempt_def netlink_call_def bnd_def kcall_def ret_def
      split: prod.split sum.split py_exn.split) (metis fst_conv)

lemma safe_attempt_os [safe_intros]: "os_call f \<Longrightarrow> safe (attempt_os f)"
  by (auto simp: safe_def attempt_os_def os_call_def bnd_def kcall_def ret_def
      split: prod.split sum.split py_exn.split) (metis fst_conv)

lemma must_quiet: "quiet f \<Longrightarrow> fst (f (kern s)) = Inr x \<Longrightarrow> must f s = Some (x, s)"
  by (simp add: must_def bnd_def kcall_quiet ret_def)

lemma must_raises: "fst (f (kern s)) = Inl e \<Longrightarrow> must f s = None"
  by (auto simp: must_def bnd_def kcall_def split: prod.split)

lemma attempt_quiet: "quiet f \<Longrightarrow> netlink_call f \<Longrightarrow>
    attempt f s = Some (case fst (f (kern s)) of Inl e \<Rightarrow> Inl (case e of Netlink_error c \<Rightarrow> c) | Inr x \<Rightarrow> Inr x, s)"
  by (auto simp: attempt_def bnd_def kcall_quiet ret_def netlink_call_def split: sum.split py_exn.split)

end
