(* ===== verification/Linux_Daemon.thy ===== *)
theory Linux_Daemon
  imports Python_Os Daemon_Loop Entry_Keeper "HOL-Library.Product_Lexorder"
begin

text \<open>
  The Linux daemon (\<^verbatim>\<open>host/v4gwd.py\<close>), the reference implementation for hosts. On a kernel with
  \<open>RTA_VIA\<close> it keeps an IPv4 default route by the IPv6 address of the router, on an older one a
  permanent neighbor entry of the gateway address.

  A method of \<open>Interface\<close> is a \<open>prog\<close> over a state that holds the object as \<open>self\<close>;
  \<open>on_iface\<close> runs it on an entry of the daemon's dictionary. Addresses are the texts pyroute2
  passes on. pyroute2 and the sockets are the fields of \<open>lx_sys\<close>.
\<close>

section \<open>State\<close>

datatype lx_family = Inet | Inet6

record lx_route =
  r_dst_len :: nat
  r_proto :: "int option"
  r_oif :: "int option"
  r_gateway :: "string option"
  r_pref :: "int option"

record lx_neigh =
  nb_state :: u16
  nb_lladdr :: "string option"

record lx_link =
  l_type :: "int option"
  l_name :: "string option"

text \<open>A request with its interface and the error code the kernel refused it with.\<close>

datatype lx_event =
    Lx_route_replace string string "int option"
  | Lx_route_del string "int option"
  | Lx_neigh_replace string string "int option"
  | Lx_neigh_del string "int option"
  | Lx_log_via string string
  | Lx_log_via_failed string string int
  | Lx_log_pinned string string
  | Lx_log_pin_failed string string int
  | Lx_log_withdrew string string
  | Lx_log_withdraw_failed string int
  | Lx_log_starting bool

record lx_iface =
  i_name :: string
  i_metric :: int
  i_require_sentinel :: bool
  i_static_arp :: bool
  i_index :: "int option"
  i_via :: "string option"   \<comment> \<open>\<open>installed_via\<close>\<close>
  i_mac :: "string option"   \<comment> \<open>\<open>installed_mac\<close>\<close>

record 'k li_state = "('k, lx_event) os_state" +
  self :: lx_iface

datatype lx_fd = Fd_monitor | Fd_wakeup

record 'k lx_sys =
  lx_env_gateway :: "string option"       \<comment> \<open>the environment variable \<open>V4GW_GATEWAY\<close>\<close>
  lx_release :: string                    \<comment> \<open>\<open>os.uname().release\<close>\<close>
  lx_set_order :: "string list \<Rightarrow> string list"
    \<comment> \<open>the order in which the interpreter iterates over the set of these strings\<close>
  lx_get_links :: "'k \<Rightarrow> (py_exn + lx_link list) \<times> 'k"
  lx_link_lookup :: "string \<Rightarrow> 'k \<Rightarrow> (py_exn + int list) \<times> 'k"
  lx_get_routes :: "lx_family \<Rightarrow> 'k \<Rightarrow> (py_exn + lx_route list) \<times> 'k"
  lx_get_neighbours :: "lx_family \<Rightarrow> int option \<Rightarrow> string \<Rightarrow> 'k \<Rightarrow> (py_exn + lx_neigh list) \<times> 'k"
  lx_route_replace :: "int option \<Rightarrow> int \<Rightarrow> string \<Rightarrow> 'k \<Rightarrow> (py_exn + unit) \<times> 'k"
  lx_route_del :: "int option \<Rightarrow> int \<Rightarrow> 'k \<Rightarrow> (py_exn + unit) \<times> 'k"
  lx_neigh_replace :: "string \<Rightarrow> string \<Rightarrow> int option \<Rightarrow> 'k \<Rightarrow> (py_exn + unit) \<times> 'k"
  lx_neigh_del :: "string \<Rightarrow> int option \<Rightarrow> 'k \<Rightarrow> (py_exn + unit) \<times> 'k"
  lx_socket :: "'k \<Rightarrow> (py_exn + unit) \<times> 'k"
  lx_bind_to_device :: "string \<Rightarrow> 'k \<Rightarrow> (py_exn + unit) \<times> 'k"
  lx_sendto :: "string \<Rightarrow> 'k \<Rightarrow> (py_exn + unit) \<times> 'k"
  lx_poll :: "'k \<Rightarrow> (lx_fd list \<times> bool) \<times> 'k"
    \<comment> \<open>the ready descriptors, and whether a signal came while waiting\<close>
  lx_read_wakeup :: "'k \<Rightarrow> (py_exn + unit) \<times> 'k"
  lx_mon_get :: "'k \<Rightarrow> (py_exn + unit) \<times> 'k"

definition SENTINEL :: "('k, 'x) lx_sys_scheme \<Rightarrow> string" where
  "SENTINEL S = (case lx_env_gateway S of None \<Rightarrow> ''192.0.0.11'' | Some v \<Rightarrow> v)"

definition RT_PROTO :: int where "RT_PROTO = 199"
definition NUD_PERMANENT :: u16 where "NUD_PERMANENT = 0x80"

definition PREF_RANK :: "int option \<Rightarrow> int" where
  "PREF_RANK p = (case map_of [(1, 2), (0, 1), (3, 0)] (case p of None \<Rightarrow> -1 | Some q \<Rightarrow> q) of
     None \<Rightarrow> 1 | Some r \<Rightarrow> r)"

definition NUD_USABLE :: "u16 list" where
  "NUD_USABLE = [0x02, 0x04, 0x08, 0x10]"

text \<open>\<open>re.match(r"(\d+)\.(\d+)", release)\<close> and the comparison with (5, 2).\<close>

definition kernel_has_rta_via :: "string \<Rightarrow> bool" where
  "kernel_has_rta_via release =
     (let major = takeWhile is_digit release;
          rest = dropWhile is_digit release;
          minor = takeWhile is_digit (tl rest) in
      if major = [] \<or> rest = [] \<or> hd rest \<noteq> CHR ''.'' \<or> minor = [] then True
      else (5, 2) \<le> (dec_val major, dec_val minor))"

section \<open>What an interface reads\<close>

definition active :: "lx_iface \<Rightarrow> bool" where
  "active i \<longleftrightarrow> i_via i \<noteq> None \<or> i_mac i \<noteq> None"

definition resolve_index :: "('k, 'x) lx_sys_scheme \<Rightarrow> ('k li_state, int option) prog" where
  "resolve_index S =
     bnd (gets (\<lambda>s. i_name (self s))) (\<lambda>name.
     bnd (must (lx_link_lookup S name)) (\<lambda>links.
     let index = (case links of [] \<Rightarrow> None | l # _ \<Rightarrow> Some l) in
     bnd (modify (\<lambda>s. s\<lparr>self := (self s)\<lparr>i_index := index\<rparr>\<rparr>)) (\<lambda>_.
     ret index)))"

definition default_routes ::
    "('k, 'x) lx_sys_scheme \<Rightarrow> lx_family \<Rightarrow> ('k li_state, lx_route list) prog" where
  "default_routes S family =
     bnd (gets (\<lambda>s. i_index (self s))) (\<lambda>index.
     bnd (must (lx_get_routes S family)) (\<lambda>rs.
     ret (filter (\<lambda>r. \<not> (r_dst_len r \<noteq> 0) \<and> \<not> (r_oif r \<noteq> index)) rs)))"

definition sentinel_present :: "('k, 'x) lx_sys_scheme \<Rightarrow> ('k li_state, bool) prog" where
  "sentinel_present S =
     bnd (default_routes S Inet) (\<lambda>rs.
     ret (\<exists>r \<in> set rs. r_proto r \<noteq> Some RT_PROTO \<and> r_gateway r = Some (SENTINEL S)))"

definition nud_state :: "('k, 'x) lx_sys_scheme \<Rightarrow> string \<Rightarrow> ('k li_state, u16) prog" where
  "nud_state S gw =
     bnd (gets (\<lambda>s. i_index (self s))) (\<lambda>index.
     bnd (attempt (lx_get_neighbours S Inet6 index gw)) (\<lambda>r.
     ret (case r of Inr (n # _) \<Rightarrow> nb_state n | _ \<Rightarrow> 0)))"

definition lx_router_lladdr :: "('k, 'x) lx_sys_scheme \<Rightarrow> string \<Rightarrow> ('k li_state, string option) prog" where
  "lx_router_lladdr S gw =
     bnd (gets (\<lambda>s. i_index (self s))) (\<lambda>index.
     bnd (attempt (lx_get_neighbours S Inet6 index gw)) (\<lambda>r.
     ret (case r of Inr (n # _) \<Rightarrow> nb_lladdr n | _ \<Rightarrow> None)))"

text \<open>The loop of \<open>select_router\<close> over \<open>best\<close> and \<open>best_key\<close>.\<close>

fun lx_select_loop :: "('k, 'x) lx_sys_scheme \<Rightarrow> lx_route list \<Rightarrow> (string \<times> int \<times> int) option \<Rightarrow>
    ('k li_state, string option) prog" where
  "lx_select_loop S [] best = ret (map_option fst best)"
| "lx_select_loop S (r # rs) best =
     (case r_gateway r of
        None \<Rightarrow> lx_select_loop S rs best
      | Some gw \<Rightarrow>
          let pref = PREF_RANK (r_pref r) in
          bnd (nud_state S gw) (\<lambda>st.
          let key = (pref, if st = 0x02 then 1 else 0) in
          lx_select_loop S rs
            (case best of
               None \<Rightarrow> Some (gw, key)
             | Some (b, best_key) \<Rightarrow> if best_key \<le> key then Some (gw, key) else best)))"

definition lx_select_router :: "('k, 'x) lx_sys_scheme \<Rightarrow> ('k li_state, string option) prog" where
  "lx_select_router S = bnd (default_routes S Inet6) (\<lambda>rs. lx_select_loop S rs None)"

definition kick_nud :: "('k, 'x) lx_sys_scheme \<Rightarrow> string \<Rightarrow> ('k li_state, unit) prog" where
  "kick_nud S gw =
     bnd (gets (\<lambda>s. i_name (self s))) (\<lambda>name.
     bnd (attempt_os (lx_socket S)) (\<lambda>r. case r of None \<Rightarrow> ret () | Some _ \<Rightarrow>
     bnd (attempt_os (lx_bind_to_device S name)) (\<lambda>r. case r of None \<Rightarrow> ret () | Some _ \<Rightarrow>
     bnd (attempt_os (lx_sendto S gw)) (\<lambda>_.
     ret ()))))"

section \<open>What an interface changes\<close>

definition errcode :: "int + unit \<Rightarrow> int option" where
  "errcode r = (case r of Inl c \<Rightarrow> Some c | Inr _ \<Rightarrow> None)"

definition install_route :: "('k, 'x) lx_sys_scheme \<Rightarrow> string \<Rightarrow> ('k li_state, unit) prog" where
  "install_route S gw =
     bnd (gets self) (\<lambda>i.
     if i_via i = Some gw then ret ()
     else
       bnd (attempt (lx_route_replace S (i_index i) (i_metric i) gw)) (\<lambda>r.
       bnd (emit (Lx_route_replace (i_name i) gw (errcode r))) (\<lambda>_.
       case r of
         Inr _ \<Rightarrow>
           bnd (emit (Lx_log_via (i_name i) gw)) (\<lambda>_.
           modify (\<lambda>s. s\<lparr>self := (self s)\<lparr>i_via := Some gw\<rparr>\<rparr>))
       | Inl c \<Rightarrow> emit (Lx_log_via_failed (i_name i) gw c))))"

definition lx_neighbor_present :: "('k, 'x) lx_sys_scheme \<Rightarrow> string \<Rightarrow> ('k li_state, bool) prog" where
  "lx_neighbor_present S mac =
     bnd (gets (\<lambda>s. i_index (self s))) (\<lambda>index.
     bnd (attempt (lx_get_neighbours S Inet index (SENTINEL S))) (\<lambda>r.
     ret (case r of
            Inl _ \<Rightarrow> False
          | Inr ns \<Rightarrow> \<exists>n \<in> set ns. nb_state n AND NUD_PERMANENT \<noteq> 0 \<and> nb_lladdr n = Some mac)))"

definition pin_neighbor :: "('k, 'x) lx_sys_scheme \<Rightarrow> string \<Rightarrow> ('k li_state, unit) prog" where
  "pin_neighbor S gw =
     bnd (lx_router_lladdr S gw) (\<lambda>r.
     case r of
       None \<Rightarrow> ret ()
     | Some mac \<Rightarrow>
         bnd (gets self) (\<lambda>i.
         bnd (if i_mac i = Some mac then lx_neighbor_present S mac else ret False) (\<lambda>present.
         if present then ret ()
         else
           bnd (attempt (lx_neigh_replace S (SENTINEL S) mac (i_index i))) (\<lambda>r.
           bnd (emit (Lx_neigh_replace (i_name i) mac (errcode r))) (\<lambda>_.
           case r of
             Inr _ \<Rightarrow>
               bnd (emit (Lx_log_pinned (i_name i) mac)) (\<lambda>_.
               modify (\<lambda>s. s\<lparr>self := (self s)\<lparr>i_mac := Some mac\<rparr>\<rparr>))
           | Inl c \<Rightarrow> emit (Lx_log_pin_failed (i_name i) mac c))))))"

definition lx_install :: "('k, 'x) lx_sys_scheme \<Rightarrow> string \<Rightarrow> ('k li_state, unit) prog" where
  "lx_install S gw =
     bnd (gets (\<lambda>s. i_static_arp (self s))) (\<lambda>static.
     if static then pin_neighbor S gw else install_route S gw)"

definition E_ENOENT :: int where "E_ENOENT = 2"
definition E_ESRCH :: int where "E_ESRCH = 3"

definition lx_withdraw :: "('k, 'x) lx_sys_scheme \<Rightarrow> string \<Rightarrow> ('k li_state, unit) prog" where
  "lx_withdraw S reason =
     bnd (gets self) (\<lambda>i.
     if i_static_arp i then
       if i_mac i = None then ret ()
       else
         bnd (attempt (lx_neigh_del S (SENTINEL S) (i_index i))) (\<lambda>r.
         bnd (emit (Lx_neigh_del (i_name i) (errcode r))) (\<lambda>_.
         bnd (case r of
                Inr _ \<Rightarrow> emit (Lx_log_withdrew (i_name i) reason)
              | Inl c \<Rightarrow>
                  if c \<noteq> E_ENOENT \<and> c \<noteq> E_ESRCH then emit (Lx_log_withdraw_failed (i_name i) c)
                  else ret ()) (\<lambda>_.
         modify (\<lambda>s. s\<lparr>self := (self s)\<lparr>i_mac := None\<rparr>\<rparr>))))
     else
       bnd (attempt (lx_route_del S (i_index i) (i_metric i))) (\<lambda>r.
       bnd (emit (Lx_route_del (i_name i) (errcode r))) (\<lambda>_.
       bnd (case r of
              Inr _ \<Rightarrow> emit (Lx_log_withdrew (i_name i) reason)
            | Inl c \<Rightarrow>
                if c \<noteq> E_ESRCH then emit (Lx_log_withdraw_failed (i_name i) c) else ret ()) (\<lambda>_.
       modify (\<lambda>s. s\<lparr>self := (self s)\<lparr>i_via := None\<rparr>\<rparr>)))))"

definition lx_reconcile :: "('k, 'x) lx_sys_scheme \<Rightarrow> ('k li_state, unit) prog" where
  "lx_reconcile S =
     bnd (resolve_index S) (\<lambda>index.
     if index = None then
       modify (\<lambda>s. s\<lparr>self := (self s)\<lparr>i_via := None, i_mac := None\<rparr>\<rparr>)
     else
       bnd (gets (\<lambda>s. i_require_sentinel (self s))) (\<lambda>require.
       bnd (if require then sentinel_present S else ret True) (\<lambda>ok.
       if \<not> ok then
         bnd (gets (\<lambda>s. active (self s))) (\<lambda>act.
         if act then lx_withdraw S (''sentinel '' @ SENTINEL S @ '' removed; ceasing per s4'') else ret ())
       else
         bnd (lx_select_router S) (\<lambda>r.
         case r of
           None \<Rightarrow>
             bnd (gets (\<lambda>s. active (self s))) (\<lambda>act.
             if act then lx_withdraw S ''no IPv6 default router on interface'' else ret ())
         | Some gw \<Rightarrow>
             bnd (nud_state S gw) (\<lambda>state.
             bnd (if state \<notin> set NUD_USABLE then kick_nud S gw else ret ()) (\<lambda>_.
             lx_install S gw))))))"

section \<open>The daemon\<close>

record 'k lx_state = "('k, lx_event) os_state" +
  lx_running :: bool
  lx_ifaces :: "(string \<times> lx_iface) list"
  lx_args_interfaces :: "string list"
  lx_args_metric :: int
  lx_require :: bool
  lx_static :: bool

definition iface_state :: "'k lx_state \<Rightarrow> lx_iface \<Rightarrow> 'k li_state" where
  "iface_state s i = \<lparr>kern = kern s, files = files s, out = out s, self = i\<rparr>"

definition put_iface :: "string \<Rightarrow> 'k lx_state \<Rightarrow> 'k li_state \<Rightarrow> 'k lx_state" where
  "put_iface n s t = s\<lparr>kern := kern t, files := files t, out := out t,
     lx_ifaces := AList.update n (self t) (lx_ifaces s)\<rparr>"

definition on_iface :: "string \<Rightarrow> ('k li_state, unit) prog \<Rightarrow> ('k lx_state, unit) prog" where
  "on_iface n m = (\<lambda>s. case map_of (lx_ifaces s) n of
       None \<Rightarrow> None
     | Some i \<Rightarrow> (case m (iface_state s i) of
           None \<Rightarrow> None
         | Some (x, t) \<Rightarrow> Some (x, put_iface n s t)))"

definition ethernet_ifnames :: "('k, 'x) lx_sys_scheme \<Rightarrow> ('k lx_state, string list) prog" where
  "ethernet_ifnames S =
     bnd (must (lx_get_links S)) (\<lambda>links.
     ret (concat (map (\<lambda>l. if l_type l = Some 1
                          then (case l_name l of None \<Rightarrow> [] | Some n \<Rightarrow> if n = [] then [] else [n])
                          else []) links)))"

definition new_iface :: "string \<Rightarrow> 'k lx_state \<Rightarrow> lx_iface" where
  "new_iface n s = \<lparr>i_name = n, i_metric = lx_args_metric s, i_require_sentinel = lx_require s,
     i_static_arp = lx_static s, i_index = None, i_via = None, i_mac = None\<rparr>"

definition refresh :: "('k, 'x) lx_sys_scheme \<Rightarrow> ('k lx_state, unit) prog" where
  "refresh S =
     bnd (gets lx_args_interfaces) (\<lambda>given.
     bnd (if given = [] then ethernet_ifnames S else ret given) (\<lambda>names.
     for_each (lx_set_order S names) (\<lambda>n.
       modify (\<lambda>s. if n \<in> fst ` set (lx_ifaces s) then s
                   else s\<lparr>lx_ifaces := AList.update n (new_iface n s) (lx_ifaces s)\<rparr>))))"

definition reconcile_each :: "('k, 'x) lx_sys_scheme \<Rightarrow> ('k lx_state, unit) prog" where
  "reconcile_each S =
     bnd (gets (\<lambda>s. map fst (lx_ifaces s))) (\<lambda>ns.
     for_each ns (\<lambda>n. on_iface n (lx_reconcile S)))"

text \<open>One turn of the loop of \<open>serve\<close>; a signal may arrive while it waits.\<close>

definition drain :: "('k, 'x) lx_sys_scheme \<Rightarrow> lx_fd \<Rightarrow> ('k lx_state, unit) prog" where
  "drain S fd =
     (case fd of
        Fd_wakeup \<Rightarrow> must (lx_read_wakeup S)
      | Fd_monitor \<Rightarrow> bnd (attempt_os (lx_mon_get S)) (\<lambda>_. ret ()))"

definition lx_iter :: "('k, 'x) lx_sys_scheme \<Rightarrow> ('k lx_state, unit) prog" where
  "lx_iter S =
     bnd (kcall (lx_poll S)) (\<lambda>(fds, signalled).
     bnd (modify (\<lambda>s. if signalled then s\<lparr>lx_running := False\<rparr> else s)) (\<lambda>_.
     bnd (for_each fds (drain S)) (\<lambda>_.
     bnd (gets lx_running) (\<lambda>running.
     if running then bnd (refresh S) (\<lambda>_. reconcile_each S) else ret ()))))"

definition lx_stop :: "('k, 'x) lx_sys_scheme \<Rightarrow> ('k lx_state, unit) prog" where
  "lx_stop S =
     bnd (gets (\<lambda>s. map fst (lx_ifaces s))) (\<lambda>ns.
     for_each ns (\<lambda>n. on_iface n
       (bnd (gets (\<lambda>s. active (self s))) (\<lambda>act.
        if act then lx_withdraw S ''daemon shutdown'' else ret ()))))"

definition stop_signal :: "'k lx_state \<Rightarrow> 'k lx_state" where
  "stop_signal s = s\<lparr>lx_running := False\<rparr>"

text \<open>\<open>main\<close> from the parsed arguments to the loop.\<close>

definition lx_init :: "'k \<Rightarrow> 'k lx_state" where
  "lx_init k = \<lparr>kern = k, files = (\<lambda>_. None), out = [], lx_running = True, lx_ifaces = [],
     lx_args_interfaces = [], lx_args_metric = 50, lx_require = True, lx_static = False\<rparr>"

definition lx_main :: "('k, 'x) lx_sys_scheme \<Rightarrow> string list \<Rightarrow> bool \<Rightarrow> int \<Rightarrow> ('k lx_state, unit) prog" where
  "lx_main S interfaces unconditional metric =
     bnd (modify (\<lambda>s. s\<lparr>lx_args_interfaces := interfaces, lx_args_metric := metric,
       lx_static := \<not> kernel_has_rta_via (lx_release S), lx_require := \<not> unconditional\<rparr>)) (\<lambda>_.
     bnd (gets lx_static) (\<lambda>static.
     bnd (emit (Lx_log_starting static)) (\<lambda>_.
     bnd (refresh S) (\<lambda>_.
     reconcile_each S))))"

inductive lx_env :: "'k lx_state \<Rightarrow> 'k lx_state \<Rightarrow> bool" where
  lx_kernel: "lx_env s (s\<lparr>kern := k\<rparr>)"
| lx_signal: "lx_env s (stop_signal s)"

end
