(* ===== verification/Linux_Pass.thy ===== *)
theory Linux_Pass
  imports Linux_Daemon
begin

text \<open>
  A pass of the Linux daemon over one interface: the router it selects, the decision it takes
  (\<open>lx_spec\<close>), and the invariant that ties what the object remembers to the requests the kernel
  accepted.
\<close>

section \<open>The selected router\<close>

text \<open>
  The loop keeps the last of the best: a route by a gateway counts with its preference and, among
  equals, with whether the gateway is reachable.
\<close>

definition lx_choice :: "(string \<times> int \<times> int) list \<Rightarrow> (string \<times> int \<times> int) option" where
  "lx_choice cs = (if cs = [] then None else Some (last (filter (\<lambda>c. snd c = Max (snd ` set cs)) cs)))"

definition lx_best_step ::
    "(string \<times> int \<times> int) option \<Rightarrow> string \<times> int \<times> int \<Rightarrow> (string \<times> int \<times> int) option" where
  "lx_best_step best c = (case best of
       None \<Rightarrow> Some c
     | Some b \<Rightarrow> if snd b \<le> snd c then Some c else best)"

lemma lx_choice_max: "cs \<noteq> [] \<Longrightarrow> filter (\<lambda>c. snd c = Max (snd ` set cs)) cs \<noteq> []"
proof -
  assume "cs \<noteq> []"
  then have "Max (snd ` set cs) \<in> snd ` set cs" by (intro Max_in) auto
  then show ?thesis by (force simp: filter_empty_conv)
qed

lemma lx_choice_snoc: "lx_best_step (lx_choice cs) c = lx_choice (cs @ [c])"
proof (cases "cs = []")
  case False
  let ?m = "Max (snd ` set cs)" and ?bs = "filter (\<lambda>d. snd d = Max (snd ` set cs)) cs"
  have bs: "?bs \<noteq> []" using False by (rule lx_choice_max)
  have m: "Max (snd ` set (cs @ [c])) = max (snd c) ?m"
    using False by (simp add: Max_insert)
  have key: "snd (last ?bs) = ?m"
    using last_in_set [OF bs] by simp
  show ?thesis
  proof (cases "?m \<le> snd c")
    case True
    then show ?thesis
      using False key by (simp add: lx_choice_def lx_best_step_def m max_absorb1 del: set_append)
  next
    case less: False
    then have m': "Max (snd ` set (cs @ [c])) = ?m" and ne: "snd c \<noteq> ?m"
      using m by (auto simp: max_def simp del: set_append)
    have "filter (\<lambda>d. snd d = ?m) (cs @ [c]) = ?bs"
      using ne by simp
    then show ?thesis
      using False key less
      by (simp add: lx_choice_def lx_best_step_def m' del: set_append Max_less_iff Max_le_iff filter_append)
  qed
qed (simp add: lx_choice_def lx_best_step_def)

lemma foldl_lx_best: "foldl lx_best_step None cs = lx_choice cs"
proof (induction cs rule: rev_induct)
  case Nil
  then show ?case by (simp add: lx_choice_def)
next
  case (snoc c cs)
  then show ?case by (simp add: lx_choice_snoc)
qed

text \<open>The last of the best: none before it is better, every one after it is worse.\<close>

lemma lx_choice_Some:
  assumes "lx_choice cs = Some c"
  shows "\<exists>pre post. cs = pre @ c # post \<and> (\<forall>d \<in> set pre. snd d \<le> snd c) \<and> (\<forall>d \<in> set post. snd d < snd c)"
  using assms
proof (induction cs arbitrary: c rule: rev_induct)
  case (snoc d cs)
  then have d: "lx_best_step (lx_choice cs) d = Some c" by (simp add: lx_choice_snoc)
  show ?case
  proof (cases "lx_choice cs")
    case None
    then have "cs = []" and "c = d" using d by (simp_all add: lx_choice_def lx_best_step_def split: if_splits)
    then show ?thesis by (intro exI [of _ "[]"]) simp
  next
    case (Some b)
    then obtain pre post where b: "cs = pre @ b # post" "\<forall>d \<in> set pre. snd d \<le> snd b"
      "\<forall>d \<in> set post. snd d < snd b"
      using snoc.IH by blast
    show ?thesis
    proof (cases "snd b \<le> snd d")
      case True
      then have "c = d" using d Some by (simp add: lx_best_step_def)
      moreover have "\<forall>e \<in> set cs. snd e \<le> snd d"
        using b True by (auto intro: order_trans less_imp_le)
      ultimately show ?thesis by (intro exI [of _ cs] exI [of _ "[]"]) simp
    next
      case False
      then have "c = b" using d Some by (simp add: lx_best_step_def)
      then show ?thesis
        using b False by (intro exI [of _ pre] exI [of _ "post @ [d]"]) auto
    qed
  qed
qed (simp add: lx_choice_def)

lemma lx_choice_None: "lx_choice cs = None \<longleftrightarrow> cs = []"
  by (simp add: lx_choice_def)

section \<open>What the tables show\<close>

text \<open>
  \<open>w_routes4\<close> and \<open>w_routes6\<close> are the routing tables as dumped, \<open>w_nud\<close> and \<open>w_lladdr\<close> the state
  and the link-layer address of an IPv6 neighbor of the interface.
\<close>

record lx_view =
  w_index :: "int option"
  w_routes4 :: "lx_route list"
  w_routes6 :: "lx_route list"
  w_nud :: "string \<Rightarrow> u16"
  w_lladdr :: "string \<Rightarrow> string option"

definition is_default :: "int option \<Rightarrow> lx_route \<Rightarrow> bool" where
  "is_default index r \<longleftrightarrow> r_dst_len r = 0 \<and> r_oif r = index"

fun lx_candidate :: "(string \<Rightarrow> u16) \<Rightarrow> lx_route \<Rightarrow> (string \<times> int \<times> int) list" where
  "lx_candidate nud r = (case r_gateway r of
       None \<Rightarrow> []
     | Some gw \<Rightarrow> [(gw, PREF_RANK (r_pref r), if nud gw = 0x02 then 1 else 0)])"

definition lx_candidates :: "lx_view \<Rightarrow> (string \<times> int \<times> int) list" where
  "lx_candidates v = concat (map (lx_candidate (w_nud v)) (filter (is_default (w_index v)) (w_routes6 v)))"

definition lx_router :: "lx_view \<Rightarrow> string option" where
  "lx_router v = map_option fst (lx_choice (lx_candidates v))"

definition lx_sentinel :: "string \<Rightarrow> lx_view \<Rightarrow> bool" where
  "lx_sentinel sentinel v \<longleftrightarrow> (\<exists>r \<in> set (w_routes4 v). is_default (w_index v) r \<and>
     r_proto r \<noteq> Some RT_PROTO \<and> r_gateway r = Some sentinel)"

text \<open>Pinning carries whether the router is to be solicited first.\<close>

type_synonym lx_decision = "(string, bool) decision"

definition lx_spec :: "string \<Rightarrow> bool \<Rightarrow> lx_view \<Rightarrow> lx_decision" where
  "lx_spec sentinel require v =
     (if w_index v = None then Gone
      else if require \<and> \<not> lx_sentinel sentinel v
        then Cease (''sentinel '' @ sentinel @ '' removed; ceasing per s4'')
      else case lx_router v of
        None \<Rightarrow> Cease ''no IPv6 default router on interface''
      | Some gw \<Rightarrow> Pin gw (w_nud v gw \<notin> set NUD_USABLE))"

definition lx_quiet :: "('k, 'x) lx_sys_scheme \<Rightarrow> bool" where
  "lx_quiet S \<longleftrightarrow> (\<forall>n. quiet (lx_link_lookup S n)) \<and> (\<forall>f. quiet (lx_get_routes S f)) \<and>
     (\<forall>f i a. quiet (lx_get_neighbours S f i a) \<and> netlink_call (lx_get_neighbours S f i a))"

definition lx_sees :: "('k, 'x) lx_sys_scheme \<Rightarrow> string \<Rightarrow> 'k \<Rightarrow> lx_view \<Rightarrow> bool" where
  "lx_sees S n k v \<longleftrightarrow>
     (\<exists>ls. fst (lx_link_lookup S n k) = Inr ls \<and> w_index v = (case ls of [] \<Rightarrow> None | l # _ \<Rightarrow> Some l)) \<and>
     fst (lx_get_routes S Inet k) = Inr (w_routes4 v) \<and>
     fst (lx_get_routes S Inet6 k) = Inr (w_routes6 v) \<and>
     (\<forall>gw. w_nud v gw = (case fst (lx_get_neighbours S Inet6 (w_index v) gw k) of
        Inr (x # _) \<Rightarrow> nb_state x | _ \<Rightarrow> 0)) \<and>
     (\<forall>gw. w_lladdr v gw = (case fst (lx_get_neighbours S Inet6 (w_index v) gw k) of
        Inr (x # _) \<Rightarrow> nb_lladdr x | _ \<Rightarrow> None))"

section \<open>Observing, then acting\<close>

definition lx_forget :: "('k li_state, unit) prog" where
  "lx_forget = modify (\<lambda>s. s\<lparr>self := (self s)\<lparr>i_via := None, i_mac := None\<rparr>\<rparr>)"

definition lx_cease :: "('k, 'x) lx_sys_scheme \<Rightarrow> string \<Rightarrow> ('k li_state, unit) prog" where
  "lx_cease S reason =
     bnd (gets (\<lambda>s. active (self s))) (\<lambda>act. if act then lx_withdraw S reason else ret ())"

definition lx_pin :: "('k, 'x) lx_sys_scheme \<Rightarrow> string \<Rightarrow> bool \<Rightarrow> ('k li_state, unit) prog" where
  "lx_pin S gw kick = bnd (if kick then kick_nud S gw else ret ()) (\<lambda>_. lx_install S gw)"

abbreviation lx_act :: "('k, 'x) lx_sys_scheme \<Rightarrow> lx_decision \<Rightarrow> ('k li_state, unit) prog" where
  "lx_act S \<equiv> carry_out lx_forget (lx_cease S) (lx_pin S)"

definition lx_decide :: "('k, 'x) lx_sys_scheme \<Rightarrow> ('k li_state, lx_decision) prog" where
  "lx_decide S =
     bnd (resolve_index S) (\<lambda>index.
     if index = None then ret Gone
     else
       bnd (gets (\<lambda>s. i_require_sentinel (self s))) (\<lambda>require.
       bnd (if require then sentinel_present S else ret True) (\<lambda>ok.
       if \<not> ok then ret (Cease (''sentinel '' @ SENTINEL S @ '' removed; ceasing per s4''))
       else
         bnd (lx_select_router S) (\<lambda>r.
         case r of
           None \<Rightarrow> ret (Cease ''no IPv6 default router on interface'')
         | Some gw \<Rightarrow>
             bnd (nud_state S gw) (\<lambda>state. ret (Pin gw (state \<notin> set NUD_USABLE)))))))"

lemma lx_reconcile_split: "lx_reconcile S = bnd (lx_decide S) (lx_act S)"
  unfolding lx_reconcile_def lx_decide_def
  by (simp add: bnd_simps bnd_ret lx_forget_def lx_cease_def lx_pin_def cong: if_cong option.case_cong)

lemma default_routes_quiet:
  assumes "lx_quiet S" and "fst (lx_get_routes S f (kern s)) = Inr rs"
  shows "default_routes S f s = Some (filter (is_default (i_index (self s))) rs, s)"
proof -
  have "must (lx_get_routes S f) s = Some (rs, s)"
    using assms by (intro must_quiet) (simp_all add: lx_quiet_def)
  then show ?thesis
    by (simp add: default_routes_def bnd_def run_simps is_default_def [abs_def])
qed

lemma nud_state_quiet:
  assumes "lx_quiet S"
  shows "nud_state S gw s = Some (case fst (lx_get_neighbours S Inet6 (i_index (self s)) gw (kern s)) of
    Inr (x # _) \<Rightarrow> nb_state x | _ \<Rightarrow> 0, s)"
  using assms
  by (simp add: nud_state_def bnd_def run_simps attempt_quiet lx_quiet_def split: sum.split)

lemma router_lladdr_quiet:
  assumes "lx_quiet S"
  shows "lx_router_lladdr S gw s = Some (case fst (lx_get_neighbours S Inet6 (i_index (self s)) gw (kern s)) of
    Inr (x # _) \<Rightarrow> nb_lladdr x | _ \<Rightarrow> None, s)"
  using assms
  by (simp add: lx_router_lladdr_def bnd_def run_simps attempt_quiet lx_quiet_def split: sum.split)

lemma lx_select_loop_quiet:
  assumes q: "lx_quiet S" and sees: "lx_sees S n (kern s) v" and index: "i_index (self s) = w_index v"
  shows "lx_select_loop S rs best s
    = Some (map_option fst (foldl lx_best_step best (concat (map (lx_candidate (w_nud v)) rs))), s)"
proof (induction rs arbitrary: best)
  case Nil
  then show ?case by (simp add: ret_def)
next
  case (Cons r rs)
  have nud: "nud_state S gw s = Some (w_nud v gw, s)" for gw
    using sees by (simp add: nud_state_quiet [OF q] index lx_sees_def)
  show ?case
    by (simp add: Cons.IH bnd_def nud Let_def lx_best_step_def split: option.split)
qed

lemma lx_decide_quiet:
  assumes q: "lx_quiet S" and sees: "lx_sees S (i_name (self s)) (kern s) v"
  shows "lx_decide S s = Some (lx_spec (SENTINEL S) (i_require_sentinel (self s)) v,
    s\<lparr>self := (self s)\<lparr>i_index := w_index v\<rparr>\<rparr>)"
proof -
  let ?s = "s\<lparr>self := (self s)\<lparr>i_index := w_index v\<rparr>\<rparr>"
  obtain ls where ls: "fst (lx_link_lookup S (i_name (self s)) (kern s)) = Inr ls"
    and index: "w_index v = (case ls of [] \<Rightarrow> None | l # _ \<Rightarrow> Some l)"
    using sees by (auto simp: lx_sees_def)
  have "must (lx_link_lookup S (i_name (self s))) s = Some (ls, s)"
    using q ls by (intro must_quiet) (simp_all add: lx_quiet_def)
  then have resolve: "resolve_index S s = Some (w_index v, ?s)"
    by (simp add: resolve_index_def bnd_def run_simps index [symmetric] Let_def)
  have sees': "lx_sees S (i_name (self s)) (kern ?s) v" using sees by simp
  have defaults: "default_routes S Inet ?s = Some (filter (is_default (w_index v)) (w_routes4 v), ?s)"
    "default_routes S Inet6 ?s = Some (filter (is_default (w_index v)) (w_routes6 v), ?s)"
    using default_routes_quiet [OF q, of Inet ?s] default_routes_quiet [OF q, of Inet6 ?s] sees
    by (simp_all add: lx_sees_def)
  have sentinel: "sentinel_present S ?s = Some (lx_sentinel (SENTINEL S) v, ?s)"
    by (auto simp: sentinel_present_def bnd_def defaults run_simps lx_sentinel_def)
  have router: "lx_select_router S ?s = Some (lx_router v, ?s)"
    using lx_select_loop_quiet [OF q sees', of _ None]
    by (simp add: lx_select_router_def bnd_def defaults lx_router_def lx_candidates_def foldl_lx_best)
  have nud: "nud_state S gw ?s = Some (w_nud v gw, ?s)" for gw
    using sees by (simp add: nud_state_quiet [OF q] lx_sees_def)
  show ?thesis
    by (simp add: lx_decide_def lx_spec_def bnd_def resolve run_simps sentinel router nud split: option.split)
qed

lemma lx_reconcile_spec:
  assumes "lx_quiet S" and "lx_sees S (i_name (self s)) (kern s) v"
  shows "lx_reconcile S s = lx_act S (lx_spec (SENTINEL S) (i_require_sentinel (self s)) v)
    (s\<lparr>self := (self s)\<lparr>i_index := w_index v\<rparr>\<rparr>)"
  by (simp add: lx_reconcile_split bnd_def lx_decide_quiet [OF assms])

text \<open>
  Of the IPv4 routes a pass reads only those of others: tables that differ in the daemon's own
  routes, as a dump does before and after an installation, call for the same.
\<close>

definition lx_foreign :: "lx_route \<Rightarrow> bool" where
  "lx_foreign r \<longleftrightarrow> r_proto r \<noteq> Some RT_PROTO"

definition lx_shows :: "('k, 'x) lx_sys_scheme \<Rightarrow> string \<Rightarrow> 'k \<Rightarrow> lx_view \<Rightarrow> bool" where
  "lx_shows S n k v \<longleftrightarrow> (\<exists>rs. lx_sees S n k (v\<lparr>w_routes4 := rs\<rparr>) \<and>
     filter lx_foreign rs = filter lx_foreign (w_routes4 v))"

lemma lx_sees_shows: "lx_sees S n k v \<Longrightarrow> lx_shows S n k v"
  unfolding lx_shows_def by (rule exI [of _ "w_routes4 v"]) simp

lemma lx_sentinel_foreign: "lx_sentinel sentinel v \<longleftrightarrow>
    (\<exists>r \<in> set (filter lx_foreign (w_routes4 v)). is_default (w_index v) r \<and> r_gateway r = Some sentinel)"
  by (auto simp: lx_sentinel_def lx_foreign_def)

lemma lx_spec_foreign:
  assumes "filter lx_foreign rs = filter lx_foreign (w_routes4 v)"
  shows "lx_spec sentinel require (v\<lparr>w_routes4 := rs\<rparr>) = lx_spec sentinel require v"
  using assms
  by (simp add: lx_spec_def lx_sentinel_foreign lx_router_def lx_candidates_def del: set_filter split: option.split)

lemma lx_reconcile_shows:
  assumes "lx_quiet S" and "lx_shows S (i_name (self s)) (kern s) v"
  shows "lx_reconcile S s = lx_act S (lx_spec (SENTINEL S) (i_require_sentinel (self s)) v)
    (s\<lparr>self := (self s)\<lparr>i_index := w_index v\<rparr>\<rparr>)"
  using assms lx_reconcile_spec [OF assms(1)] unfolding lx_shows_def
  by (force simp: lx_spec_foreign)

section \<open>What an interface remembers\<close>

text \<open>The gateway of the last route, the MAC of the last neighbor, the kernel took from interface \<open>n\<close>.\<close>

definition route_ev :: "string \<Rightarrow> string option \<Rightarrow> lx_event \<Rightarrow> string option" where
  "route_ev n cur e = (case e of
       Lx_route_replace m gw None \<Rightarrow> if m = n then Some gw else cur
     | Lx_route_del m None \<Rightarrow> if m = n then None else cur
     | _ \<Rightarrow> cur)"

definition neigh_ev :: "string \<Rightarrow> string option \<Rightarrow> lx_event \<Rightarrow> string option" where
  "neigh_ev n cur e = (case e of
       Lx_neigh_replace m mac None \<Rightarrow> if m = n then Some mac else cur
     | Lx_neigh_del m None \<Rightarrow> if m = n then None else cur
     | _ \<Rightarrow> cur)"

definition last_route :: "string \<Rightarrow> lx_event list \<Rightarrow> string option" where
  "last_route n es = foldl (route_ev n) None es"

definition last_neigh :: "string \<Rightarrow> lx_event list \<Rightarrow> string option" where
  "last_neigh n es = foldl (neigh_ev n) None es"

lemma last_hist_simps [simp]:
  "last_route n [] = None" "last_neigh n [] = None"
  "last_route n (es @ fs) = foldl (route_ev n) (last_route n es) fs"
  "last_neigh n (es @ fs) = foldl (neigh_ev n) (last_neigh n es) fs"
  by (simp_all add: last_route_def last_neigh_def)

text \<open>What the object remembers is what the kernel took last, in the one mode it works in.\<close>

definition iface_ok :: "lx_event list \<Rightarrow> lx_iface \<Rightarrow> bool" where
  "iface_ok es i \<longleftrightarrow>
     (\<forall>gw. i_via i = Some gw \<longrightarrow> \<not> i_static_arp i \<and> last_route (i_name i) es = Some gw) \<and>
     (\<forall>mac. i_mac i = Some mac \<longrightarrow> i_static_arp i \<and> last_neigh (i_name i) es = Some mac)"

text \<open>What a pass leaves alone: the settings, and the histories of the other interfaces.\<close>

definition li_left :: "'k li_state \<Rightarrow> 'k li_state \<Rightarrow> bool" where
  "li_left s t \<longleftrightarrow> i_name (self t) = i_name (self s) \<and> i_metric (self t) = i_metric (self s) \<and>
     i_static_arp (self t) = i_static_arp (self s) \<and>
     i_require_sentinel (self t) = i_require_sentinel (self s) \<and> files t = files s \<and>
     (\<forall>n. n \<noteq> i_name (self s) \<longrightarrow> last_route n (out t) = last_route n (out s) \<and>
       last_neigh n (out t) = last_neigh n (out s))"

definition li_step :: "'k li_state \<Rightarrow> 'k li_state \<Rightarrow> bool" where
  "li_step s t \<longleftrightarrow> li_left s t \<and> (iface_ok (out s) (self s) \<longrightarrow> iface_ok (out t) (self t))"

lemma li_step_trans: "li_step s t \<Longrightarrow> li_step t u \<Longrightarrow> li_step s u"
  by (simp add: li_step_def li_left_def)

lemma li_step_refl: "li_step s s"
  by (simp add: li_step_def li_left_def)

lemma kern_only_lx_reads [frame_intros]:
  "kern_only (nud_state S gw)" "kern_only (lx_router_lladdr S gw)" "kern_only (default_routes S f)"
  "kern_only (sentinel_present S)" "kern_only (lx_neighbor_present S mac)" "kern_only (kick_nud S gw)"
  unfolding nud_state_def lx_router_lladdr_def sentinel_present_def default_routes_def
    lx_neighbor_present_def kick_nud_def
  by (intro frame_intros)+

lemma kern_only_lx_select_loop [frame_intros]: "kern_only (lx_select_loop S rs best)"
  by (induction rs arbitrary: best)
    (auto simp: Let_def intro!: frame_intros split: option.split)

lemma kern_only_lx_select_router [frame_intros]: "kern_only (lx_select_router S)"
  unfolding lx_select_router_def by (intro frame_intros)

text \<open>Reading keeps the step, the index apart.\<close>

lemma wlp_lx_decide:
  fixes S :: "('k, 'x) lx_sys_scheme"
  assumes "\<And>d t. li_step s t \<Longrightarrow> out t = out s \<Longrightarrow> Q d t"
  shows "wlp (lx_decide S) Q s"
proof -
  have kern: "li_step s (s\<lparr>self := (self s)\<lparr>i_index := x\<rparr>, kern := k\<rparr>)" for k x
    by (simp add: li_step_def li_left_def iface_ok_def)
  have rest: "kern_only (if index = None then ret Gone
     else
       bnd (gets (\<lambda>s. i_require_sentinel (self s))) (\<lambda>require.
       bnd (if require then sentinel_present S else ret True) (\<lambda>ok.
       if \<not> ok then ret (Cease (''sentinel '' @ SENTINEL S @ '' removed; ceasing per s4''))
       else
         bnd (lx_select_router S) (\<lambda>r.
         case r of
           None \<Rightarrow> ret (Cease ''no IPv6 default router on interface'')
         | Some gw \<Rightarrow>
             bnd (nud_state S gw) (\<lambda>state. ret (Pin gw (state \<notin> set NUD_USABLE)))))))" for index
    by (intro frame_intros)
  have resolve: "wlp (resolve_index S) (\<lambda>x t. \<exists>k. t = s\<lparr>kern := k, self := (self s)\<lparr>i_index := x\<rparr>\<rparr>) s"
    by (auto simp: resolve_index_def wp_simps Let_def split: prod.split sum.split)
  show ?thesis
    unfolding lx_decide_def wlp_bnd [of "resolve_index S"]
    by (rule wlp_mono [OF resolve], elim exE, hypsubst, rule wlp_kern_only [OF rest], rule assms)
      (simp_all add: kern)
qed

text \<open>Every action keeps it; ceasing and forgetting leave nothing active.\<close>

lemma li_step_kern: "li_step s (s\<lparr>kern := k\<rparr>)"
  by (simp add: li_step_def li_left_def)

lemmas li_step_defs = li_step_def li_left_def iface_ok_def route_ev_def neigh_ev_def active_def

lemma install_route_step: "wlp (install_route S gw) (\<lambda>_. li_step s) s" if "\<not> i_static_arp (self s)"
  using that
  by (auto simp: install_route_def wp_simps errcode_def li_step_defs
      split: prod.split sum.split py_exn.split option.splits)

text \<open>\<open>pin_neighbor\<close> reads, then writes.\<close>

definition pin_write :: "('k, 'x) lx_sys_scheme \<Rightarrow> string \<Rightarrow> lx_iface \<Rightarrow> ('k li_state, unit) prog" where
  "pin_write S mac i =
     bnd (attempt (lx_neigh_replace S (SENTINEL S) mac (i_index i))) (\<lambda>r.
     bnd (emit (Lx_neigh_replace (i_name i) mac (errcode r))) (\<lambda>_.
     case r of
       Inr _ \<Rightarrow>
         bnd (emit (Lx_log_pinned (i_name i) mac)) (\<lambda>_.
         modify (\<lambda>s. s\<lparr>self := (self s)\<lparr>i_mac := Some mac\<rparr>\<rparr>))
     | Inl c \<Rightarrow> emit (Lx_log_pin_failed (i_name i) mac c)))"

lemma wlp_pin_neighbor:
  assumes "\<And>k. Q () (s\<lparr>kern := k\<rparr>)" and "\<And>mac k. wlp (pin_write S mac (self s)) Q (s\<lparr>kern := k\<rparr>)"
  shows "wlp (pin_neighbor S gw) Q s"
  unfolding pin_neighbor_def pin_write_def [symmetric] wlp_bnd [of "lx_router_lladdr S gw"]
proof (rule wlp_kern_only [OF kern_only_lx_reads(2)])
  fix r k
  show "wlp (case r of None \<Rightarrow> ret () | Some mac \<Rightarrow>
      bnd (gets self) (\<lambda>i.
      bnd (if i_mac i = Some mac then lx_neighbor_present S mac else ret False) (\<lambda>present.
      if present then ret () else pin_write S mac i))) Q (s\<lparr>kern := k\<rparr>)"
  proof (cases r)
    case (Some mac)
    show ?thesis
      unfolding Some option.case wlp_bnd wlp_gets
      by (rule wlp_kern_only [OF kern_only_if [OF kern_only_lx_reads(5) kern_only_ret]])
        (simp add: wlp_ret assms)
  qed (simp add: wlp_ret assms)
qed

lemma pin_neighbor_step:
  assumes "i_static_arp (self s)"
  shows "wlp (pin_neighbor S gw) (\<lambda>_. li_step s) s"
proof (rule wlp_pin_neighbor)
  show "wlp (pin_write S mac (self s)) (\<lambda>_. li_step s) (s\<lparr>kern := k\<rparr>)" for mac k
    using assms
    by (auto simp: pin_write_def wp_simps errcode_def li_step_defs
        split: prod.split sum.split py_exn.split option.splits)
qed (rule li_step_kern)

lemma lx_withdraw_step:
  "iface_ok (out s) (self s) \<Longrightarrow>
    wlp (lx_withdraw S reason) (\<lambda>_ t. li_step s t \<and> \<not> active (self t)) s"
  by (auto simp: lx_withdraw_def wp_simps errcode_def li_step_defs
      split: prod.split sum.split py_exn.split option.splits)

lemma lx_act_step:
  assumes "iface_ok (out s) (self s)"
  shows "wlp (lx_act S d) (\<lambda>_ t. li_step s t \<and> ((\<forall>gw kick. d \<noteq> Pin gw kick) \<longrightarrow> \<not> active (self t))) s"
proof (cases d)
  case Gone
  then show ?thesis by (simp add: lx_forget_def wp_simps li_step_defs)
next
  case (Cease reason)
  then show ?thesis
    by (simp add: lx_cease_def wp_simps li_step_refl lx_withdraw_step [OF assms])
next
  case (Pin gw kick)
  have "wlp (lx_install S gw) (\<lambda>_. li_step s) (s\<lparr>kern := k\<rparr>)" for k
    unfolding lx_install_def wlp_bnd wlp_gets wlp_if
    by (auto intro!: wlp_mono [OF install_route_step] wlp_mono [OF pin_neighbor_step]
        intro: li_step_trans [OF li_step_kern])
  then have "wlp (lx_pin S gw kick) (\<lambda>_. li_step s) s"
    unfolding lx_pin_def wlp_bnd
    by (intro wlp_kern_only [OF kern_only_if [OF kern_only_lx_reads(6) kern_only_ret]])
  then show ?thesis by (auto simp: Pin elim: wlp_mono)
qed

lemma lx_reconcile_step:
  assumes "iface_ok (out s) (self s)"
  shows "wlp (lx_reconcile S) (\<lambda>_. li_step s) s"
  unfolding lx_reconcile_split wlp_bnd
proof (rule wlp_lx_decide)
  fix d t
  assume t: "li_step s t" "out t = out s"
  then have "iface_ok (out t) (self t)" using assms by (simp add: li_step_def)
  then show "wlp (lx_act S d) (\<lambda>_. li_step s) t"
    by (rule wlp_mono [OF lx_act_step]) (use li_step_trans [OF t(1)] in blast)
qed

end
