(* ===== verification/Linux_Life.thy ===== *)
theory Linux_Life
  imports Linux_Pass
begin

text \<open>
  The Linux daemon as a whole: its invariant over the dictionary of interfaces, which every pass,
  every new interface and the shutdown keep, that no call ends it when the system raises no
  exception but those the code catches, and its life as a \<open>safe_daemon_loop\<close>.
\<close>

section \<open>An operation on one interface\<close>

lemma wlp_on_iface [wp_simps]:
  "wlp (on_iface n m) Q s = (case map_of (lx_ifaces s) n of
     None \<Rightarrow> True | Some i \<Rightarrow> wlp m (\<lambda>x t. Q x (put_iface n s t)) (iface_state s i))"
  by (auto simp: on_iface_def wlp_def split: option.split)

lemma wp_on_iface [wp_simps]:
  "wp (on_iface n m) Q s = (case map_of (lx_ifaces s) n of
     None \<Rightarrow> False | Some i \<Rightarrow> wp m (\<lambda>x t. Q x (put_iface n s t)) (iface_state s i))"
  by (auto simp: on_iface_def wp_def split: option.split)

lemma iface_state_sel [simp]:
  "kern (iface_state s i) = kern s" "files (iface_state s i) = files s" "out (iface_state s i) = out s"
  "self (iface_state s i) = i"
  by (simp_all add: iface_state_def)

lemma put_iface_sel [simp]:
  "kern (put_iface n s t) = kern t" "files (put_iface n s t) = files t" "out (put_iface n s t) = out t"
  "lx_running (put_iface n s t) = lx_running s"
  "lx_args_interfaces (put_iface n s t) = lx_args_interfaces s"
  "map_of (lx_ifaces (put_iface n s t)) = (map_of (lx_ifaces s))(n \<mapsto> self t)"
  by (simp_all add: put_iface_def update_conv')

text \<open>The keys of the dictionary, in the order of their insertion.\<close>

abbreviation lx_names :: "'k lx_state \<Rightarrow> string list" where
  "lx_names s \<equiv> map fst (lx_ifaces s)"

lemma lx_names_put [simp]: "map_of (lx_ifaces s) n = Some i \<Longrightarrow> lx_names (put_iface n s t) = lx_names s"
  using map_of_SomeD [of "lx_ifaces s" n i] by (force simp: put_iface_def update_keys)

lemma lx_names_dom: "n \<in> set (lx_names s) \<longleftrightarrow> (\<exists>i. map_of (lx_ifaces s) n = Some i)"
  by (metis domIff dom_map_of_conv_image_fst not_Some_eq set_map)

section \<open>The invariant\<close>

definition lx_inv :: "'k lx_state \<Rightarrow> bool" where
  "lx_inv s \<longleftrightarrow> distinct (lx_names s) \<and>
     (\<forall>n i. map_of (lx_ifaces s) n = Some i \<longrightarrow> i_name i = n \<and> iface_ok (out s) i)"

definition lx_active :: "'k lx_state \<Rightarrow> bool" where
  "lx_active s \<longleftrightarrow> (\<exists>n i. map_of (lx_ifaces s) n = Some i \<and> active i)"

lemma lx_inv_put:
  assumes "lx_inv s" and "map_of (lx_ifaces s) n = Some i" and "li_step (iface_state s i) t"
  shows "lx_inv (put_iface n s t)"
proof -
  have i: "i_name i = n" "iface_ok (out s) i"
    using assms by (simp_all add: lx_inv_def)
  then have t: "li_left (iface_state s i) t" "iface_ok (out t) (self t)"
    using assms(3) by (simp_all add: li_step_def)
  have others: "i_name j = m \<and> iface_ok (out t) j" if "map_of (lx_ifaces s) m = Some j" "m \<noteq> n" for m j
  proof -
    have j: "i_name j = m" "iface_ok (out s) j"
      using assms(1) that(1) by (simp_all only: lx_inv_def)
    then show ?thesis using t(1) that(2) i(1) by (simp add: li_left_def iface_ok_def)
  qed
  moreover have "distinct (lx_names (put_iface n s t))"
    using assms(1,2) by (simp only: lx_names_put lx_inv_def)
  moreover have "i_name (self t) = n"
    using t(1) i(1) by (simp add: li_left_def)
  ultimately show ?thesis
    using t(2) unfolding lx_inv_def put_iface_sel by (auto simp del: map_of_eq_Some_iff)
qed

lemma wlp_on_iface_inv:
  assumes "lx_inv s" and "\<And>i. iface_ok (out s) i \<Longrightarrow> wlp m (\<lambda>_. li_step (iface_state s i)) (iface_state s i)"
  shows "wlp (on_iface n m) (\<lambda>_. lx_inv) s"
proof (cases "map_of (lx_ifaces s) n")
  case (Some i)
  then have "iface_ok (out s) i" using assms(1) by (simp add: lx_inv_def)
  from wlp_mono [OF assms(2) [OF this]] show ?thesis
    using Some lx_inv_put [OF assms(1) Some] by (simp add: wp_simps)
qed (simp add: wp_simps)

lemma reconcile_each_inv: "lx_inv s \<Longrightarrow> wlp (reconcile_each S) (\<lambda>_. lx_inv) s"
  unfolding reconcile_each_def wlp_bnd wlp_gets
  by (rule wlp_for_each, rule wlp_on_iface_inv) (auto intro: lx_reconcile_step)

lemma kern_only_ethernet_ifnames [frame_intros]: "kern_only (ethernet_ifnames S)"
  unfolding ethernet_ifnames_def by (intro frame_intros)

definition lx_add :: "string \<Rightarrow> 'k lx_state \<Rightarrow> 'k lx_state" where
  "lx_add n s = (if n \<in> fst ` set (lx_ifaces s) then s
     else s\<lparr>lx_ifaces := AList.update n (new_iface n s) (lx_ifaces s)\<rparr>)"

lemma lx_add_inv: "lx_inv s \<Longrightarrow> lx_inv (lx_add n s)"
  by (auto simp: lx_inv_def lx_add_def update_conv' new_iface_def iface_ok_def distinct_update
      simp del: map_of_eq_Some_iff split: if_splits)

lemma lx_inv_frame [simp]: "lx_inv (s\<lparr>kern := k\<rparr>) = lx_inv s" "lx_inv (s\<lparr>lx_running := b\<rparr>) = lx_inv s"
  by (simp_all add: lx_inv_def)

lemma refresh_inv: "lx_inv s \<Longrightarrow> wlp (refresh S) (\<lambda>_. lx_inv) s"
  unfolding refresh_def lx_add_def [symmetric] wlp_bnd wlp_gets
  by (rule wlp_kern_only [OF kern_only_if [OF kern_only_ethernet_ifnames kern_only_ret]],
      rule wlp_for_each) (simp_all add: wlp_modify lx_add_inv)

lemma kern_only_drain [frame_intros]: "kern_only (drain S fd)"
  unfolding drain_def by (cases fd) (auto intro!: frame_intros)

lemma drains_inv: "lx_inv s \<Longrightarrow> wlp (for_each fds (drain S)) (\<lambda>_. lx_inv) s"
  by (rule wlp_for_each) (auto intro: wlp_kern_only [OF kern_only_drain])

lemma lx_iter_inv:
  fixes S :: "('k, 'x) lx_sys_scheme"
  assumes "lx_inv s"
  shows "wlp (lx_iter S) (\<lambda>_. lx_inv) s"
proof -
  have rest: "wlp (bnd (for_each fds (drain S)) (\<lambda>_. bnd (gets lx_running) (\<lambda>running.
      if running then bnd (refresh S) (\<lambda>_. reconcile_each S) else ret ()))) (\<lambda>_. lx_inv) t"
    if "lx_inv t" for fds and t :: "'k lx_state"
    unfolding wlp_bnd wlp_gets wlp_if wlp_ret
    by (rule wlp_mono [OF drains_inv [OF that]])
      (auto intro!: wlp_mono [OF refresh_inv] reconcile_each_inv)
  show ?thesis
    unfolding lx_iter_def wlp_bnd [of "kcall _"] wlp_kcall
    using assms
    by (auto simp: wlp_bnd [of "modify _"] wlp_modify split: prod.split intro!: rest)
qed

section \<open>The shutdown\<close>

text \<open>The interfaces that are active are asked to withdraw, whatever comes of it.\<close>

definition del_request :: "string \<Rightarrow> lx_event \<Rightarrow> bool" where
  "del_request n e \<longleftrightarrow> (\<exists>r. e = Lx_route_del n r \<or> e = Lx_neigh_del n r)"

lemma lx_withdraw_asks:
  "active (self s) \<Longrightarrow> iface_ok (out s) (self s) \<Longrightarrow>
    wlp (lx_withdraw S reason) (\<lambda>_ t. \<exists>es. out t = out s @ es \<and> (\<exists>e \<in> set es. del_request (i_name (self s)) e)) s"
  by (auto simp: lx_withdraw_def wp_simps errcode_def del_request_def iface_ok_def active_def
      split: prod.split sum.split py_exn.split)

definition lx_stop_one :: "('k, 'x) lx_sys_scheme \<Rightarrow> string \<Rightarrow> ('k lx_state, unit) prog" where
  "lx_stop_one S n = on_iface n
     (bnd (gets (\<lambda>s. active (self s))) (\<lambda>act. if act then lx_withdraw S ''daemon shutdown'' else ret ()))"

text \<open>What the shutdown owes to interface \<open>n\<close>, which the daemon held in state \<open>u\<close>.\<close>

definition lx_ended :: "'k lx_state \<Rightarrow> string \<Rightarrow> 'k lx_state \<Rightarrow> bool" where
  "lx_ended u n t \<longleftrightarrow> (\<forall>i. map_of (lx_ifaces t) n = Some i \<longrightarrow> \<not> active i) \<and>
     (\<forall>i. map_of (lx_ifaces u) n = Some i \<and> active i \<longrightarrow>
       (\<exists>e \<in> set (drop (length (out u)) (out t)). del_request n e))"

text \<open>While the shutdown runs: interfaces not yet handled are as they were.\<close>

definition lx_ending :: "'k lx_state \<Rightarrow> 'k lx_state \<Rightarrow> bool" where
  "lx_ending u t \<longleftrightarrow> lx_inv t \<and> lx_names t = lx_names u \<and> (\<exists>es. out t = out u @ es) \<and>
     (\<forall>n. map_of (lx_ifaces t) n = map_of (lx_ifaces u) n \<or> lx_ended u n t)"

lemma lx_stop_one_step:
  assumes ending: "lx_ending u s"
  shows "wlp (lx_stop_one S n) (\<lambda>_ t. lx_ending u t \<and> lx_ended u n t) s"
    and "lx_ended u m s \<Longrightarrow> wlp (lx_stop_one S n) (\<lambda>_ t. lx_ended u m t) s"
proof -
  have inv: "lx_inv s" and grown: "\<exists>es. out s = out u @ es"
    using ending by (simp_all add: lx_ending_def)
  have more: "lx_ended u m (put_iface n s t)" if "lx_ended u m s" "m \<noteq> n" "\<exists>es. out t = out s @ es" for t m
    using that grown by (auto simp: lx_ended_def)
  have gone: "lx_ended u n (put_iface n s (iface_state s i))" if "lx_ended u n s" "\<not> active i" for i
    using that by (auto simp: lx_ended_def)
  have *: "wlp (lx_stop_one S n) (\<lambda>_ t. lx_ending u t \<and> lx_ended u n t \<and> (\<forall>m. lx_ended u m s \<longrightarrow> lx_ended u m t)) s"
    (is "wlp _ ?Q _")
  proof (cases "map_of (lx_ifaces s) n")
    case None
    then have "n \<notin> set (lx_names u)"
      using ending lx_names_dom [of n s] by (simp add: lx_ending_def)
    then have "map_of (lx_ifaces u) n = None"
      using lx_names_dom [of n u] by (cases "map_of (lx_ifaces u) n") auto
    then show ?thesis using None by (simp add: lx_stop_one_def wp_simps)
  next
    case (Some i)
    have ok: "iface_ok (out s) i" and name: "i_name i = n"
      using inv Some by (simp_all add: lx_inv_def)
    have Q: "?Q () (put_iface n s t)"
      if t: "li_step (iface_state s i) t" "\<not> active (self t)" "\<exists>es. out t = out s @ es \<and>
        (active i \<longrightarrow> (\<exists>e \<in> set es. del_request n e))" for t
    proof -
      have grown': "\<exists>es. out t = out s @ es" using t(3) by blast
      have n: "lx_ended u n (put_iface n s t)"
      proof (cases "active i")
        case True
        then show ?thesis using t(2,3) grown by (auto simp: lx_ended_def)
      next
        case False
        have "lx_ended u n s \<or> map_of (lx_ifaces u) n = Some i"
          using ending Some unfolding lx_ending_def by metis
        then show ?thesis using False t(2) grown grown' by (auto simp: lx_ended_def)
      qed
      have others: "lx_ended u m (put_iface n s t)" if "lx_ended u m s" for m
        using n more [OF that _ grown'] by (cases "m = n") auto
      have "lx_ending u (put_iface n s t)"
        using ending n others grown grown' lx_inv_put [OF inv Some t(1)] Some
        by (auto simp: lx_ending_def fun_upd_def)
      then show ?thesis using n others by blast
    qed
    show ?thesis
    proof (cases "active i")
      case True
      note ended = lx_withdraw_step [of "iface_state s i" S "''daemon shutdown''"]
        and asked = lx_withdraw_asks [of "iface_state s i" S "''daemon shutdown''"]
      have "wlp (lx_withdraw S ''daemon shutdown'') (\<lambda>_ t. (li_step (iface_state s i) t \<and> \<not> active (self t)) \<and>
          (\<exists>es. out t = out s @ es \<and> (\<exists>e \<in> set es. del_request n e))) (iface_state s i)"
        by (rule wlp_conj) (use ended asked ok name True in simp_all)
      then show ?thesis
        using Some True by (auto simp: lx_stop_one_def wp_simps elim!: wlp_mono dest!: Q)
    next
      case False
      then show ?thesis
        using Some Q [of "iface_state s i"] by (simp add: lx_stop_one_def wp_simps li_step_refl)
    qed
  qed
  show "wlp (lx_stop_one S n) (\<lambda>_ t. lx_ending u t \<and> lx_ended u n t) s"
    and "lx_ended u m s \<Longrightarrow> wlp (lx_stop_one S n) (\<lambda>_ t. lx_ended u m t) s"
    using * by (auto elim: wlp_mono)
qed

lemma lx_stop_ends:
  assumes "lx_inv s"
  shows "wlp (lx_stop S) (\<lambda>_ t. lx_inv t \<and> \<not> lx_active t \<and> (\<forall>n. lx_ended s n t)) s"
proof -
  have "wlp (for_each (lx_names s) (lx_stop_one S))
      (\<lambda>_ t. lx_ending s t \<and> (\<forall>n \<in> set (lx_names s). lx_ended s n t)) s"
    using assms
    by (intro wlp_for_each_all) (auto simp: lx_ending_def [of s s] intro: lx_stop_one_step)
  moreover have "lx_inv t \<and> \<not> lx_active t \<and> (\<forall>n. lx_ended s n t)"
    if t: "lx_ending s t" "\<forall>n \<in> set (lx_names s). lx_ended s n t" for t
  proof -
    have "lx_ended s n t" for n
    proof (cases "n \<in> set (lx_names s)")
      case False
      then have "n \<notin> set (lx_names t)" using t(1) by (simp add: lx_ending_def)
      then show ?thesis
        using False unfolding lx_names_dom by (simp add: lx_ended_def del: map_of_eq_Some_iff)
    qed (use t(2) in blast)
    then show ?thesis
      using t(1) by (auto simp: lx_ending_def lx_active_def lx_ended_def)
  qed
  ultimately show ?thesis
    unfolding lx_stop_def lx_stop_one_def [symmetric] wlp_bnd wlp_gets
    by (auto elim: wlp_mono)
qed

section \<open>No exception ends it\<close>

text \<open>
  Exceptions the code does not catch do not occur: listing links and routes succeeds, requests
  about neighbors and routes raise a \<open>NetlinkError\<close> if any, the sockets an \<open>OSError\<close>.
\<close>

definition lx_sound :: "('k, 'x) lx_sys_scheme \<Rightarrow> bool" where
  "lx_sound S \<longleftrightarrow> total_call (lx_get_links S) \<and> (\<forall>n. total_call (lx_link_lookup S n)) \<and>
     (\<forall>f. total_call (lx_get_routes S f)) \<and> total_call (lx_read_wakeup S) \<and>
     (\<forall>f i a. netlink_call (lx_get_neighbours S f i a)) \<and>
     (\<forall>i m gw. netlink_call (lx_route_replace S i m gw)) \<and> (\<forall>i m. netlink_call (lx_route_del S i m)) \<and>
     (\<forall>a mac i. netlink_call (lx_neigh_replace S a mac i)) \<and> (\<forall>a i. netlink_call (lx_neigh_del S a i)) \<and>
     os_call (lx_socket S) \<and> (\<forall>n. os_call (lx_bind_to_device S n)) \<and> (\<forall>a. os_call (lx_sendto S a)) \<and>
     os_call (lx_mon_get S)"

lemma safe_result [safe_intros]:
  "(\<And>x. r = Inl x \<Longrightarrow> safe (f x)) \<Longrightarrow> (\<And>y. r = Inr y \<Longrightarrow> safe (g y)) \<Longrightarrow>
    safe (case r of Inl x \<Rightarrow> f x | Inr y \<Rightarrow> g y)"
  by (cases r) auto

lemma safe_lx_reads [safe_intros]:
  assumes "lx_sound S"
  shows "safe (nud_state S gw)" "safe (lx_router_lladdr S gw)" "safe (default_routes S f)"
    "safe (sentinel_present S)" "safe (lx_neighbor_present S mac)" "safe (kick_nud S gw)"
    "safe (resolve_index S)" "safe (lx_select_loop S rs best)" "safe (lx_select_router S)"
proof -
  have calls: "netlink_call (lx_get_neighbours S f i a)" "total_call (lx_get_routes S f)"
    "total_call (lx_link_lookup S n)" "os_call (lx_socket S)" "os_call (lx_bind_to_device S n)"
    "os_call (lx_sendto S n)" for f i a n
    using assms by (simp_all add: lx_sound_def)
  show nud: "safe (nud_state S gw)" for gw
    unfolding nud_state_def by (intro safe_intros calls)
  show "safe (lx_router_lladdr S gw)" and routes: "\<And>f. safe (default_routes S f)"
    "safe (lx_neighbor_present S mac)" "safe (kick_nud S gw)" "safe (resolve_index S)"
    unfolding lx_router_lladdr_def default_routes_def lx_neighbor_present_def kick_nud_def
      resolve_index_def Let_def
    by (intro safe_intros calls)+
  have loop: "safe (lx_select_loop S rs best)" for rs best
    by (induction rs arbitrary: best) (auto simp: Let_def intro!: safe_intros nud split: option.split)
  show "safe (lx_select_loop S rs best)" and "safe (sentinel_present S)" and "safe (lx_select_router S)"
    unfolding sentinel_present_def lx_select_router_def by (intro safe_intros routes loop)+
qed

lemma safe_lx_writes [safe_intros]:
  assumes "lx_sound S"
  shows "safe (lx_install S gw)" "safe (lx_withdraw S reason)"
proof -
  have calls: "netlink_call (lx_route_replace S i m a)" "netlink_call (lx_route_del S i m)"
    "netlink_call (lx_neigh_replace S a b i)" "netlink_call (lx_neigh_del S a i)" for i m a b
    using assms by (simp_all add: lx_sound_def)
  show "safe (lx_install S gw)" "safe (lx_withdraw S reason)"
    unfolding lx_install_def install_route_def pin_neighbor_def lx_withdraw_def
    by (intro safe_intros calls assms)+
qed

lemma safe_lx_reconcile: "lx_sound S \<Longrightarrow> safe (lx_reconcile S)"
  unfolding lx_reconcile_def by (intro safe_intros)

text \<open>On an interface of the dictionary an operation that cannot fail does not fail.\<close>

lemma wp_for_each:
  assumes "\<And>x s. x \<in> set xs \<Longrightarrow> I s \<Longrightarrow> wp (f x) (\<lambda>_. I) s"
  shows "I s \<Longrightarrow> wp (for_each xs f) (\<lambda>_. I) s"
  using assms
proof (induction xs arbitrary: s)
  case (Cons x xs)
  show ?case
    unfolding for_each.simps wp_bnd
    by (rule wp_mono [OF Cons.prems(2)]) (use Cons in auto)
qed (simp add: wp_ret)

lemma wp_on_ifaces:
  fixes m :: "('k li_state, unit) prog"
  assumes "safe m"
  shows "wp (for_each (lx_names s) (\<lambda>n. on_iface n m)) (\<lambda>_ _. True) s"
proof -
  have "wp (for_each (lx_names s) (\<lambda>n. on_iface n m)) (\<lambda>_ t. lx_names t = lx_names s) s"
  proof (rule wp_for_each)
    fix n and t :: "'k lx_state"
    assume n: "n \<in> set (lx_names s)" and t: "lx_names t = lx_names s"
    then obtain i where i: "map_of (lx_ifaces t) n = Some i"
      using lx_names_dom [of n t] by auto
    then show "wp (on_iface n m) (\<lambda>_ t. lx_names t = lx_names s) t"
      using safe_wp [OF assms wlp_true, of "iface_state t i"]
      by (simp add: wp_simps t)
  qed simp
  then show ?thesis by (rule wp_mono) simp
qed

lemma wp_not_None: "wp m Q s \<Longrightarrow> m s \<noteq> None"
  by (auto simp: wp_def split: option.splits)

lemma safe_reconcile_each: "lx_sound S \<Longrightarrow> safe (reconcile_each S)"
  using wp_not_None [OF wp_on_ifaces [OF safe_lx_reconcile [of S]]]
  by (simp add: safe_def reconcile_each_def bnd_def run_simps)

lemma safe_lx_stop: "lx_sound S \<Longrightarrow> safe (lx_stop S)"
proof -
  assume sound: "lx_sound S"
  have "safe (bnd (gets (\<lambda>s. active (self s))) (\<lambda>act. if act then lx_withdraw S ''daemon shutdown'' else ret ()))"
    by (intro safe_intros sound)
  from wp_not_None [OF wp_on_ifaces [OF this]] show "safe (lx_stop S)"
    by (simp add: safe_def lx_stop_def bnd_run run_simps)
qed

lemma safe_refresh: "lx_sound S \<Longrightarrow> safe (refresh S)"
  unfolding refresh_def ethernet_ifnames_def
  by (intro safe_intros) (simp add: lx_sound_def)

lemma safe_lx_iter: "lx_sound S \<Longrightarrow> safe (lx_iter S)"
proof -
  assume sound: "lx_sound S"
  have "safe (drain S fd)" for fd
    using sound unfolding drain_def by (cases fd) (auto simp: lx_sound_def intro!: safe_intros)
  then show ?thesis
    unfolding lx_iter_def by (intro safe_intros safe_refresh safe_reconcile_each sound)
qed

section \<open>The life of the daemon\<close>

lemma lx_env_inv: "lx_env s t \<Longrightarrow> lx_inv s \<Longrightarrow> lx_inv t"
  by (induction rule: lx_env.induct) (simp_all add: stop_signal_def)

lemma lx_stop_inv: "lx_inv s \<Longrightarrow> wlp (lx_stop S) (\<lambda>_ t. lx_inv t \<and> \<not> lx_active t) s"
  by (rule wlp_mono [OF lx_stop_ends]) simp_all

interpretation lx_loop: daemon_loop lx_running lx_env "lx_iter S" "lx_stop S" lx_inv lx_active
  for S :: "('k, 'x) lx_sys_scheme"
  by unfold_locales (auto intro: lx_iter_inv lx_env_inv lx_stop_inv)

definition lx_good :: "('k, 'x) lx_sys_scheme \<Rightarrow> 'k lx_state \<Rightarrow> bool" where
  "lx_good S s \<longleftrightarrow> lx_sound S \<and> lx_inv s"

interpretation lx_safe_loop: safe_daemon_loop lx_running lx_env "lx_iter S" "lx_stop S" "lx_good S" lx_active
  for S :: "('k, 'x) lx_sys_scheme"
  by unfold_locales
    (auto simp: lx_good_def dest: lx_env_inv safeD [OF safe_lx_iter] safeD [OF safe_lx_stop]
      intro: wlp_mono [OF lx_iter_inv] wlp_mono [OF lx_stop_inv])

lemma lx_main_inv: "wlp (lx_main S interfaces unconditional metric) (\<lambda>_. lx_inv) (lx_init k)"
  unfolding lx_main_def wlp_bnd wlp_modify wlp_gets wlp_emit
  by (intro wlp_mono [OF refresh_inv reconcile_each_inv]) (simp_all add: lx_init_def lx_inv_def)

end
