(* ===== verification/Linux_Keeper.thy ===== *)
theory Linux_Keeper
  imports Linux_Life
begin

text \<open>
  The Linux daemon against a kernel that does what it is asked: the entry of an interface (the
  IPv4 default route of protocol 199, or the permanent neighbor of the gateway address), that a
  second pass does nothing, and what a pass over all interfaces and the shutdown make of the
  kernel's routes and neighbors, as folds over the dictionary of interfaces.
\<close>

section \<open>The kernel\<close>

text \<open>
  \<open>rt k (index, metric)\<close> is the gateway of the daemon's route, \<open>nb k index\<close> the MAC of the
  permanent neighbor entry.
\<close>

type_synonym 'k lx_rt = "'k \<Rightarrow> int option \<times> int \<Rightarrow> string option"
type_synonym 'k lx_nb = "'k \<Rightarrow> int option \<Rightarrow> string option"

text \<open>
  A request to replace installs the route and leaves those of other metrics; what becomes of a
  route of the same metric by another interface is left open here and settled by \<open>lx_key_law\<close>.
\<close>

definition lx_route_law :: "('k, 'x) lx_sys_scheme \<Rightarrow> 'k lx_rt \<Rightarrow> 'k lx_nb \<Rightarrow> bool" where
  "lx_route_law S rt nb \<longleftrightarrow>
     (\<forall>i m gw k. fst (lx_route_replace S i m gw k) = Inr () \<and>
        rt (snd (lx_route_replace S i m gw k)) (i, m) = Some gw \<and>
        (\<forall>j n. n \<noteq> m \<longrightarrow> rt (snd (lx_route_replace S i m gw k)) (j, n) = rt k (j, n)) \<and>
        nb (snd (lx_route_replace S i m gw k)) = nb k) \<and>
     (\<forall>i m k. fst (lx_route_del S i m k)
          = (if rt k (i, m) = None then Inl (Netlink_error E_ESRCH) else Inr ()) \<and>
        rt (snd (lx_route_del S i m k)) = (rt k)((i, m) := None) \<and>
        nb (snd (lx_route_del S i m k)) = nb k)"

definition lx_neigh_law :: "('k, 'x) lx_sys_scheme \<Rightarrow> 'k lx_rt \<Rightarrow> 'k lx_nb \<Rightarrow> bool" where
  "lx_neigh_law S rt nb \<longleftrightarrow>
     (\<forall>mac i k. fst (lx_neigh_replace S (SENTINEL S) mac i k) = Inr () \<and>
        nb (snd (lx_neigh_replace S (SENTINEL S) mac i k)) = (nb k)(i := Some mac) \<and>
        rt (snd (lx_neigh_replace S (SENTINEL S) mac i k)) = rt k) \<and>
     (\<forall>i k. fst (lx_neigh_del S (SENTINEL S) i k)
          = (if nb k i = None then Inl (Netlink_error E_ENOENT) else Inr ()) \<and>
        nb (snd (lx_neigh_del S (SENTINEL S) i k)) = (nb k)(i := None) \<and>
        rt (snd (lx_neigh_del S (SENTINEL S) i k)) = rt k) \<and>
     (\<forall>i k mac. (\<exists>ns. fst (lx_get_neighbours S Inet i (SENTINEL S) k) = Inr ns \<and>
          (\<exists>n \<in> set ns. nb_state n AND NUD_PERMANENT \<noteq> 0 \<and> nb_lladdr n = Some mac))
        \<longleftrightarrow> nb k i = Some mac)"

text \<open>A solicitation is answered later, not while the daemon sends it.\<close>

definition lx_idle_sockets :: "('k, 'x) lx_sys_scheme \<Rightarrow> bool" where
  "lx_idle_sockets S \<longleftrightarrow> quiet (lx_socket S) \<and> os_call (lx_socket S) \<and>
     (\<forall>n. quiet (lx_bind_to_device S n) \<and> os_call (lx_bind_to_device S n)) \<and>
     (\<forall>a. quiet (lx_sendto S a) \<and> os_call (lx_sendto S a))"

definition lx_laws :: "('k, 'x) lx_sys_scheme \<Rightarrow> 'k lx_rt \<Rightarrow> 'k lx_nb \<Rightarrow> bool" where
  "lx_laws S rt nb \<longleftrightarrow> lx_quiet S \<and> lx_idle_sockets S \<and> lx_route_law S rt nb \<and> lx_neigh_law S rt nb"

lemma attempt_os_quiet:
  assumes "quiet f" and "os_call f"
  shows "\<exists>r. attempt_os f s = Some (r, s)"
  using assms
  by (auto simp: attempt_os_def bnd_def kcall_quiet ret_def os_call_def split: sum.split py_exn.split)

lemma kick_nud_idle:
  assumes "lx_idle_sockets S"
  shows "kick_nud S gw s = Some ((), s)"
proof -
  obtain a b c where "attempt_os (lx_socket S) s = Some (a, s)"
    "attempt_os (lx_bind_to_device S (i_name (self s))) s = Some (b, s)"
    "attempt_os (lx_sendto S gw) s = Some (c, s)"
    using assms attempt_os_quiet unfolding lx_idle_sockets_def by metis
  then show ?thesis
    by (simp add: kick_nud_def bnd_def run_simps split: option.split)
qed

section \<open>Requests\<close>

definition lx_entry :: "'k lx_rt \<Rightarrow> 'k lx_nb \<Rightarrow> 'k li_state \<Rightarrow> string option" where
  "lx_entry rt nb s = (if i_static_arp (self s) then nb (kern s) (i_index (self s))
     else rt (kern s) (i_index (self s), i_metric (self s)))"

text \<open>
  The memory is in order: it is of the mode the interface works in, and a route it remembers is
  in the kernel.
\<close>

definition lx_in_step :: "'k lx_rt \<Rightarrow> int option \<Rightarrow> lx_iface \<Rightarrow> 'k \<Rightarrow> bool" where
  "lx_in_step rt index i k \<longleftrightarrow>
     (i_static_arp i \<longrightarrow> i_via i = None) \<and>
     (\<not> i_static_arp i \<longrightarrow> i_mac i = None \<and>
        (\<forall>gw. i_via i = Some gw \<longrightarrow> rt k (index, i_metric i) = Some gw))"

text \<open>
  What requests of one interface leave alone: its settings, the neighbors of the others and the
  routes of other metrics.
\<close>

definition lx_local :: "'k lx_rt \<Rightarrow> 'k lx_nb \<Rightarrow> 'k li_state \<Rightarrow> 'k li_state \<Rightarrow> bool" where
  "lx_local rt nb s t \<longleftrightarrow> i_index (self t) = i_index (self s) \<and> i_metric (self t) = i_metric (self s) \<and>
     i_static_arp (self t) = i_static_arp (self s) \<and> lx_in_step rt (i_index (self t)) (self t) (kern t) \<and>
     (\<forall>j. j \<noteq> i_index (self s) \<longrightarrow> nb (kern t) j = nb (kern s) j) \<and>
     (\<forall>j m. m \<noteq> i_metric (self s) \<longrightarrow> rt (kern t) (j, m) = rt (kern s) (j, m))"

lemmas lx_effect_defs = lx_entry_def lx_in_step_def lx_local_def active_def


lemma install_route_sets:
  assumes "lx_route_law S rt nb"
    and "lx_in_step rt (i_index (self s)) (self s) (kern s)" and "\<not> i_static_arp (self s)"
  shows "wp (install_route S gw) (\<lambda>_ t. lx_entry rt nb t = Some gw \<and> active (self t) \<and>
    lx_local rt nb s t) s"
  using assms
  by (auto simp: install_route_def wp_simps lx_route_law_def lx_effect_defs)

lemma pin_write_sets:
  assumes "lx_neigh_law S rt nb"
    and "lx_in_step rt (i_index (self s)) (self s) (kern s)" and "i_static_arp (self s)"
  shows "wp (pin_write S mac (self s)) (\<lambda>_ t. lx_entry rt nb t = Some mac \<and> active (self t) \<and>
    lx_local rt nb s t \<and> i_mac (self t) = Some mac) s"
  using assms
  by (auto simp: pin_write_def wp_simps lx_neigh_law_def lx_effect_defs)

lemma lx_neighbor_present_law:
  assumes "lx_quiet S" and "lx_neigh_law S rt nb"
  shows "lx_neighbor_present S mac s = Some (nb (kern s) (i_index (self s)) = Some mac, s)"
proof -
  have "quiet (lx_get_neighbours S Inet (i_index (self s)) (SENTINEL S))"
    "netlink_call (lx_get_neighbours S Inet (i_index (self s)) (SENTINEL S))"
    using assms(1) by (simp_all add: lx_quiet_def)
  moreover have "nb (kern s) (i_index (self s)) = Some mac \<longleftrightarrow>
      (\<exists>ns. fst (lx_get_neighbours S Inet (i_index (self s)) (SENTINEL S) (kern s)) = Inr ns \<and>
        (\<exists>n \<in> set ns. nb_state n AND NUD_PERMANENT \<noteq> 0 \<and> nb_lladdr n = Some mac))"
    using assms(2) by (simp add: lx_neigh_law_def)
  ultimately show ?thesis
    by (auto simp: lx_neighbor_present_def bnd_def run_simps attempt_quiet split: sum.split)
qed

text \<open>The link-layer address of the router, as \<open>pin_neighbor\<close> reads it.\<close>

definition lx_mac_of :: "('k, 'x) lx_sys_scheme \<Rightarrow> 'k li_state \<Rightarrow> string \<Rightarrow> string option" where
  "lx_mac_of S s gw = (case fst (lx_get_neighbours S Inet6 (i_index (self s)) gw (kern s)) of
     Inr (x # _) \<Rightarrow> nb_lladdr x | _ \<Rightarrow> None)"

lemma pin_neighbor_quiet:
  assumes "lx_quiet S" and "lx_neigh_law S rt nb"
  shows "pin_neighbor S gw s = (case lx_mac_of S s gw of
      None \<Rightarrow> Some ((), s)
    | Some mac \<Rightarrow> if i_mac (self s) = Some mac \<and> nb (kern s) (i_index (self s)) = Some mac then Some ((), s)
        else pin_write S mac (self s) s)"
  unfolding pin_neighbor_def pin_write_def [symmetric]
  by (simp add: bnd_def router_lladdr_quiet [OF assms(1)]
      lx_mac_of_def [symmetric] run_simps lx_neighbor_present_law [OF assms] split: option.split)

lemma lx_withdraw_sets:
  assumes "lx_route_law S rt nb" and "lx_neigh_law S rt nb"
    and "lx_in_step rt (i_index (self s)) (self s) (kern s)"
  shows "wp (lx_cease S reason) (\<lambda>_ t. lx_entry rt nb t = (if active (self s) then None else lx_entry rt nb s) \<and>
    \<not> active (self t) \<and> lx_local rt nb s t) s"
  using assms
  by (auto simp: lx_cease_def lx_withdraw_def wp_simps lx_route_law_def lx_neigh_law_def
      lx_effect_defs E_ESRCH_def E_ENOENT_def)

section \<open>The keeper\<close>

text \<open>
  \<open>static\<close> is the mode, \<open>mac\<close> what the neighbor cache says of the routers. A pinned router has an
  entry in mode \<open>RTA_VIA\<close>, and in the other mode when its MAC is known.
\<close>

definition lx_keeps :: "('k, 'x) lx_sys_scheme \<Rightarrow> 'k lx_rt \<Rightarrow> 'k lx_nb \<Rightarrow> bool \<Rightarrow> (string \<Rightarrow> string option) \<Rightarrow>
    'k li_state \<Rightarrow> bool" where
  "lx_keeps S rt nb static mac s \<longleftrightarrow> lx_laws S rt nb \<and> i_static_arp (self s) = static \<and>
     lx_in_step rt (i_index (self s)) (self s) (kern s) \<and> lx_mac_of S s = mac"

definition lx_val :: "bool \<Rightarrow> (string \<Rightarrow> string option) \<Rightarrow> string \<Rightarrow> string option" where
  "lx_val static mac gw = (if static then mac gw else Some gw)"

lemma lx_pin_kick: "lx_idle_sockets S \<Longrightarrow> lx_pin S gw kick = lx_install S gw"
  by (rule ext) (simp add: lx_pin_def bnd_def run_simps kick_nud_idle)

lemma lx_install_run: "lx_install S gw s = (if i_static_arp (self s) then pin_neighbor S gw s else install_route S gw s)"
  by (simp add: lx_install_def bnd_def run_simps)

lemma lx_local_refl: "lx_in_step rt (i_index (self s)) (self s) (kern s) \<Longrightarrow> lx_local rt nb s s"
  by (simp add: lx_local_def)

lemma lx_pin_sets:
  assumes ok: "lx_keeps S rt nb static mac s"
    and fit: "lx_val static mac gw \<noteq> None"
  shows "wp (lx_pin S gw kick) (\<lambda>_ t. lx_entry rt nb t = lx_val static mac gw \<and> active (self t) \<and>
    lx_local rt nb s t) s"
proof -
  have laws: "lx_quiet S" "lx_idle_sockets S" "lx_route_law S rt nb" "lx_neigh_law S rt nb"
    and step: "lx_in_step rt (i_index (self s)) (self s) (kern s)"
    and mode: "i_static_arp (self s) = static" and macs: "lx_mac_of S s = mac"
    using ok by (simp_all add: lx_keeps_def lx_laws_def)
  show ?thesis
  proof (cases static)
    case False
    then show ?thesis
      using install_route_sets [OF laws(3) step, of gw] mode
      by (simp add: lx_pin_kick [OF laws(2)] wp_def lx_install_run lx_val_def)
  next
    case True
    then obtain m where m: "mac gw = Some m" using fit by (auto simp: lx_val_def)
    have "wp (pin_write S m (self s)) (\<lambda>_ t. lx_entry rt nb t = Some m \<and> active (self t) \<and>
        lx_local rt nb s t) s"
      by (rule wp_mono [OF pin_write_sets [OF laws(4) step]]) (simp_all add: mode True)
    moreover have "lx_entry rt nb s = Some m \<and> active (self s)"
      if "i_mac (self s) = Some m" "nb (kern s) (i_index (self s)) = Some m"
      using that True mode by (simp add: lx_entry_def active_def)
    ultimately show ?thesis
      using True m lx_local_refl [OF step]
      by (simp add: lx_pin_kick [OF laws(2)] wp_def lx_install_run mode lx_val_def
          pin_neighbor_quiet [OF laws(1,4)] macs)
  qed
qed

interpretation lx_keeper: entry_keeper lx_forget "lx_cease S" "lx_pin S" "lx_entry rt nb" "\<lambda>s. active (self s)"
  "lx_keeps S rt nb static mac" "\<lambda>gw kick. lx_val static mac gw \<noteq> None" "\<lambda>_. lx_val static mac" None
  for S :: "('k, 'x) lx_sys_scheme" and rt nb static mac
proof
  fix s :: "'k li_state" and reason gw kick
  assume ok: "lx_keeps S rt nb static mac s"
  show "wp lx_forget (\<lambda>_ t. lx_entry rt nb t = lx_entry rt nb s \<and> \<not> active (self t)) s"
    by (simp add: lx_forget_def wp_simps lx_entry_def active_def)
  show "wp (lx_cease S reason) (\<lambda>_ t. lx_entry rt nb t = (if active (self s) then None else lx_entry rt nb s) \<and>
      \<not> active (self t)) s"
    using ok
    by (intro wp_mono [OF lx_withdraw_sets [where rt = rt and nb = nb]])
      (simp_all add: lx_keeps_def lx_laws_def)
  show "wp (lx_pin S gw kick) (\<lambda>_ t. lx_entry rt nb t = lx_val static mac gw \<and> active (self t)) s"
    if "lx_val static mac gw \<noteq> None"
    by (rule wp_mono [OF lx_pin_sets [OF ok that]]) simp_all
qed

definition lx_frame :: "'k li_state \<Rightarrow> 'k li_state \<Rightarrow> bool" where
  "lx_frame s t \<longleftrightarrow> i_index (self t) = i_index (self s) \<and> i_name (self t) = i_name (self s) \<and>
     i_require_sentinel (self t) = i_require_sentinel (self s)"

lemma lx_act_frame: "wlp (lx_act S d) (\<lambda>_. lx_frame s) s"
proof (cases d)
  case (Pin gw kick)
  have route: "wlp (install_route S gw) (\<lambda>_. lx_frame s) (s\<lparr>kern := k\<rparr>)" for k
    by (auto simp: install_route_def wp_simps lx_frame_def split: prod.split sum.split py_exn.split)
  have pin: "wlp (pin_neighbor S gw) (\<lambda>_. lx_frame s) (s\<lparr>kern := k\<rparr>)" for k
    by (rule wlp_pin_neighbor)
      (auto simp: pin_write_def wp_simps lx_frame_def split: prod.split sum.split py_exn.split)
  show ?thesis
    unfolding Pin carry_out.simps lx_pin_def lx_install_def wlp_bnd
    by (rule wlp_kern_only [OF kern_only_if [OF kern_only_lx_reads(6) kern_only_ret]])
      (simp add: wp_simps route pin)
qed (auto simp: lx_forget_def lx_cease_def lx_withdraw_def wp_simps lx_frame_def
    split: prod.split sum.split py_exn.split)

lemma lx_pin_again:
  assumes ok: "lx_keeps S rt nb static mac s" and fit: "lx_val static mac gw \<noteq> None"
  shows "wp (lx_pin S gw kick) (\<lambda>_ t. lx_mac_of S t = mac \<longrightarrow> lx_pin S gw kick t = Some ((), t)) s"
proof -
  have laws: "lx_quiet S" "lx_idle_sockets S" "lx_route_law S rt nb" "lx_neigh_law S rt nb"
    and step: "lx_in_step rt (i_index (self s)) (self s) (kern s)"
    and mode: "i_static_arp (self s) = static" and macs: "lx_mac_of S s = mac"
    using ok by (simp_all add: lx_keeps_def lx_laws_def)
  show ?thesis
  proof (cases static)
    case False
    have "wp (install_route S gw) (\<lambda>_ t. \<not> i_static_arp (self t) \<and> i_via (self t) = Some gw) s"
      using laws(3) mode False
      by (auto simp: install_route_def wp_simps lx_route_law_def)
    then have "wp (install_route S gw) (\<lambda>_ t. lx_mac_of S t = mac \<longrightarrow> lx_pin S gw kick t = Some ((), t)) s"
      by (rule wp_mono)
        (simp add: lx_pin_kick [OF laws(2)] lx_install_run install_route_def bnd_def run_simps)
    moreover have "lx_pin S gw kick s = install_route S gw s"
      using mode False by (simp add: lx_pin_kick [OF laws(2)] lx_install_run)
    ultimately show ?thesis by (simp only: wp_def)
  next
    case True
    then obtain m where m: "mac gw = Some m" using fit by (auto simp: lx_val_def)
    have idle: "lx_pin S gw kick t = Some ((), t)"
      if "i_static_arp (self t)" "i_mac (self t) = Some m" "nb (kern t) (i_index (self t)) = Some m"
        "lx_mac_of S t = mac" for t
      using that m by (simp add: lx_pin_kick [OF laws(2)] lx_install_run pin_neighbor_quiet [OF laws(1,4)])
    have "wp (pin_write S m (self s)) (\<lambda>_ t. lx_mac_of S t = mac \<longrightarrow> lx_pin S gw kick t = Some ((), t)) s"
    proof (rule wp_mono [OF pin_write_sets [OF laws(4) step]])
      fix x t
      assume "lx_entry rt nb t = Some m \<and> active (self t) \<and> lx_local rt nb s t \<and> i_mac (self t) = Some m"
      then show "lx_mac_of S t = mac \<longrightarrow> lx_pin S gw kick t = Some ((), t)"
        using mode True by (auto simp: lx_entry_def lx_local_def intro!: idle)
    qed (simp_all add: mode True)
    then show ?thesis
      using m mode True
      by (auto simp: lx_pin_kick [OF laws(2)] wp_def lx_install_run pin_neighbor_quiet [OF laws(1,4)] macs)
  qed
qed

interpretation lx_steady: steady_keeper lx_forget "lx_cease S" "lx_pin S" "lx_entry rt nb" "\<lambda>s. active (self s)"
  "lx_keeps S rt nb static mac" "\<lambda>gw kick. lx_val static mac gw \<noteq> None" "\<lambda>_. lx_val static mac" None
  "\<lambda>t. lx_mac_of S t = mac" "\<lambda>_. lx_frame"
  for S :: "('k, 'x) lx_sys_scheme" and rt nb static mac
proof
  fix s t :: "'k li_state" and d reason gw kick
  show "wlp (lx_act S d) (\<lambda>_. lx_frame s) s" by (rule lx_act_frame)
  show "lx_forget t = Some ((), t)" if "\<not> active (self t)"
    using that by (simp add: lx_forget_def run_simps active_def)
  show "lx_cease S reason t = Some ((), t)" if "\<not> active (self t)"
    using that by (simp add: lx_cease_def bnd_def run_simps)
  show "wp (lx_pin S gw kick) (\<lambda>_ t. lx_mac_of S t = mac \<longrightarrow> lx_pin S gw kick t = Some ((), t)) s"
    if "lx_keeps S rt nb static mac s" and "lx_val static mac gw \<noteq> None"
    using that by (rule lx_pin_again)
qed

section \<open>A pass\<close>

definition lx_noted :: "lx_view \<Rightarrow> 'k li_state \<Rightarrow> 'k li_state" where
  "lx_noted v s = s\<lparr>self := (self s)\<lparr>i_index := w_index v\<rparr>\<rparr>"

abbreviation lx_decided :: "('k, 'x) lx_sys_scheme \<Rightarrow> lx_view \<Rightarrow> 'k li_state \<Rightarrow> lx_decision" where
  "lx_decided S v s \<equiv> lx_spec (SENTINEL S) (i_require_sentinel (self s)) v"

lemma lx_mac_of_view: "lx_shows S n (kern s) v \<Longrightarrow> i_index (self s) = w_index v \<Longrightarrow> lx_mac_of S s = w_lladdr v"
  by (rule ext) (auto simp: lx_mac_of_def lx_shows_def lx_sees_def)

lemma lx_noted_keeps:
  assumes "lx_laws S rt nb" and "lx_shows S n (kern s) v" and "lx_in_step rt (w_index v) (self s) (kern s)"
  shows "lx_keeps S rt nb (i_static_arp (self s)) (w_lladdr v) (lx_noted v s)"
  using assms
  by (auto simp: lx_keeps_def lx_noted_def lx_in_step_def intro: lx_mac_of_view)

text \<open>A router of unknown MAC is not pinned: the state stays.\<close>

lemma lx_act_unfit:
  assumes keeps: "lx_keeps S rt nb static mac s" and unfit: "\<not> fit_decision (\<lambda>gw kick. lx_val static mac gw \<noteq> None) d"
  obtains gw kick where "d = Pin gw kick" and "static" and "mac gw = None" and "lx_act S d s = Some ((), s)"
proof -
  obtain gw kick where d: "d = Pin gw kick" and val: "lx_val static mac gw = None"
    using unfit by (auto simp: fit_decision_def)
  then have static: "static" "mac gw = None"
    by (auto simp: lx_val_def split: if_splits)
  have "lx_act S d s = Some ((), s)"
    using keeps static
    by (simp add: d lx_keeps_def lx_laws_def lx_pin_kick lx_install_run pin_neighbor_quiet [where rt = rt and nb = nb])
  then show thesis using that d static by blast
qed

text \<open>A second pass over the same tables does nothing.\<close>

lemma lx_reconcile_again:
  assumes laws: "lx_laws S rt nb" and sees: "lx_shows S (i_name (self s)) (kern s) v"
    and step: "lx_in_step rt (w_index v) (self s) (kern s)"
  shows "wp (lx_reconcile S) (\<lambda>_ t. lx_shows S (i_name (self s)) (kern t) v \<longrightarrow>
    lx_reconcile S t = Some ((), t)) s"
proof -
  let ?d = "lx_decided S v s" and ?s = "lx_noted v s" and ?mac = "w_lladdr v"
  have q: "lx_quiet S" using laws by (simp add: lx_laws_def)
  have keeps: "lx_keeps S rt nb (i_static_arp (self s)) ?mac ?s"
    using laws sees step by (rule lx_noted_keeps)
  have run: "lx_reconcile S u = lx_act S (lx_decided S v u) (lx_noted v u)"
    if "lx_shows S (i_name (self u)) (kern u) v" for u
    using that unfolding lx_noted_def by (rule lx_reconcile_shows [OF q])
  have "wp (lx_act S ?d) (\<lambda>_ t. lx_frame ?s t \<and> (lx_mac_of S t = ?mac \<longrightarrow> lx_act S ?d t = Some ((), t))) ?s"
  proof (cases "fit_decision (\<lambda>gw kick. lx_val (i_static_arp (self s)) ?mac gw \<noteq> None) ?d")
    case True
    with keeps show ?thesis by (rule lx_steady.carry_again)
  next
    case False
    with keeps obtain "lx_act S ?d ?s = Some ((), ?s)"
      by (rule lx_act_unfit)
    then show ?thesis by (simp add: wp_def lx_frame_def)
  qed
  then have "wp (lx_act S ?d) (\<lambda>_ t. lx_shows S (i_name (self s)) (kern t) v \<longrightarrow>
      lx_reconcile S t = Some ((), t)) ?s"
  proof (rule wp_mono, intro impI)
    fix t
    assume t: "lx_frame ?s t \<and> (lx_mac_of S t = ?mac \<longrightarrow> lx_act S ?d t = Some ((), t))"
      and again: "lx_shows S (i_name (self s)) (kern t) v"
    have same: "i_index (self t) = w_index v" "i_name (self t) = i_name (self s)"
      "i_require_sentinel (self t) = i_require_sentinel (self s)"
      using t by (simp_all add: lx_frame_def lx_noted_def)
    then have "lx_noted v t = t" by (simp add: lx_noted_def)
    then show "lx_reconcile S t = Some ((), t)"
      using run [of t] again same t lx_mac_of_view [OF again same(1)] by simp
  qed
  then show ?thesis by (simp only: wp_def run [OF sees])
qed

section \<open>A pass over all interfaces\<close>

text \<open>
  The key of an IPv4 route of Linux is its prefix, TOS and metric (routes of different metrics
  coexist, which \<^verbatim>\<open>host/freebsd/README.md\<close> contrasts with FreeBSD): a request to replace puts
  its route in the place of the one of its metric, whatever interface that one is of.
\<close>

definition lx_key_law :: "('k, 'x) lx_sys_scheme \<Rightarrow> 'k lx_rt \<Rightarrow> bool" where
  "lx_key_law S rt \<longleftrightarrow> (\<forall>i m gw k j. j \<noteq> i \<longrightarrow> rt (snd (lx_route_replace S i m gw k)) (j, m) = None)"

definition sole :: "int option \<times> int \<Rightarrow> string \<Rightarrow> (int option \<times> int \<Rightarrow> string option) \<Rightarrow>
    int option \<times> int \<Rightarrow> string option" where
  "sole key gw routes = (\<lambda>(j, m). if (j, m) = key then Some gw else if m = snd key then None else routes (j, m))"

lemma replace_sole:
  assumes "lx_route_law S rt nb" and "lx_key_law S rt"
  shows "rt (snd (lx_route_replace S i m gw k)) = sole (i, m) gw (rt k)"
  using assms by (auto simp: lx_route_law_def lx_key_law_def sole_def)

text \<open>
  What requests on the daemon's routes and neighbors leave alone: links, IPv6 routes, the IPv4
  routes of others and IPv6 neighbors. The daemon's metric \<open>m\<close> is one that no other route has.
\<close>

definition lx_same_tables :: "('k, 'x) lx_sys_scheme \<Rightarrow> 'k \<Rightarrow> 'k \<Rightarrow> bool" where
  "lx_same_tables S k k' \<longleftrightarrow>
     (\<forall>n. fst (lx_link_lookup S n k') = fst (lx_link_lookup S n k)) \<and>
     fst (lx_get_routes S Inet6 k') = fst (lx_get_routes S Inet6 k) \<and>
     map_sum id (filter lx_foreign) (fst (lx_get_routes S Inet k'))
       = map_sum id (filter lx_foreign) (fst (lx_get_routes S Inet k)) \<and>
     (\<forall>i a. fst (lx_get_neighbours S Inet6 i a k') = fst (lx_get_neighbours S Inet6 i a k))"

definition lx_tables_law :: "('k, 'x) lx_sys_scheme \<Rightarrow> int \<Rightarrow> bool" where
  "lx_tables_law S m \<longleftrightarrow> (\<forall>k i.
     (\<forall>gw. lx_same_tables S k (snd (lx_route_replace S i m gw k))) \<and>
     lx_same_tables S k (snd (lx_route_del S i m k)) \<and>
     (\<forall>mac. lx_same_tables S k (snd (lx_neigh_replace S (SENTINEL S) mac i k))) \<and>
     lx_same_tables S k (snd (lx_neigh_del S (SENTINEL S) i k)))"

lemma lx_same_tables_refl: "lx_same_tables S k k"
  by (simp add: lx_same_tables_def)

lemma lx_shows_same:
  assumes "lx_same_tables S k k'" and "lx_shows S n k v"
  shows "lx_shows S n k' v"
proof -
  obtain rs where rs: "lx_sees S n k (v\<lparr>w_routes4 := rs\<rparr>)" "filter lx_foreign rs = filter lx_foreign (w_routes4 v)"
    using assms(2) by (auto simp: lx_shows_def)
  then have "map_sum id (filter lx_foreign) (fst (lx_get_routes S Inet k')) = Inr (filter lx_foreign rs)"
    using assms(1) by (simp add: lx_same_tables_def lx_sees_def)
  then obtain rs' where "fst (lx_get_routes S Inet k') = Inr rs'" "filter lx_foreign rs' = filter lx_foreign rs"
    by (cases "fst (lx_get_routes S Inet k')") auto
  then show ?thesis
    using assms(1) rs unfolding lx_shows_def
    by (intro exI [of _ rs']) (simp add: lx_sees_def lx_same_tables_def)
qed

text \<open>
  One interface's turn, on the routes and the permanent neighbors alone: nothing when it is gone,
  its own entry removed when it ceases and was active, else the entry of the selected router,
  unless that is the route it remembers or a router of unknown MAC.
\<close>

type_synonym lx_tables = "(int option \<times> int \<Rightarrow> string option) \<times> (int option \<Rightarrow> string option)"

definition lx_turn :: "string \<Rightarrow> (string \<Rightarrow> lx_view) \<Rightarrow> string \<times> lx_iface \<Rightarrow> lx_tables \<Rightarrow> lx_tables" where
  "lx_turn sentinel v e tabs = (case e of (n, i) \<Rightarrow> case tabs of (routes, neighs) \<Rightarrow>
     case lx_spec sentinel (i_require_sentinel i) (v n) of
       Gone \<Rightarrow> tabs
     | Cease reason \<Rightarrow>
         if \<not> active i then tabs
         else if i_static_arp i then (routes, neighs(w_index (v n) := None))
         else (routes((w_index (v n), i_metric i) := None), neighs)
     | Pin gw kick \<Rightarrow>
         if i_static_arp i
         then (case w_lladdr (v n) gw of None \<Rightarrow> tabs | Some mac \<Rightarrow> (routes, neighs(w_index (v n) := Some mac)))
         else if i_via i = Some gw then tabs
         else (sole (w_index (v n), i_metric i) gw routes, neighs))"

abbreviation lx_tabs :: "'k lx_rt \<Rightarrow> 'k lx_nb \<Rightarrow> ('k, 'e, 'x) os_state_scheme \<Rightarrow> lx_tables" where
  "lx_tabs rt nb s \<equiv> (rt (kern s), nb (kern s))"

lemma lx_act_turn:
  assumes laws: "lx_laws S rt nb" "lx_key_law S rt" "lx_tables_law S (i_metric (self s))"
    and ok: "iface_ok (out s) (self s)" and index: "i_index (self s) = w_index (v n)"
    and mac: "lx_mac_of S s = w_lladdr (v n)"
    and d: "d = lx_spec (SENTINEL S) (i_require_sentinel (self s)) (v n)"
  shows "wp (lx_act S d) (\<lambda>_ t. lx_tabs rt nb t = lx_turn (SENTINEL S) v (n, self s) (lx_tabs rt nb s) \<and>
    lx_same_tables S (kern s) (kern t)) s"
proof -
  have parts: "lx_quiet S" "lx_idle_sockets S" "lx_route_law S rt nb" "lx_neigh_law S rt nb"
    using laws(1) by (simp_all add: lx_laws_def)
  have modes: "i_static_arp (self s) \<Longrightarrow> i_via (self s) = None" "\<not> i_static_arp (self s) \<Longrightarrow> i_mac (self s) = None"
    using ok by (auto simp: iface_ok_def)
  note same = laws(3) [unfolded lx_tables_law_def, rule_format]
  show ?thesis
  proof (cases d)
    case Gone
    then show ?thesis
      using d by (simp add: lx_turn_def lx_forget_def wp_simps lx_same_tables_refl)
  next
    case (Cease reason)
    then show ?thesis
      using d parts(3,4) modes same
      by (auto simp: lx_turn_def lx_cease_def lx_withdraw_def wp_simps lx_route_law_def lx_neigh_law_def
          active_def index lx_same_tables_refl)
  next
    case (Pin gw kick)
    note spec = d [symmetric, unfolded Pin]
    have "wp (pin_neighbor S gw) (\<lambda>_ t. lx_tabs rt nb t = lx_turn (SENTINEL S) v (n, self s) (lx_tabs rt nb s) \<and>
        lx_same_tables S (kern s) (kern t)) s" if static: "i_static_arp (self s)"
    proof (cases "w_lladdr (v n) gw")
      case None
      then show ?thesis
        using static
        by (simp add: wp_def pin_neighbor_quiet [OF parts(1,4)] mac spec lx_turn_def lx_same_tables_refl)
    next
      case (Some m)
      have "wp (pin_write S m (self s)) (\<lambda>_ t. lx_tabs rt nb t = (rt (kern s), (nb (kern s))(w_index (v n) := Some m)) \<and>
          lx_same_tables S (kern s) (kern t)) s"
        using parts(4) same
        by (simp add: pin_write_def wp_simps lx_neigh_law_def index)
      then show ?thesis
        using static Some
        by (auto simp: spec wp_def pin_neighbor_quiet [OF parts(1,4)] mac lx_turn_def lx_same_tables_refl index)
    qed
    moreover have "wp (install_route S gw) (\<lambda>_ t. lx_tabs rt nb t = lx_turn (SENTINEL S) v (n, self s) (lx_tabs rt nb s) \<and>
        lx_same_tables S (kern s) (kern t)) s" if "\<not> i_static_arp (self s)"
      using that parts(3) same
      by (auto simp: spec install_route_def wp_simps lx_turn_def replace_sole [OF parts(3) laws(2)] index
          lx_route_law_def lx_same_tables_refl)
    ultimately show ?thesis
      by (simp add: Pin lx_pin_kick [OF parts(2)] wp_def lx_install_run)
  qed
qed

text \<open>What a pass over all interfaces starts from and keeps.\<close>

definition lx_pass_ok :: "('k, 'x) lx_sys_scheme \<Rightarrow> int \<Rightarrow> (string \<Rightarrow> lx_view) \<Rightarrow> 'k lx_state \<Rightarrow> bool" where
  "lx_pass_ok S metric v s \<longleftrightarrow> lx_inv s \<and>
     (\<forall>n i. map_of (lx_ifaces s) n = Some i \<longrightarrow> i_metric i = metric \<and> lx_shows S n (kern s) (v n))"

lemma lx_iface_turn:
  assumes laws: "lx_laws S rt nb" "lx_key_law S rt" "lx_tables_law S metric"
    and ok: "lx_pass_ok S metric v s" and i: "map_of (lx_ifaces s) n = Some i"
  shows "wp (on_iface n (lx_reconcile S)) (\<lambda>_ t. lx_pass_ok S metric v t \<and>
    lx_tabs rt nb t = lx_turn (SENTINEL S) v (n, i) (lx_tabs rt nb s) \<and>
    (\<forall>m. m \<noteq> n \<longrightarrow> map_of (lx_ifaces t) m = map_of (lx_ifaces s) m)) s"
proof -
  let ?s = "iface_state s i"
  have inv: "lx_inv s" using ok by (simp add: lx_pass_ok_def)
  have name: "i_name i = n" and iok: "iface_ok (out s) i"
    using inv i unfolding lx_inv_def by blast+
  have tabs: "i_metric i = metric" "lx_shows S n (kern s) (v n)"
    using ok i unfolding lx_pass_ok_def by blast+
  have q: "lx_quiet S" using laws(1) by (simp add: lx_laws_def)
  have run: "lx_reconcile S ?s = lx_act S (lx_decided S (v n) ?s) (lx_noted (v n) ?s)"
    using lx_reconcile_shows [OF q, of ?s "v n"] tabs name by (simp add: lx_noted_def)
  have mac: "lx_mac_of S (lx_noted (v n) ?s) = w_lladdr (v n)"
    by (rule lx_mac_of_view [where n = n]) (simp_all add: lx_noted_def tabs)
  have "wp (lx_act S (lx_decided S (v n) ?s)) (\<lambda>_ t. lx_tabs rt nb t
      = lx_turn (SENTINEL S) v (n, self (lx_noted (v n) ?s)) (lx_tabs rt nb (lx_noted (v n) ?s)) \<and>
      lx_same_tables S (kern s) (kern t)) (lx_noted (v n) ?s)"
    using lx_act_turn [OF laws(1,2), of "lx_noted (v n) ?s" v n] mac laws(3) iok tabs
    by (simp add: lx_noted_def iface_ok_def)
  moreover have "lx_turn (SENTINEL S) v (n, self (lx_noted (v n) ?s)) x = lx_turn (SENTINEL S) v (n, i) x" for x
    by (cases x) (auto simp: lx_turn_def lx_noted_def active_def split: decision.split)
  moreover have noted: "lx_tabs rt nb (lx_noted (v n) ?s) = lx_tabs rt nb s"
    by (simp add: lx_noted_def)
  ultimately have "wp (lx_reconcile S) (\<lambda>_ t. lx_tabs rt nb t = lx_turn (SENTINEL S) v (n, i) (lx_tabs rt nb s) \<and>
      lx_same_tables S (kern s) (kern t)) ?s"
    by (simp only: wp_def run noted)
  moreover have "wlp (lx_reconcile S) (\<lambda>_. li_step ?s) ?s"
    using lx_reconcile_step [of ?s S] iok by simp
  ultimately have pass: "wp (lx_reconcile S) (\<lambda>_ t.
      (lx_tabs rt nb t = lx_turn (SENTINEL S) v (n, i) (lx_tabs rt nb s) \<and>
      lx_same_tables S (kern s) (kern t)) \<and> li_step ?s t) ?s"
    by (rule wlp_wp_conj)
  have "lx_pass_ok S metric v (put_iface n s t)"
    if "lx_same_tables S (kern s) (kern t)" and step: "li_step ?s t" for t
  proof -
    have "i_metric (self t) = metric" using step tabs(1) by (simp add: li_step_def li_left_def)
    moreover have "lx_shows S m (kern t) (v m)" if "map_of (lx_ifaces s) m = Some j" for m j
      using lx_shows_same [OF \<open>lx_same_tables S (kern s) (kern t)\<close>] ok that unfolding lx_pass_ok_def by blast
    ultimately show ?thesis
      using lx_inv_put [OF inv i step] ok i
      by (auto simp: lx_pass_ok_def simp del: map_of_eq_Some_iff)
  qed
  then show ?thesis
    using i by (auto simp: wp_on_iface intro!: wp_mono [OF pass])
qed

lemma for_each_fold:
  assumes step: "\<And>n i s. ok s \<Longrightarrow> map_of (lx_ifaces s) n = Some i \<Longrightarrow> wp (g n) (\<lambda>_ t. ok t \<and>
    proj t = h (n, i) (proj s) \<and> (\<forall>m. m \<noteq> n \<longrightarrow> map_of (lx_ifaces t) m = map_of (lx_ifaces s) m)) s"
  shows "ok s \<Longrightarrow> distinct ns \<Longrightarrow> \<forall>n \<in> set ns. map_of (lx_ifaces s) n = Some (f n) \<Longrightarrow>
    wp (for_each ns g) (\<lambda>_ t. ok t \<and> proj t = fold (\<lambda>n. h (n, f n)) ns (proj s)) s"
proof (induction ns arbitrary: s)
  case Nil
  then show ?case by (simp add: wp_ret)
next
  case (Cons n ns)
  show ?case
    unfolding for_each.simps wp_bnd
  proof (rule wp_mono [OF step [OF Cons.prems(1)]])
    show "map_of (lx_ifaces s) n = Some (f n)" using Cons.prems(3) by simp
    fix u t
    assume t: "ok t \<and> proj t = h (n, f n) (proj s) \<and>
      (\<forall>m. m \<noteq> n \<longrightarrow> map_of (lx_ifaces t) m = map_of (lx_ifaces s) m)"
    have "map_of (lx_ifaces t) m = Some (f m)" if m: "m \<in> set ns" for m
    proof -
      have "m \<noteq> n" using Cons.prems(2) m by auto
      then have "map_of (lx_ifaces t) m = map_of (lx_ifaces s) m" using t by blast
      then show ?thesis using Cons.prems(3) m by simp
    qed
    then have "wp (for_each ns g) (\<lambda>_ r. ok r \<and> proj r = fold (\<lambda>n. h (n, f n)) ns (proj t)) t"
      using t Cons.prems(2) by (intro Cons.IH ballI) simp_all
    then show "wp (for_each ns g) (\<lambda>_ r. ok r \<and> proj r = fold (\<lambda>n. h (n, f n)) (n # ns) (proj s)) t"
      using t by simp
  qed
qed

text \<open>A step for each interface of the dictionary is a fold over the dictionary.\<close>

lemma for_each_iface:
  assumes step: "\<And>n i s. ok s \<Longrightarrow> map_of (lx_ifaces s) n = Some i \<Longrightarrow> wp (g n) (\<lambda>_ t. ok t \<and>
    proj t = h (n, i) (proj s) \<and> (\<forall>m. m \<noteq> n \<longrightarrow> map_of (lx_ifaces t) m = map_of (lx_ifaces s) m)) s"
    and ok: "ok s" and inv: "lx_inv s"
  shows "wp (for_each (lx_names s) g) (\<lambda>_ t. ok t \<and> proj t = fold h (lx_ifaces s) (proj s)) s"
proof -
  let ?f = "\<lambda>n. the (map_of (lx_ifaces s) n)"
  have d: "distinct (lx_names s)" using inv by (simp add: lx_inv_def)
  have "map_of (lx_ifaces s) n = Some (?f n)" if "n \<in> set (lx_names s)" for n
    using that lx_names_dom [of n s] by (auto simp del: map_of_eq_Some_iff)
  then have "wp (for_each (lx_names s) g)
      (\<lambda>_ t. ok t \<and> proj t = fold (\<lambda>n. h (n, ?f n)) (lx_names s) (proj s)) s"
    by (intro for_each_fold [OF step ok d]) blast+
  moreover have "fold (\<lambda>n. h (n, ?f n)) (lx_names s) x = fold h (lx_ifaces s) x" for x
    unfolding fold_map using d by (intro fold_cong) auto
  ultimately show ?thesis by simp
qed

lemma reconcile_each_turns:
  assumes laws: "lx_laws S rt nb" "lx_key_law S rt" "lx_tables_law S metric"
    and ok: "lx_pass_ok S metric v s"
  shows "wp (reconcile_each S) (\<lambda>_ t.
    lx_tabs rt nb t = fold (lx_turn (SENTINEL S) v) (lx_ifaces s) (lx_tabs rt nb s)) s"
proof -
  have "lx_inv s" using ok by (simp add: lx_pass_ok_def)
  then have "wp (for_each (lx_names s) (\<lambda>n. on_iface n (lx_reconcile S))) (\<lambda>_ t. lx_pass_ok S metric v t \<and>
      lx_tabs rt nb t = fold (lx_turn (SENTINEL S) v) (lx_ifaces s) (lx_tabs rt nb s)) s"
    by (intro for_each_iface [where ok = "lx_pass_ok S metric v" and proj = "\<lambda>s. lx_tabs rt nb s"]
        lx_iface_turn [OF laws] ok)
  then show ?thesis
    by (auto simp: reconcile_each_def wp_bnd wp_gets elim: wp_mono)
qed

section \<open>The shutdown\<close>

definition lx_clear :: "string \<times> lx_iface \<Rightarrow> lx_tables \<Rightarrow> lx_tables" where
  "lx_clear e tabs = (case e of (n, i) \<Rightarrow> case tabs of (routes, neighs) \<Rightarrow>
     if \<not> active i then tabs
     else if i_static_arp i then (routes, neighs(i_index i := None))
     else (routes((i_index i, i_metric i) := None), neighs))"

lemma lx_stop_one_clears:
  assumes laws: "lx_route_law S rt nb" "lx_neigh_law S rt nb"
    and inv: "lx_inv s" and i: "map_of (lx_ifaces s) n = Some i"
  shows "wp (lx_stop_one S n) (\<lambda>_ t. lx_inv t \<and> lx_tabs rt nb t = lx_clear (n, i) (lx_tabs rt nb s) \<and>
    (\<forall>m. m \<noteq> n \<longrightarrow> map_of (lx_ifaces t) m = map_of (lx_ifaces s) m)) s"
proof -
  have ok: "iface_ok (out s) i" using inv i by (simp add: lx_inv_def)
  then have modes: "i_static_arp i \<Longrightarrow> i_via i = None" "\<not> i_static_arp i \<Longrightarrow> i_mac i = None"
    by (auto simp: iface_ok_def)
  show ?thesis
  proof (cases "active i")
    case True
    have "wp (lx_withdraw S ''daemon shutdown'') (\<lambda>_ t. lx_tabs rt nb t = lx_clear (n, i) (lx_tabs rt nb s))
        (iface_state s i)"
      using laws modes True
      by (auto simp: lx_withdraw_def wp_simps lx_clear_def lx_route_law_def lx_neigh_law_def active_def)
    moreover have "wlp (lx_withdraw S ''daemon shutdown'') (\<lambda>_. li_step (iface_state s i)) (iface_state s i)"
      using wlp_mono [OF lx_withdraw_step [of "iface_state s i" S]] ok by simp
    ultimately have "wp (lx_withdraw S ''daemon shutdown'') (\<lambda>_ t. lx_tabs rt nb t = lx_clear (n, i) (lx_tabs rt nb s) \<and>
        li_step (iface_state s i) t) (iface_state s i)"
      by (rule wlp_wp_conj)
    then show ?thesis
      using True i lx_inv_put [OF inv i] by (auto simp: lx_stop_one_def wp_simps elim!: wp_mono)
  next
    case False
    then show ?thesis
      using i lx_inv_put [OF inv i li_step_refl] by (simp add: lx_stop_one_def wp_simps lx_clear_def)
  qed
qed

lemma fold_clear:
  "fold lx_clear es (R, N) =
    (\<lambda>key. if \<exists>(n, i) \<in> set es. active i \<and> \<not> i_static_arp i \<and> (i_index i, i_metric i) = key then None else R key,
     \<lambda>j. if \<exists>(n, i) \<in> set es. active i \<and> i_static_arp i \<and> i_index i = j then None else N j)"
proof (induction es arbitrary: R N)
  case (Cons e es)
  then show ?case by (cases e) (auto simp: lx_clear_def fun_eq_iff)
qed simp

text \<open>
  The shutdown ends, takes every route and neighbor entry the daemon remembers out of the kernel
  and leaves the others.
\<close>

lemma lx_stop_clears:
  assumes laws: "lx_route_law S rt nb" "lx_neigh_law S rt nb" and inv: "lx_inv s"
  shows "wp (lx_stop S) (\<lambda>_ t. lx_tabs rt nb t = fold lx_clear (lx_ifaces s) (lx_tabs rt nb s)) s"
proof -
  have "wp (for_each (lx_names s) (lx_stop_one S)) (\<lambda>_ t. lx_inv t \<and>
      lx_tabs rt nb t = fold lx_clear (lx_ifaces s) (lx_tabs rt nb s)) s"
    by (intro for_each_iface [where ok = lx_inv and proj = "\<lambda>s. lx_tabs rt nb s"]
        lx_stop_one_clears [OF laws] inv)
  then show ?thesis
    unfolding lx_stop_def lx_stop_one_def [symmetric] wp_bnd wp_gets by (auto elim: wp_mono)
qed

end
