(* ===== verification/Linux_Properties.thy ===== *)
theory Linux_Properties
  imports Linux_Keeper
begin

text \<open>The properties of the Linux daemon, with witnesses on a small host of two interfaces.\<close>

section \<open>A small host\<close>

text \<open>
  The world is the daemon's routes and the permanent neighbors of the gateway address. A dump of
  the IPv4 routes shows the sentinel's and those of the daemon.
\<close>

type_synonym lx_demo_kern = "(int option \<times> int \<Rightarrow> string option) \<times> (int option \<Rightarrow> string option)"

definition lx_demo_route :: "int \<Rightarrow> string \<Rightarrow> int option \<Rightarrow> int option \<Rightarrow> lx_route" where
  "lx_demo_route oif gw proto pref = \<lparr>r_dst_len = 0, r_proto = proto, r_oif = Some oif,
     r_gateway = Some gw, r_pref = pref\<rparr>"

definition lx_demo_own :: "lx_demo_kern \<Rightarrow> lx_route list" where
  "lx_demo_own k = concat (map (\<lambda>i. case fst k (Some i, 50) of None \<Rightarrow> []
     | Some gw \<Rightarrow> [\<lparr>r_dst_len = 0, r_proto = Some RT_PROTO, r_oif = Some i, r_gateway = None, r_pref = None\<rparr>]) [1, 2])"

text \<open>
  Interface 1 has the sentinel and three routers, two of them of medium preference, one
  reachable; interface 2 has a router and no sentinel.
\<close>

definition lx_demo :: "string \<Rightarrow> lx_demo_kern lx_sys" where
  "lx_demo release = \<lparr>lx_env_gateway = None, lx_release = release, lx_set_order = (\<lambda>ns. ns),
     lx_get_links = (\<lambda>k. (Inr [\<lparr>l_type = Some 1, l_name = Some ''eth0''\<rparr>,
        \<lparr>l_type = Some 772, l_name = Some ''lo''\<rparr>, \<lparr>l_type = Some 1, l_name = Some ''eth1''\<rparr>], k)),
     lx_link_lookup = (\<lambda>n k. (Inr (if n = ''eth0'' then [1] else if n = ''eth1'' then [2] else []), k)),
     lx_get_routes = (\<lambda>f k. (Inr (case f of
        Inet \<Rightarrow> lx_demo_route 1 ''192.0.0.11'' (Some 16) None # lx_demo_own k
      | Inet6 \<Rightarrow> [lx_demo_route 1 ''fe80::a'' (Some 9) (Some 0), lx_demo_route 1 ''fe80::b'' (Some 9) None,
          lx_demo_route 1 ''fe80::c'' (Some 9) (Some 3), lx_demo_route 2 ''fe80::d'' (Some 9) (Some 1)]), k)),
     lx_get_neighbours = (\<lambda>f i a k. (Inr (case f of
        Inet6 \<Rightarrow> [\<lparr>nb_state = (if a = ''fe80::a'' then 2 else 4), nb_lladdr = Some (''mac of '' @ a)\<rparr>]
      | Inet \<Rightarrow> (case snd k i of None \<Rightarrow> [] | Some m \<Rightarrow> [\<lparr>nb_state = 0x80, nb_lladdr = Some m\<rparr>])), k)),
     lx_route_replace = (\<lambda>i m gw k. (Inr (), (sole (i, m) gw (fst k), snd k))),
     lx_route_del = (\<lambda>i m k. (if fst k (i, m) = None then Inl (Netlink_error E_ESRCH) else Inr (),
        ((fst k)((i, m) := None), snd k))),
     lx_neigh_replace = (\<lambda>a mac i k. (Inr (), (fst k, (snd k)(i := Some mac)))),
     lx_neigh_del = (\<lambda>a i k. (if snd k i = None then Inl (Netlink_error E_ENOENT) else Inr (),
        (fst k, (snd k)(i := None)))),
     lx_socket = (\<lambda>k. (Inr (), k)), lx_bind_to_device = (\<lambda>n k. (Inr (), k)), lx_sendto = (\<lambda>a k. (Inr (), k)),
     lx_poll = (\<lambda>k. (([Fd_monitor], False), k)), lx_read_wakeup = (\<lambda>k. (Inr (), k)),
     lx_mon_get = (\<lambda>k. (Inl Os_error, k))\<rparr>"

definition lx_demo_view :: "string \<Rightarrow> lx_view" where
  "lx_demo_view n = \<lparr>w_index = (if n = ''eth0'' then Some 1 else if n = ''eth1'' then Some 2 else None),
     w_routes4 = [lx_demo_route 1 ''192.0.0.11'' (Some 16) None],
     w_routes6 = [lx_demo_route 1 ''fe80::a'' (Some 9) (Some 0), lx_demo_route 1 ''fe80::b'' (Some 9) None,
       lx_demo_route 1 ''fe80::c'' (Some 9) (Some 3), lx_demo_route 2 ''fe80::d'' (Some 9) (Some 1)],
     w_nud = (\<lambda>a. if a = ''fe80::a'' then 2 else 4), w_lladdr = (\<lambda>a. Some (''mac of '' @ a))\<rparr>"

lemma SENTINEL_demo: "SENTINEL (lx_demo release) = ''192.0.0.11''"
  by (simp add: SENTINEL_def lx_demo_def)

lemma lx_demo_laws: "lx_laws (lx_demo release) fst snd"
proof -
  have "(0x80 :: u16) AND NUD_PERMANENT \<noteq> 0" by (simp add: NUD_PERMANENT_def)
  then show ?thesis
    by (auto simp: lx_laws_def lx_quiet_def lx_idle_sockets_def lx_route_law_def lx_neigh_law_def quiet_def
        sole_def netlink_call_def os_call_def lx_demo_def split: lx_family.split option.split)
qed


lemma lx_demo_key: "lx_key_law (lx_demo release) fst"
  by (simp add: lx_key_law_def lx_demo_def sole_def)

lemma lx_demo_own_foreign: "filter lx_foreign (lx_demo_own k) = []"
  by (simp add: lx_demo_own_def lx_foreign_def split: option.split)

lemma lx_demo_tables: "lx_tables_law (lx_demo release) m"
  by (auto simp: lx_tables_law_def lx_same_tables_def lx_demo_def lx_demo_own_foreign)

lemma lx_demo_sees: "lx_demo_own k = [] \<Longrightarrow> lx_sees (lx_demo release) n k (lx_demo_view n)"
  by (simp add: lx_sees_def lx_demo_def lx_demo_view_def)

lemma lx_demo_shows: "lx_shows (lx_demo release) n k (lx_demo_view n)"
  unfolding lx_shows_def
  by (rule exI [of _ "lx_demo_route 1 ''192.0.0.11'' (Some 16) None # lx_demo_own k"])
    (simp add: lx_sees_def lx_demo_def lx_demo_view_def lx_demo_own_foreign)

definition lx_demo_iface :: "string \<Rightarrow> bool \<Rightarrow> bool \<Rightarrow> string option \<Rightarrow> lx_iface" where
  "lx_demo_iface n require static via = \<lparr>i_name = n, i_metric = 50, i_require_sentinel = require,
     i_static_arp = static, i_index = None, i_via = via, i_mac = None\<rparr>"

lemma lx_demo_eth0: "lx_router (lx_demo_view ''eth0'') = Some ''fe80::a''"
  by (simp add: lx_router_def lx_choice_def lx_candidates_def lx_demo_view_def is_default_def lx_demo_route_def
      PREF_RANK_def less_eq_prod_def)

lemma lx_demo_eth1: "lx_router (lx_demo_view ''eth1'') = Some ''fe80::d''"
  by (simp add: lx_router_def lx_choice_def lx_candidates_def lx_demo_view_def is_default_def lx_demo_route_def
      PREF_RANK_def less_eq_prod_def)

lemma lx_demo_spec:
  "lx_spec ''192.0.0.11'' r (lx_demo_view ''eth0'') = Pin ''fe80::a'' False"
  "lx_spec ''192.0.0.11'' True (lx_demo_view ''eth1'')
    = Cease (''sentinel '' @ ''192.0.0.11'' @ '' removed; ceasing per s4'')"
  "lx_spec ''192.0.0.11'' False (lx_demo_view ''eth1'') = Pin ''fe80::d'' False"
  by (simp_all add: lx_spec_def lx_demo_eth0 lx_demo_eth1)
    (simp_all add: lx_demo_view_def lx_sentinel_def is_default_def lx_demo_route_def RT_PROTO_def NUD_USABLE_def)

section \<open>One interface\<close>

text \<open>
  C26: What a pass over an interface does, exactly, over tables that stand still: it records the
  index and carries out what \<open>lx_spec\<close> reads off the tables: nothing when the interface is gone,
  ceasing without the sentinel or without a router, else installing the selected router, after
  a solicitation when the router's neighbor entry is not usable.
\<close>
theorem lx_reconcile_decision:
  assumes "lx_quiet S" and "lx_sees S (i_name (self s)) (kern s) v"
  shows "lx_reconcile S s = lx_act S (lx_spec (SENTINEL S) (i_require_sentinel (self s)) v)
    (s\<lparr>self := (self s)\<lparr>i_index := w_index v\<rparr>\<rparr>)"
  using assms by (rule lx_reconcile_spec)

text \<open>
  The Default Router Preference of RFC 4191 as the kernel gives it with a route: high and low are
  1 and 3, a route without one is of medium preference.
\<close>

definition lx_preference :: "lx_route \<Rightarrow> int" where
  "lx_preference r = (if r_pref r = Some 1 then 1 else if r_pref r = Some 3 then -1 else 0)"

text \<open>An IPv6 default route of the interface by \<open>gw\<close>.\<close>

definition lx_default_via :: "lx_view \<Rightarrow> string \<Rightarrow> lx_route \<Rightarrow> bool" where
  "lx_default_via v gw r \<longleftrightarrow> r \<in> set (w_routes6 v) \<and> r_dst_len r = 0 \<and> r_oif r = w_index v \<and> r_gateway r = Some gw"

lemma lx_candidates_via:
  "c \<in> set (lx_candidates v) \<longleftrightarrow> (\<exists>gw r. lx_default_via v gw r \<and>
    c = (gw, lx_preference r + 1, if w_nud v gw = 2 then 1 else 0))"
proof -
  have rank: "PREF_RANK p = (if p = Some 1 then 1 else if p = Some 3 then -1 else 0) + 1" for p
    by (cases p) (simp_all add: PREF_RANK_def)
  have one: "c \<in> set (lx_candidate (w_nud v) r) \<longleftrightarrow> (\<exists>gw. r_gateway r = Some gw \<and>
      c = (gw, lx_preference r + 1, if w_nud v gw = 2 then 1 else 0))" for r
    by (cases "r_gateway r") (simp_all add: rank lx_preference_def)
  show ?thesis
    by (auto simp: lx_candidates_def one lx_default_via_def is_default_def simp del: lx_candidate.simps)
qed

text \<open>Among equals the last in the dump is taken: no candidate before it is better, every one after it is worse.\<close>

lemma lx_selects_last:
  assumes "lx_quiet S" and "lx_sees S n (kern s) v" and "i_index (self s) = w_index v"
  shows "\<exists>r. lx_select_router S s = Some (r, s) \<and> (case r of
      None \<Rightarrow> lx_candidates v = []
    | Some gw \<Rightarrow> \<exists>pre key post. lx_candidates v = pre @ (gw, key) # post \<and>
        (\<forall>c \<in> set pre. snd c \<le> key) \<and> (\<forall>c \<in> set post. snd c < key))"
proof -
  have routes: "default_routes S Inet6 s = Some (filter (is_default (w_index v)) (w_routes6 v), s)"
    using default_routes_quiet [OF assms(1), of Inet6 s] assms(2,3) by (simp add: lx_sees_def)
  have "lx_select_router S s = Some (lx_router v, s)"
    using lx_select_loop_quiet [OF assms, of _ None]
    by (simp add: lx_select_router_def bnd_def routes lx_router_def lx_candidates_def foldl_lx_best)
  moreover have "case lx_router v of None \<Rightarrow> lx_candidates v = []
    | Some gw \<Rightarrow> \<exists>pre key post. lx_candidates v = pre @ (gw, key) # post \<and>
        (\<forall>c \<in> set pre. snd c \<le> key) \<and> (\<forall>c \<in> set post. snd c < key)"
  proof (cases "lx_choice (lx_candidates v)")
    case None
    then show ?thesis by (simp add: lx_router_def) (simp add: lx_choice_None)
  next
    case (Some c)
    then show ?thesis
      using lx_choice_Some [OF Some] by (cases c) (auto simp: lx_router_def)
  qed
  ultimately show ?thesis by blast
qed

text \<open>
  C27: The selected router has an IPv6 default route of the interface whose RFC 4191 preference
  no other such route exceeds, and is reachable if any router of that preference is. There is
  none only when no default route of the interface has a gateway. Among routers equal in both
  the property leaves the choice open.
\<close>
theorem lx_selects_best:
  assumes "lx_quiet S" and "lx_sees S n (kern s) v" and "i_index (self s) = w_index v"
  shows "\<exists>r. lx_select_router S s = Some (r, s) \<and> (case r of
      None \<Rightarrow> \<not> (\<exists>gw r. lx_default_via v gw r)
    | Some gw \<Rightarrow> \<exists>r. lx_default_via v gw r \<and> (\<forall>gw' r'. lx_default_via v gw' r' \<longrightarrow>
        lx_preference r' < lx_preference r \<or>
        lx_preference r' = lx_preference r \<and> (w_nud v gw' = 2 \<longrightarrow> w_nud v gw = 2)))"
proof -
  obtain r where run: "lx_select_router S s = Some (r, s)" and r: "case r of
      None \<Rightarrow> lx_candidates v = []
    | Some gw \<Rightarrow> \<exists>pre key post. lx_candidates v = pre @ (gw, key) # post \<and>
        (\<forall>c \<in> set pre. snd c \<le> key) \<and> (\<forall>c \<in> set post. snd c < key)"
    using lx_selects_last [OF assms] by blast
  show ?thesis
  proof (cases r)
    case None
    have "\<not> lx_default_via v gw r" for gw r
    proof
      assume "lx_default_via v gw r"
      then have "(gw, lx_preference r + 1, if w_nud v gw = 2 then 1 else 0) \<in> set (lx_candidates v)"
        unfolding lx_candidates_via by blast
      then show False using r None by simp
    qed
    then show ?thesis using run None by auto
  next
    case (Some gw)
    obtain pre key post where split: "lx_candidates v = pre @ (gw, key) # post"
      and best: "\<forall>c \<in> set pre. snd c \<le> key" "\<forall>c \<in> set post. snd c < key"
      using r Some by auto
    have "(gw, key) \<in> set (lx_candidates v)" by (simp add: split)
    then obtain d where d: "lx_default_via v gw d" "key = (lx_preference d + 1, if w_nud v gw = 2 then 1 else 0)"
      unfolding lx_candidates_via by auto
    have "lx_preference r' < lx_preference d \<or>
        lx_preference r' = lx_preference d \<and> (w_nud v gw' = 2 \<longrightarrow> w_nud v gw = 2)"
      if "lx_default_via v gw' r'" for gw' r'
    proof -
      let ?c = "(gw', lx_preference r' + 1, if w_nud v gw' = 2 then 1 else 0 :: int)"
      have "?c \<in> set (lx_candidates v)" using that unfolding lx_candidates_via by blast
      then have "snd ?c \<le> key" using best by (auto simp: split)
      then show ?thesis by (auto simp: d(2) split: if_splits)
    qed
    then show ?thesis using run Some d(1) by auto
  qed
qed

text \<open>
  C28: Reconciliation of an interface is idempotent, in both modes: after a pass against a
  kernel that does what it is asked, a second pass over the same tables, the daemon's own IPv4
  routes apart, sends nothing and leaves the whole state as it is.
\<close>
theorem lx_reconcile_idempotent:
  assumes "lx_laws S rt nb" and "lx_shows S (i_name (self s)) (kern s) v"
    and "lx_in_step rt (w_index v) (self s) (kern s)"
  shows "wp (lx_reconcile S) (\<lambda>_ t. lx_shows S (i_name (self s)) (kern t) v \<longrightarrow>
    lx_reconcile S t = Some ((), t)) s"
  using assms by (rule lx_reconcile_again)

text \<open>
  An exception that nothing catches ends the daemon, and the route it installed stays: here the
  kernel's routes cannot be listed.
\<close>

lemma lx_uncaught:
  assumes "\<forall>k. fst (lx_link_lookup S (i_name (self s)) k) = Inr (l # ls)"
    and "\<forall>k. \<exists>e. fst (lx_get_routes S Inet6 k) = Inl e" and "\<not> i_require_sentinel (self s)"
  shows "lx_reconcile S s = None"
proof -
  obtain k where "lx_link_lookup S (i_name (self s)) (kern s) = (Inr (l # ls), k)"
    using assms(1) by (metis prod.collapse)
  then have "resolve_index S s = Some (Some l, s\<lparr>kern := k, self := (self s)\<lparr>i_index := Some l\<rparr>\<rparr>)"
    by (simp add: resolve_index_def bnd_def run_simps must_def kcall_def Let_def)
  moreover obtain e where "fst (lx_get_routes S Inet6 k) = Inl e" using assms(2) by blast
  ultimately show ?thesis
    by (simp add: lx_reconcile_def bnd_def run_simps assms(3) lx_select_router_def default_routes_def must_raises)
qed

text \<open>
  A route that something else removed is not restored: the object remembers the gateway and
  sends nothing.
\<close>

lemma lx_install_after_flush:
  "i_via (self s) = Some gw \<Longrightarrow> \<not> i_static_arp (self s) \<Longrightarrow> lx_install S gw s = Some ((), s)"
  by (simp add: lx_install_run install_route_def bnd_def run_simps)

section \<open>The daemon\<close>

text \<open>
  C29: A pass over all interfaces leaves in the kernel exactly what \<open>lx_turn\<close> makes of its routes
  and permanent neighbors, one interface after the other in the order of the dictionary: for each
  what its own tables call for, whatever was done for the others and although the routes the pass
  installs show in the next dump. On a kernel without \<open>RTA_VIA\<close> every interface so has its own
  neighbor entry; an IPv4 route is put in place of the one of its metric, so of several interfaces
  only the last to have one installed keeps it.
\<close>
theorem lx_pass_entries:
  assumes "lx_laws S rt nb" and "lx_key_law S rt" and "lx_tables_law S metric" and "lx_inv s"
    and "\<forall>n i. map_of (lx_ifaces s) n = Some i \<longrightarrow> i_metric i = metric \<and> lx_shows S n (kern s) (v n)"
  shows "wp (reconcile_each S) (\<lambda>_ t. (rt (kern t), nb (kern t))
    = fold (lx_turn (SENTINEL S) v) (lx_ifaces s) (rt (kern s), nb (kern s))) s"
  by (rule reconcile_each_turns [OF assms(1-3)]) (use assms(4,5) in \<open>unfold lx_pass_ok_def, blast\<close>)


section \<open>Witnesses\<close>

definition lx_demo_state :: "lx_iface \<Rightarrow> lx_demo_kern li_state" where
  "lx_demo_state i = \<lparr>kern = (\<lambda>_. None, \<lambda>_. None), files = (\<lambda>_. None), out = [], self = i\<rparr>"

theorem lx_reconcile_decision_witness:
  "lx_reconcile (lx_demo ''6.1'') (lx_demo_state (lx_demo_iface ''eth1'' True False None))
    = Some ((), lx_demo_state ((lx_demo_iface ''eth1'' True False None)\<lparr>i_index := Some 2\<rparr>))"
proof -
  have "lx_quiet (lx_demo ''6.1'')" using lx_demo_laws by (simp add: lx_laws_def)
  moreover have "lx_demo_own (kern (lx_demo_state (lx_demo_iface ''eth1'' True False None))) = []"
    by (simp add: lx_demo_state_def lx_demo_own_def)
  ultimately show ?thesis
    using lx_reconcile_decision [OF _ lx_demo_sees, of "''6.1''" "lx_demo_state (lx_demo_iface ''eth1'' True False None)"]
    by (simp add: lx_demo_state_def lx_demo_iface_def SENTINEL_demo lx_demo_spec lx_cease_def active_def
        bnd_def run_simps) (simp add: lx_demo_view_def)
qed

theorem lx_selects_best_witness:
  "\<exists>r. lx_select_router (lx_demo ''6.1'')
      (lx_demo_state ((lx_demo_iface ''eth0'' True False None)\<lparr>i_index := Some 1\<rparr>)) = Some (r, lx_demo_state
      ((lx_demo_iface ''eth0'' True False None)\<lparr>i_index := Some 1\<rparr>)) \<and> r \<noteq> None \<and> r \<noteq> Some ''fe80::c''"
proof -
  let ?s = "lx_demo_state ((lx_demo_iface ''eth0'' True False None)\<lparr>i_index := Some 1\<rparr>)"
    and ?v = "lx_demo_view ''eth0''"
  have q: "lx_quiet (lx_demo ''6.1'')" using lx_demo_laws by (simp add: lx_laws_def)
  have sees: "lx_sees (lx_demo ''6.1'') ''eth0'' (kern ?s) ?v"
    by (rule lx_demo_sees) (simp add: lx_demo_state_def lx_demo_own_def)
  have medium: "lx_default_via ?v ''fe80::a'' (lx_demo_route 1 ''fe80::a'' (Some 9) (Some 0))"
    and low: "\<forall>r. lx_default_via ?v ''fe80::c'' r \<longrightarrow> lx_preference r = -1"
    by (auto simp: lx_default_via_def lx_demo_view_def lx_demo_route_def lx_preference_def)
  have "lx_preference (lx_demo_route 1 ''fe80::a'' (Some 9) (Some 0)) = 0"
    by (simp add: lx_preference_def lx_demo_route_def)
  then have better: "\<not> lx_preference (lx_demo_route 1 ''fe80::a'' (Some 9) (Some 0)) < lx_preference r"
    "lx_preference (lx_demo_route 1 ''fe80::a'' (Some 9) (Some 0)) \<noteq> lx_preference r"
    if "lx_default_via ?v ''fe80::c'' r" for r
    using low that by auto
  have index: "i_index (self ?s) = w_index ?v" by (simp add: lx_demo_state_def lx_demo_view_def)
  obtain r where r: "lx_select_router (lx_demo ''6.1'') ?s = Some (r, ?s)" and best: "case r of
      None \<Rightarrow> \<not> (\<exists>gw r. lx_default_via ?v gw r)
    | Some gw \<Rightarrow> \<exists>r. lx_default_via ?v gw r \<and> (\<forall>gw' r'. lx_default_via ?v gw' r' \<longrightarrow>
        lx_preference r' < lx_preference r \<or>
        lx_preference r' = lx_preference r \<and> (w_nud ?v gw' = 2 \<longrightarrow> w_nud ?v gw = 2))"
    using lx_selects_best [OF q sees index] by blast
  have "r \<noteq> None" using best medium by (cases r) auto
  moreover have "r \<noteq> Some ''fe80::c''"
  proof
    assume "r = Some ''fe80::c''"
    then show False using best medium better by fastforce
  qed
  ultimately show ?thesis using r by blast
qed

theorem lx_reconcile_idempotent_witness:
  "wp (lx_reconcile (lx_demo ''6.1'')) (\<lambda>_ t. lx_reconcile (lx_demo ''6.1'') t = Some ((), t))
    (lx_demo_state (lx_demo_iface ''eth0'' True False None))"
  using lx_reconcile_idempotent [OF lx_demo_laws lx_demo_shows,
      of "lx_demo_state (lx_demo_iface ''eth0'' True False None)" "''6.1''"]
  by (rule wp_mono) (simp_all add: lx_demo_shows lx_in_step_def lx_demo_state_def lx_demo_iface_def)

text \<open>Two interfaces that both call for a route: the second one's takes the place of the first one's.\<close>

definition lx_demo_daemon :: "lx_demo_kern lx_state" where
  "lx_demo_daemon = (lx_init (\<lambda>_. None, \<lambda>_. None))
     \<lparr>lx_ifaces := [(''eth0'', lx_demo_iface ''eth0'' True False None),
        (''eth1'', lx_demo_iface ''eth1'' False False None)]\<rparr>"

theorem lx_pass_entries_witness:
  "wp (reconcile_each (lx_demo ''6.1'')) (\<lambda>_ t. fst (kern t) (Some 1, 50) = None \<and>
    fst (kern t) (Some 2, 50) = Some ''fe80::d'') lx_demo_daemon"
proof -
  have inv: "lx_inv lx_demo_daemon"
    by (auto simp: lx_inv_def lx_demo_daemon_def lx_init_def iface_ok_def lx_demo_iface_def split: if_splits)
  have tables: "\<forall>n i. map_of (lx_ifaces lx_demo_daemon) n = Some i \<longrightarrow>
      i_metric i = 50 \<and> lx_shows (lx_demo ''6.1'') n (kern lx_demo_daemon) (lx_demo_view n)"
    by (auto simp: lx_demo_daemon_def lx_demo_iface_def lx_demo_shows split: if_splits)
  have "fold (lx_turn (SENTINEL (lx_demo ''6.1'')) lx_demo_view) (lx_ifaces lx_demo_daemon)
      (fst (kern lx_demo_daemon), snd (kern lx_demo_daemon))
      = (sole (Some 2, 50) ''fe80::d'' (sole (Some 1, 50) ''fe80::a'' (\<lambda>_. None)), \<lambda>_. None)"
    by (simp add: lx_demo_daemon_def lx_init_def lx_turn_def SENTINEL_demo lx_demo_iface_def lx_demo_spec)
      (simp add: lx_demo_view_def)
  with lx_pass_entries [OF lx_demo_laws lx_demo_key lx_demo_tables inv tables]
  show ?thesis
    by (auto simp: sole_def elim!: wp_mono)
qed


end
