(* ===== verification/Router_Daemon.thy ===== *)
theory Router_Daemon
  imports Python_Os Daemon_Loop Mac_Text
begin

text \<open>
  The router daemon (\<^verbatim>\<open>router/debian/usr/local/sbin/v4gwrd.py\<close>): for every leased host it keeps a
  route \<open>ip4/32\<close> by the host's own IPv6 address. It learns of leases from lines in a FIFO, follows
  the neighbor cache, and remembers the leases in a file.

  IPv6 addresses are byte lists: the texts the kernel and Python print are canonical, so equal
  texts are equal addresses. MAC and IPv4 addresses and interface names stay text, which is ASCII.
  Times are nanoseconds of the monotonic clock. The dictionary \<open>hosts\<close> is an association list.
\<close>

section \<open>Text\<close>

definition py_space :: "char \<Rightarrow> bool" where
  "py_space c \<longleftrightarrow> is_space c \<or> c \<in> {CHR 0x1C, CHR 0x1D, CHR 0x1E, CHR 0x1F}"

text \<open>\<open>s.split()\<close>; \<open>cur\<close> is the word being read, backwards.\<close>

fun split_words :: "string \<Rightarrow> string \<Rightarrow> string list" where
  "split_words cur [] = (if cur = [] then [] else [rev cur])"
| "split_words cur (c # cs) =
     (if py_space c then (if cur = [] then split_words [] cs else rev cur # split_words [] cs)
      else split_words (c # cur) cs)"

abbreviation py_split :: "string \<Rightarrow> string list" where
  "py_split \<equiv> split_words []"

text \<open>\<open>s.split(sep)\<close>\<close>

fun split_at :: "char \<Rightarrow> string \<Rightarrow> string list" where
  "split_at sep [] = [[]]"
| "split_at sep (c # cs) =
     (if c = sep then [] # split_at sep cs
      else case split_at sep cs of [] \<Rightarrow> [[c]] | w # ws \<Rightarrow> (c # w) # ws)"

abbreviation py_lower :: "string \<Rightarrow> string" where
  "py_lower \<equiv> map lower_char"

text \<open>The lines of a file opened as text: \<open>f.read().splitlines()\<close>.\<close>

definition line_break :: "char \<Rightarrow> bool" where
  "line_break c \<longleftrightarrow> c \<in> {newline, CHR 0x0B, CHR 0x0C, CHR 0x0D, CHR 0x1C, CHR 0x1D, CHR 0x1E}"

fun split_lines :: "string \<Rightarrow> string \<Rightarrow> string list" where
  "split_lines cur [] = (if cur = [] then [] else [rev cur])"
| "split_lines cur (c # cs) =
     (if c = CHR 0x0D \<and> cs \<noteq> [] \<and> hd cs = newline then split_lines cur cs
      else if line_break c then rev cur # split_lines [] cs
      else split_lines (c # cur) cs)"

abbreviation py_splitlines :: "string \<Rightarrow> string list" where
  "py_splitlines \<equiv> split_lines []"

text \<open>\<open>int(x, 16)\<close>: white space around, a sign, \<open>0x\<close>, digits with single underscores in between.\<close>

fun hex_more :: "nat \<Rightarrow> string \<Rightarrow> nat option" where
  "hex_more n [] = Some n"
| "hex_more n [c] = map_option (\<lambda>d. 16 * n + d) (hex_val c)"
| "hex_more n (c # c' # cs) =
     (case hex_val c of
        Some d \<Rightarrow> hex_more (16 * n + d) (c' # cs)
      | None \<Rightarrow>
          if c = CHR ''_'' then (case hex_val c' of None \<Rightarrow> None | Some d \<Rightarrow> hex_more (16 * n + d) cs)
          else None)"

definition hex_first :: "string \<Rightarrow> nat option" where
  "hex_first s = (case s of [] \<Rightarrow> None | c # cs \<Rightarrow> (case hex_val c of None \<Rightarrow> None | Some d \<Rightarrow> hex_more d cs))"

definition py_strip :: "string \<Rightarrow> string" where
  "py_strip s = rev (dropWhile py_space (rev (dropWhile py_space s)))"

definition py_int16 :: "string \<Rightarrow> int option" where
  "py_int16 x =
     (let s = py_strip x;
          neg = (take 1 s = ''-'');
          t = (if take 1 s = ''-'' \<or> take 1 s = ''+'' then drop 1 s else s);
          u = (if take 2 t = ''0x'' \<or> take 2 t = ''0X''
               then (if take 1 (drop 2 t) = ''_'' then drop 3 t else drop 2 t) else t)
      in map_option (\<lambda>n. if neg then - int n else int n) (hex_first u))"

text \<open>\<open>bytes(int(x, 16) for x in xs)\<close>, \<open>None\<close> for a \<open>ValueError\<close>.\<close>

fun py_bytes :: "string list \<Rightarrow> byte list option" where
  "py_bytes [] = Some []"
| "py_bytes (x # xs) =
     (case py_int16 x of
        None \<Rightarrow> None
      | Some n \<Rightarrow> if 0 \<le> n \<and> n < 256 then map_option (Cons (word_of_int n)) (py_bytes xs) else None)"

section \<open>Addresses\<close>

definition is_global_or_ula :: "in6_addr \<Rightarrow> bool" where
  "is_global_or_ula addr \<longleftrightarrow> (let b0 = hd addr in 0x20 \<le> b0 \<and> b0 \<le> 0x3f \<or> b0 \<in> {0xfc, 0xfd})"

text \<open>\<open>IPv6Network(f"{dst}/64", strict=False)\<close>, as its network address.\<close>

definition network64 :: "in6_addr \<Rightarrow> in6_addr" where
  "network64 dst = take 8 dst @ replicate 8 0"

definition derive_gua :: "in6_addr \<Rightarrow> string \<Rightarrow> in6_addr option" where
  "derive_gua net mac =
     (case py_bytes (split_at (CHR '':'') mac) of
        None \<Rightarrow> None
      | Some mb \<Rightarrow>
          if length mb \<noteq> 6 then None
          else
            let iid = [mb ! 0 XOR 0x02, mb ! 1, mb ! 2, 0xff, 0xfe, mb ! 3, mb ! 4, mb ! 5] in
            Some (map2 (OR) net (replicate 8 0 @ iid)))"

section \<open>State\<close>

record rd_host =
  h_iface :: string
  h_ip4 :: string
  h_nh :: "in6_addr option"
  h_probe :: "int option"    \<comment> \<open>\<open>probe_at\<close>\<close>

record rd_route =
  q_dst_len :: nat
  q_oif :: "int option"
  q_dst :: "in6_addr option"

record rd_neigh =
  n_lladdr :: "string option"
  n_dst :: "in6_addr option"
  n_state :: u16

text \<open>Requests with the error code the kernel refused them with, and the lines that are logged.\<close>

datatype rd_event =
    Rd_route_replace string in6_addr "int option"
  | Rd_neigh_del string
  | Rd_route_del string "int option"
  | Rd_log_via string string in6_addr
  | Rd_log_via_failed string string in6_addr int
  | Rd_log_withdrew string string
  | Rd_log_withdraw_failed string int
  | Rd_log_write_failed
  | Rd_log_restored nat
  | Rd_log_starting

record 'k rd_state = "('k, rd_event) os_state" +
  rd_running :: bool
  rd_hosts :: "(string \<times> rd_host) list"
  rd_buf :: string

datatype rd_fd = Fd_fifo | Fd_mon | Fd_pipe

record 'k rd_sys =
  rd_link_lookup :: "string \<Rightarrow> 'k \<Rightarrow> (py_exn + int list) \<times> 'k"
  rd_get_routes :: "'k \<Rightarrow> (py_exn + rd_route list) \<times> 'k"
  rd_get_neighbours :: "int \<Rightarrow> 'k \<Rightarrow> (py_exn + rd_neigh list) \<times> 'k"
  rd_sys_replace :: "string \<Rightarrow> int \<Rightarrow> in6_addr \<Rightarrow> 'k \<Rightarrow> (py_exn + unit) \<times> 'k"
  rd_sys_neigh_del :: "string \<Rightarrow> int \<Rightarrow> 'k \<Rightarrow> (py_exn + unit) \<times> 'k"
  rd_sys_del :: "string \<Rightarrow> 'k \<Rightarrow> (py_exn + unit) \<times> 'k"
  rd_socket :: "'k \<Rightarrow> (py_exn + unit) \<times> 'k"
  rd_bind_to_device :: "string \<Rightarrow> 'k \<Rightarrow> (py_exn + unit) \<times> 'k"
  rd_sendto :: "in6_addr \<Rightarrow> 'k \<Rightarrow> (py_exn + unit) \<times> 'k"
  rd_monotonic :: "'k \<Rightarrow> int \<times> 'k"
  rd_makedirs :: "'k \<Rightarrow> (py_exn + unit) \<times> 'k"
  rd_open_tmp :: "'k \<Rightarrow> (py_exn + unit) \<times> 'k"
  rd_write_close :: "string \<Rightarrow> 'k \<Rightarrow> (nat \<times> bool) \<times> 'k"
    \<comment> \<open>the characters that reach the file, and whether an \<open>OSError\<close> is raised\<close>
  rd_os_replace :: "'k \<Rightarrow> (py_exn + unit) \<times> 'k"
  rd_makedirs_run :: "'k \<Rightarrow> (py_exn + unit) \<times> 'k"
  rd_mkfifo :: "'k \<Rightarrow> (py_exn + bool) \<times> 'k"
    \<comment> \<open>false for the \<open>FileExistsError\<close> that \<open>open_fifo\<close> catches\<close>
  rd_open_rdwr :: "'k \<Rightarrow> (py_exn + unit) \<times> 'k"
  rd_unlink_fifo :: "'k \<Rightarrow> (py_exn + unit) \<times> 'k"
  rd_poll :: "'k \<Rightarrow> (rd_fd list \<times> bool) \<times> 'k"
  rd_read_pipe :: "'k \<Rightarrow> (py_exn + unit) \<times> 'k"
  rd_read_fifo :: "'k \<Rightarrow> (py_exn + string) \<times> 'k"
  rd_mon_get :: "'k \<Rightarrow> (py_exn + unit) \<times> 'k"

definition STATE :: string where "STATE = ''/var/lib/v4gwrd/leases''"
definition LEASES :: string where "LEASES = ''/var/lib/misc/dnsmasq.leases''"
definition GUA_PROBE_DELAY :: int where "GUA_PROBE_DELAY = 15 * 10 ^ 9"

definition nud_usable :: "u16 \<Rightarrow> bool" where
  "nud_usable st \<longleftrightarrow> st \<in> {0x02, 0x04, 0x08, 0x10}"

section \<open>What it reads\<close>

definition rd_index :: "('k, 'x) rd_sys_scheme \<Rightarrow> string \<Rightarrow> ('k rd_state, int option) prog" where
  "rd_index S ifname =
     bnd (must (rd_link_lookup S ifname)) (\<lambda>links.
     ret (case links of [] \<Rightarrow> None | l # _ \<Rightarrow> Some l))"

fun prefix_of :: "int \<Rightarrow> rd_route list \<Rightarrow> in6_addr option" where
  "prefix_of idx [] = None"
| "prefix_of idx (r # rs) =
     (if q_dst_len r \<noteq> 64 \<or> q_oif r \<noteq> Some idx then prefix_of idx rs
      else case q_dst r of
        None \<Rightarrow> prefix_of idx rs
      | Some dst \<Rightarrow> if is_global_or_ula dst then Some (network64 dst) else prefix_of idx rs)"

definition rd_prefix :: "('k, 'x) rd_sys_scheme \<Rightarrow> int \<Rightarrow> ('k rd_state, in6_addr option) prog" where
  "rd_prefix S idx = bnd (must (rd_get_routes S)) (\<lambda>rs. ret (prefix_of idx rs))"

fun cache_of :: "string \<Rightarrow> rd_neigh list \<Rightarrow> (in6_addr \<times> u16) list \<Rightarrow> (in6_addr \<times> u16) list" where
  "cache_of mac [] acc = acc"
| "cache_of mac (n # ns) acc =
     cache_of mac ns
       (case (n_lladdr n, n_dst n) of
          (Some lla, Some dst) \<Rightarrow>
            if lla \<noteq> [] \<and> py_lower lla = mac then AList.update dst (n_state n) acc else acc
        | _ \<Rightarrow> acc)"

definition rd_cache :: "('k, 'x) rd_sys_scheme \<Rightarrow> int \<Rightarrow> string \<Rightarrow> ('k rd_state, (in6_addr \<times> u16) list) prog" where
  "rd_cache S idx mac =
     bnd (attempt (rd_get_neighbours S idx)) (\<lambda>r.
     ret (case r of Inl _ \<Rightarrow> [] | Inr ns \<Rightarrow> cache_of mac ns []))"

definition is_fe80 :: "in6_addr \<Rightarrow> bool" where
  "is_fe80 dst \<longleftrightarrow> take 2 dst = [0xfe, 0x80]"

text \<open>The choice \<open>best_nexthop\<close> makes once it has read prefix and cache.\<close>

definition pick_nexthop :: "in6_addr option \<Rightarrow> (in6_addr \<times> u16) list \<Rightarrow> in6_addr option" where
  "pick_nexthop gua cache =
     (case gua of
        Some g \<Rightarrow> if nud_usable (case map_of cache g of None \<Rightarrow> 0 | Some st \<Rightarrow> st) then Some g else None
      | None \<Rightarrow> None)"

definition best_nexthop :: "('k, 'x) rd_sys_scheme \<Rightarrow> int \<Rightarrow> string \<Rightarrow>
    ('k rd_state, in6_addr option \<times> in6_addr option) prog" where
  "best_nexthop S idx mac =
     bnd (rd_prefix S idx) (\<lambda>prefix.
     let gua = (case prefix of None \<Rightarrow> None | Some net \<Rightarrow> derive_gua net mac) in
     bnd (rd_cache S idx mac) (\<lambda>cache.
     case pick_nexthop gua cache of
       Some g \<Rightarrow> ret (Some g, gua)
     | None \<Rightarrow>
         case find (\<lambda>(dst, st). nud_usable st \<and> is_global_or_ula dst) cache of
           Some (dst, _) \<Rightarrow> ret (Some dst, gua)
         | None \<Rightarrow>
             case find (\<lambda>(dst, st). nud_usable st \<and> is_fe80 dst) cache of
               Some (dst, _) \<Rightarrow> ret (Some dst, gua)
             | None \<Rightarrow> ret (None, gua)))"

section \<open>What it programs\<close>

definition rd_kick_nud :: "('k, 'x) rd_sys_scheme \<Rightarrow> string \<Rightarrow> in6_addr \<Rightarrow> ('k rd_state, unit) prog" where
  "rd_kick_nud S ifname addr =
     bnd (attempt_os (rd_socket S)) (\<lambda>r. case r of None \<Rightarrow> ret () | Some _ \<Rightarrow>
     bnd (attempt_os (rd_bind_to_device S ifname)) (\<lambda>r. case r of None \<Rightarrow> ret () | Some _ \<Rightarrow>
     bnd (attempt_os (rd_sendto S addr)) (\<lambda>_.
     ret ())))"

definition rd_install :: "('k, 'x) rd_sys_scheme \<Rightarrow> string \<Rightarrow> int \<Rightarrow> string \<Rightarrow> in6_addr \<Rightarrow> ('k rd_state, unit) prog" where
  "rd_install S ifname idx ip4 nh =
     bnd (attempt (rd_sys_replace S ip4 idx nh)) (\<lambda>r.
     case r of
       Inl c \<Rightarrow>
         bnd (emit (Rd_route_replace ip4 nh (Some c))) (\<lambda>_.
         emit (Rd_log_via_failed ifname ip4 nh c))
     | Inr _ \<Rightarrow>
         bnd (emit (Rd_route_replace ip4 nh None)) (\<lambda>_.
         bnd (emit (Rd_log_via ifname ip4 nh)) (\<lambda>_.
         bnd (attempt (rd_sys_neigh_del S ip4 idx)) (\<lambda>_.
         emit (Rd_neigh_del ip4)))))"

definition rd_ESRCH :: int where "rd_ESRCH = 3"

definition rd_withdraw :: "('k, 'x) rd_sys_scheme \<Rightarrow> string \<Rightarrow> string \<Rightarrow> ('k rd_state, unit) prog" where
  "rd_withdraw S ip4 reason =
     bnd (attempt (rd_sys_del S ip4)) (\<lambda>r.
     case r of
       Inr _ \<Rightarrow>
         bnd (emit (Rd_route_del ip4 None)) (\<lambda>_.
         emit (Rd_log_withdrew ip4 reason))
     | Inl c \<Rightarrow>
         bnd (emit (Rd_route_del ip4 (Some c))) (\<lambda>_.
         if c \<noteq> rd_ESRCH then emit (Rd_log_withdraw_failed ip4 c) else ret ()))"

section \<open>Evaluation\<close>

definition set_host :: "string \<Rightarrow> (rd_host \<Rightarrow> rd_host) \<Rightarrow> ('k rd_state, unit) prog" where
  "set_host mac f = modify (\<lambda>s. s\<lparr>rd_hosts := AList.map_entry mac f (rd_hosts s)\<rparr>)"

definition rd_probe :: "('k, 'x) rd_sys_scheme \<Rightarrow> string \<Rightarrow> rd_host \<Rightarrow> in6_addr option \<Rightarrow> in6_addr option \<Rightarrow>
    ('k rd_state, unit) prog" where
  "rd_probe S mac h nh gua =
     (case gua of
        None \<Rightarrow> ret ()
      | Some g \<Rightarrow>
          if nh = Some g then set_host mac (\<lambda>h. h\<lparr>h_probe := None\<rparr>)
          else case h_probe h of
            None \<Rightarrow> ret ()
          | Some at \<Rightarrow>
              bnd (kcall (rd_monotonic S)) (\<lambda>now.
              if now \<ge> at then
                bnd (rd_kick_nud S (h_iface h) g) (\<lambda>_. set_host mac (\<lambda>h. h\<lparr>h_probe := None\<rparr>))
              else ret ()))"

definition evaluate :: "('k, 'x) rd_sys_scheme \<Rightarrow> string \<Rightarrow> ('k rd_state, unit) prog" where
  "evaluate S mac =
     bnd (gets (\<lambda>s. map_of (rd_hosts s) mac)) (\<lambda>r.
     case r of
       None \<Rightarrow> ret ()
     | Some h \<Rightarrow>
         bnd (rd_index S (h_iface h)) (\<lambda>r.
         case r of
           None \<Rightarrow> ret ()
         | Some idx \<Rightarrow>
             bnd (best_nexthop S idx mac) (\<lambda>(nh, gua).
             bnd (rd_probe S mac h nh gua) (\<lambda>_.
             case nh of
               None \<Rightarrow> ret ()
             | Some a \<Rightarrow>
                 if h_nh h = Some a then ret ()
                 else
                   bnd (rd_install S (h_iface h) idx (h_ip4 h) a) (\<lambda>_.
                   set_host mac (\<lambda>h. h\<lparr>h_nh := Some a\<rparr>))))))"

definition reconcile_all :: "('k, 'x) rd_sys_scheme \<Rightarrow> ('k rd_state, unit) prog" where
  "reconcile_all S =
     bnd (gets (\<lambda>s. map fst (rd_hosts s))) (\<lambda>macs. for_each macs (evaluate S))"

section \<open>The lease file\<close>

definition host_line :: "string \<times> rd_host \<Rightarrow> string" where
  "host_line e = fst e @ '' '' @ h_iface (snd e) @ '' '' @ h_ip4 (snd e) @ [newline]"

definition persist :: "('k, 'x) rd_sys_scheme \<Rightarrow> ('k rd_state, unit) prog" where
  "persist S =
     bnd (attempt_os (rd_makedirs S)) (\<lambda>r. case r of None \<Rightarrow> emit Rd_log_write_failed | Some _ \<Rightarrow>
     bnd (attempt_os (rd_open_tmp S)) (\<lambda>r. case r of None \<Rightarrow> emit Rd_log_write_failed | Some _ \<Rightarrow>
     bnd (gets (\<lambda>s. concat (map host_line (rd_hosts s)))) (\<lambda>content.
     bnd (kcall (rd_write_close S content)) (\<lambda>(n, failed).
     bnd (put_file (STATE @ ''.tmp'') (Some (if failed then take n content else content))) (\<lambda>_.
     if failed then emit Rd_log_write_failed
     else
       bnd (attempt_os (rd_os_replace S)) (\<lambda>r. case r of None \<Rightarrow> emit Rd_log_write_failed | Some _ \<Rightarrow>
       bnd (gets (\<lambda>s. files s (STATE @ ''.tmp''))) (\<lambda>tmp.
       bnd (put_file STATE tmp) (\<lambda>_.
       put_file (STATE @ ''.tmp'') None))))))))"

definition lease_row :: "string \<Rightarrow> (string \<times> string) option" where
  "lease_row row = (let c = py_split row in
     if 3 \<le> length c then Some (py_lower (c ! 1), c ! 2) else None)"

definition live_leases :: "('k rd_state, (string \<times> string) set option) prog" where
  "live_leases =
     gets (\<lambda>s. map_option (\<lambda>text. set (List.map_filter lease_row (py_splitlines text))) (files s LEASES))"

definition restore_line :: "('k, 'x) rd_sys_scheme \<Rightarrow> (string \<times> string) set option \<Rightarrow> string \<Rightarrow>
    ('k rd_state, unit) prog" where
  "restore_line S live line =
     (case py_split line of
        [m, iface, ip4] \<Rightarrow>
          let mac = py_lower m in
          if (case live of None \<Rightarrow> False | Some l \<Rightarrow> (mac, ip4) \<notin> l) then ret ()
          else
            bnd (kcall (rd_monotonic S)) (\<lambda>now.
            modify (\<lambda>s. s\<lparr>rd_hosts := AList.update mac
              \<lparr>h_iface = iface, h_ip4 = ip4, h_nh = None, h_probe = Some (now + GUA_PROBE_DELAY)\<rparr>
              (rd_hosts s)\<rparr>))
      | _ \<Rightarrow> ret ())"

definition restore :: "('k, 'x) rd_sys_scheme \<Rightarrow> ('k rd_state, unit) prog" where
  "restore S =
     bnd live_leases (\<lambda>live.
     bnd (gets (\<lambda>s. files s STATE)) (\<lambda>text.
     case text of
       None \<Rightarrow> ret ()
     | Some text \<Rightarrow>
         bnd (for_each (py_splitlines text) (restore_line S live)) (\<lambda>_.
         bnd (gets rd_hosts) (\<lambda>hosts.
         if hosts \<noteq> [] then emit (Rd_log_restored (length hosts)) else ret ()))))"

section \<open>Events\<close>

definition on_lease :: "('k, 'x) rd_sys_scheme \<Rightarrow> string \<Rightarrow> string \<Rightarrow> string \<Rightarrow> ('k rd_state, unit) prog" where
  "on_lease S iface mac ip4 =
     bnd (gets (\<lambda>s. map_of (rd_hosts s) mac)) (\<lambda>h.
     bnd (case h of
            None \<Rightarrow> ret None
          | Some h' \<Rightarrow>
              if h_iface h' \<noteq> iface \<or> h_ip4 h' \<noteq> ip4
              then bnd (rd_withdraw S (h_ip4 h') ''lease changed'') (\<lambda>_. ret None)
              else ret h) (\<lambda>h.
     bnd (if h = None then modify (\<lambda>s. s\<lparr>rd_hosts := AList.update mac
            \<lparr>h_iface = iface, h_ip4 = ip4, h_nh = None, h_probe = None\<rparr> (rd_hosts s)\<rparr>) else ret ()) (\<lambda>_.
     bnd (kcall (rd_monotonic S)) (\<lambda>now.
     bnd (set_host mac (\<lambda>h. h\<lparr>h_probe := Some (now + GUA_PROBE_DELAY)\<rparr>)) (\<lambda>_.
     bnd (persist S) (\<lambda>_.
     evaluate S mac))))))"

definition on_release :: "('k, 'x) rd_sys_scheme \<Rightarrow> string \<Rightarrow> string \<Rightarrow> ('k rd_state, unit) prog" where
  "on_release S mac ip4 =
     bnd (gets (\<lambda>s. map_of (rd_hosts s) mac)) (\<lambda>h.
     bnd (modify (\<lambda>s. s\<lparr>rd_hosts := AList.delete mac (rd_hosts s)\<rparr>)) (\<lambda>_.
     case h of
       None \<Rightarrow> ret ()
     | Some h \<Rightarrow> bnd (rd_withdraw S (h_ip4 h) ''lease released'') (\<lambda>_. persist S)))"

definition handle_line :: "('k, 'x) rd_sys_scheme \<Rightarrow> string \<Rightarrow> ('k rd_state, unit) prog" where
  "handle_line S line =
     (let p = py_split line in
      if length p < 4 then ret ()
      else
        let action = p ! 0; iface = p ! 1; mac = py_lower (p ! 2); ip4 = p ! 3 in
        if action \<in> {''add'', ''old''} then on_lease S iface mac ip4
        else if action \<in> {''del''} then on_release S mac ip4
        else ret ())"

section \<open>The loop\<close>

text \<open>\<open>while b"\n" in buf: line, buf = buf.split(b"\n", 1)\<close>\<close>

function handle_lines :: "('k, 'x) rd_sys_scheme \<Rightarrow> string \<Rightarrow> ('k rd_state, unit) prog" where
  "handle_lines S buf =
     (if newline \<in> set buf then
        bnd (modify (\<lambda>s. s\<lparr>rd_buf := tl (dropWhile (\<lambda>c. c \<noteq> newline) buf)\<rparr>)) (\<lambda>_.
        bnd (handle_line S (takeWhile (\<lambda>c. c \<noteq> newline) buf)) (\<lambda>_.
        handle_lines S (tl (dropWhile (\<lambda>c. c \<noteq> newline) buf))))
      else ret ())"
  by pat_completeness auto

lemma after_newline_shorter:
  "newline \<in> set buf \<Longrightarrow> length (tl (dropWhile (\<lambda>c. c \<noteq> newline) buf)) < length buf"
proof -
  assume "newline \<in> set buf"
  then have "dropWhile (\<lambda>c. c \<noteq> newline) buf \<noteq> []" by auto
  then show ?thesis
    using length_dropWhile_le [of "\<lambda>c. c \<noteq> newline" buf]
    by (cases "dropWhile (\<lambda>c. c \<noteq> newline) buf") auto
qed

termination handle_lines
  by (relation "measure (\<lambda>(S, buf). length buf)") (auto dest: after_newline_shorter)

declare handle_lines.simps [simp del]

text \<open>What \<open>serve\<close> does with bytes that came in.\<close>

definition feed :: "('k, 'x) rd_sys_scheme \<Rightarrow> string \<Rightarrow> ('k rd_state, unit) prog" where
  "feed S chunk =
     bnd (modify (\<lambda>s. s\<lparr>rd_buf := rd_buf s @ chunk\<rparr>)) (\<lambda>_.
     bnd (gets rd_buf) (\<lambda>buf. handle_lines S buf))"

definition rd_ready :: "('k, 'x) rd_sys_scheme \<Rightarrow> rd_fd \<Rightarrow> ('k rd_state, unit) prog" where
  "rd_ready S fd =
     (case fd of
        Fd_pipe \<Rightarrow> must (rd_read_pipe S)
      | Fd_fifo \<Rightarrow>
          bnd (attempt_os (rd_read_fifo S)) (\<lambda>r.
          case r of None \<Rightarrow> ret () | Some chunk \<Rightarrow> feed S chunk)
      | Fd_mon \<Rightarrow>
          bnd (attempt_os (rd_mon_get S)) (\<lambda>_.
          bnd (gets rd_running) (\<lambda>running.
          if running then reconcile_all S else ret ())))"

definition rd_iter :: "('k, 'x) rd_sys_scheme \<Rightarrow> ('k rd_state, unit) prog" where
  "rd_iter S =
     bnd (kcall (rd_poll S)) (\<lambda>(events, signalled).
     bnd (modify (\<lambda>s. if signalled then s\<lparr>rd_running := False\<rparr> else s)) (\<lambda>_.
     if events = [] then reconcile_all S
     else for_each events (rd_ready S)))"

definition rd_signal :: "'k rd_state \<Rightarrow> 'k rd_state" where
  "rd_signal s = s\<lparr>rd_running := False\<rparr>"

definition rd_init :: "'k \<Rightarrow> (string \<Rightarrow> string option) \<Rightarrow> 'k rd_state" where
  "rd_init k fs = \<lparr>kern = k, files = fs, out = [], rd_running = True, rd_hosts = [], rd_buf = []\<rparr>"

definition open_fifo :: "('k, 'x) rd_sys_scheme \<Rightarrow> ('k rd_state, unit) prog" where
  "open_fifo S =
     bnd (must (rd_makedirs_run S)) (\<lambda>_.
     bnd (must (rd_mkfifo S)) (\<lambda>_.
     must (rd_open_rdwr S)))"

text \<open>\<open>main\<close> up to the loop, and what follows the loop: the routes are left as they are.\<close>

definition rd_main :: "('k, 'x) rd_sys_scheme \<Rightarrow> ('k rd_state, unit) prog" where
  "rd_main S =
     bnd (open_fifo S) (\<lambda>_.
     bnd (restore S) (\<lambda>_.
     bnd (emit Rd_log_starting) (\<lambda>_.
     reconcile_all S)))"

definition rd_stop :: "('k, 'x) rd_sys_scheme \<Rightarrow> ('k rd_state, unit) prog" where
  "rd_stop S = bnd (attempt_os (rd_unlink_fifo S)) (\<lambda>_. ret ())"

text \<open>A signal, the kernel, or dnsmasq writing its lease file.\<close>

inductive rd_env :: "'k rd_state \<Rightarrow> 'k rd_state \<Rightarrow> bool" where
  rd_kernel: "rd_env s (s\<lparr>kern := k\<rparr>)"
| rd_signalled: "rd_env s (rd_signal s)"
| rd_dnsmasq: "rd_env s (s\<lparr>files := (files s)(LEASES := c)\<rparr>)"

end
