(* ===== verification/Router_Table.thy ===== *)
theory Router_Table
  imports Router_Daemon
begin

text \<open>
  The table of leases of the router daemon: what a line of the FIFO does to it (\<open>lease_step\<close>),
  whatever the system calls return; that the lines handled do not depend on how the bytes
  arrive; the invariant of the table; and that the table survives a restart.
\<close>

section \<open>Words and pieces\<close>

definition is_token :: "string \<Rightarrow> bool" where
  "is_token w \<longleftrightarrow> w \<noteq> [] \<and> (\<forall>c \<in> set w. \<not> py_space c)"

lemma split_words_tokens:
  "\<forall>c \<in> set cur. \<not> py_space c \<Longrightarrow> w \<in> set (split_words cur cs) \<Longrightarrow> is_token w"
proof (induction cur cs rule: split_words.induct)
  case (1 cur)
  then show ?case by (cases "cur = []") (simp_all add: is_token_def)
next
  case (2 cur c cs)
  then show ?case by (cases "py_space c"; cases "cur = []") (auto simp: is_token_def)
qed

lemma py_split_tokens: "w \<in> set (py_split cs) \<Longrightarrow> is_token w"
  using split_words_tokens [of "[]"] by simp

lemma split_words_token:
  "\<forall>c \<in> set w. \<not> py_space c \<Longrightarrow> split_words cur (w @ cs) = split_words (rev w @ cur) cs"
  by (induction w arbitrary: cur) auto

text \<open>Words set apart by one space read back.\<close>

lemma py_split_three:
  assumes "is_token a" and "is_token b" and "is_token c"
  shows "py_split (a @ '' '' @ b @ '' '' @ c) = [a, b, c]"
proof -
  have sp: "py_space (CHR '' '')" by (simp add: py_space_def is_space_def)
  show ?thesis
    using assms split_words_token [of c "[]" "[]"]
    by (simp add: is_token_def split_words_token sp)
qed

lemma py_space_low: "py_space c \<Longrightarrow> (of_char c :: nat) \<le> 32"
  by (auto simp: py_space_def is_space_def)

lemma lower_char_space [simp]: "py_space (lower_char c) \<longleftrightarrow> py_space c"
proof (cases "65 \<le> (of_char c :: nat) \<and> (of_char c :: nat) \<le> 90")
  case True
  then have "(of_char (lower_char c) :: nat) = of_char c + 32"
    by (simp add: lower_char_def Let_def)
  then show ?thesis
    using True py_space_low [of c] py_space_low [of "lower_char c"] by linarith
qed (auto simp: lower_char_def Let_def)

lemma is_token_lower [simp]: "is_token (py_lower w) \<longleftrightarrow> is_token w"
  by (simp add: is_token_def)

lemma split_at_not_Nil [simp]: "split_at sep cs \<noteq> []"
  by (induction cs) (auto split: list.split)

lemma split_at_append:
  "split_at sep (xs @ ys) = butlast (split_at sep xs) @ split_at sep (last (split_at sep xs) @ ys)"
proof (induction xs)
  case (Cons x xs)
  show ?case
  proof (cases "x = sep")
    case False
    then show ?thesis
      using Cons by (cases "split_at sep xs") (auto split: list.split)
  qed (simp add: Cons)
qed simp

lemma split_at_none: "sep \<notin> set cs \<Longrightarrow> split_at sep cs = [cs]"
  by (induction cs) auto

lemma split_at_first:
  "sep \<in> set cs \<Longrightarrow> split_at sep cs = takeWhile (\<lambda>c. c \<noteq> sep) cs # split_at sep (tl (dropWhile (\<lambda>c. c \<noteq> sep) cs))"
  by (induction cs) auto

lemma last_piece: "sep \<notin> set (last (split_at sep cs))"
  by (induction cs) (auto split: list.split if_splits)

section \<open>Lines do not depend on how the bytes arrive\<close>

text \<open>A fragment that neither reads nor writes the receive buffer.\<close>

definition no_buf :: "('k rd_state, 'a) prog \<Rightarrow> bool" where
  "no_buf m \<longleftrightarrow> (\<forall>s b. m (s\<lparr>rd_buf := b\<rparr>) = map_option (\<lambda>(x, t). (x, t\<lparr>rd_buf := b\<rparr>)) (m s))"

named_theorems no_buf_intros

lemma no_buf_basic [no_buf_intros]:
  "no_buf (ret x)" "no_buf (emit e)" "no_buf (kcall f)" "no_buf (put_file n c)" "no_buf (set_host mac g)"
  "no_buf (\<lambda>_. None)"
  by (auto simp: no_buf_def ret_def emit_def modify_def kcall_def put_file_def set_host_def split: prod.split)

lemma no_buf_gets [no_buf_intros]: "(\<And>s b. f (s\<lparr>rd_buf := b\<rparr>) = f s) \<Longrightarrow> no_buf (gets f)"
  by (simp add: no_buf_def gets_def)

lemma no_buf_modify [no_buf_intros]:
  "(\<And>s b. f (s\<lparr>rd_buf := b\<rparr>) = (f s)\<lparr>rd_buf := b\<rparr>) \<Longrightarrow> no_buf (modify f)"
  by (simp add: no_buf_def modify_def)

lemma no_buf_bnd [no_buf_intros]: "no_buf m \<Longrightarrow> (\<And>x. no_buf (f x)) \<Longrightarrow> no_buf (bnd m f)"
  by (auto simp: no_buf_def bnd_def split: option.split)

lemma no_buf_if [no_buf_intros]: "no_buf m \<Longrightarrow> no_buf n \<Longrightarrow> no_buf (if b then m else n)"
  by simp

lemma no_buf_option [no_buf_intros]:
  "no_buf m \<Longrightarrow> (\<And>x. no_buf (f x)) \<Longrightarrow> no_buf (case r of None \<Rightarrow> m | Some x \<Rightarrow> f x)"
  by (cases r) auto

lemma no_buf_sum [no_buf_intros]:
  "(\<And>x. no_buf (f x)) \<Longrightarrow> (\<And>y. no_buf (g y)) \<Longrightarrow> no_buf (case r of Inl x \<Rightarrow> f x | Inr y \<Rightarrow> g y)"
  by (cases r) auto

lemma no_buf_prod [no_buf_intros]: "(\<And>x y. no_buf (f x y)) \<Longrightarrow> no_buf (case r of (x, y) \<Rightarrow> f x y)"
  by (cases r) auto

lemma no_buf_exn [no_buf_intros]:
  "(\<And>x. no_buf (f x)) \<Longrightarrow> no_buf m \<Longrightarrow> no_buf (case e of Netlink_error x \<Rightarrow> f x | Os_error \<Rightarrow> m)"
  by (cases e) auto

lemma no_buf_calls [no_buf_intros]: "no_buf (must f)" "no_buf (attempt f)" "no_buf (attempt_os f)"
  unfolding must_def attempt_def attempt_os_def by (intro no_buf_intros)+

lemma no_buf_for_each [no_buf_intros]: "(\<And>x. no_buf (f x)) \<Longrightarrow> no_buf (for_each xs f)"
  by (induction xs) (auto intro: no_buf_intros)

lemma no_buf_evaluate [no_buf_intros]: "no_buf (evaluate S mac)"
  unfolding evaluate_def rd_index_def best_nexthop_def rd_prefix_def rd_cache_def rd_probe_def
    rd_kick_nud_def rd_install_def Let_def
  by (intro no_buf_intros) simp_all

lemma no_buf_handle_line: "no_buf (handle_line S line)"
  unfolding handle_line_def on_lease_def on_release_def rd_withdraw_def persist_def Let_def
  by (intro no_buf_intros) simp_all

lemma for_each_append: "for_each (xs @ ys) f = bnd (for_each xs f) (\<lambda>_. for_each ys f)"
  by (induction xs) (simp_all add: bnd_simps)

abbreviation full_lines :: "string \<Rightarrow> string list" where
  "full_lines buf \<equiv> butlast (split_at newline buf)"

abbreviation rest_of :: "string \<Rightarrow> string" where
  "rest_of buf \<equiv> last (split_at newline buf)"

lemma handle_lines_alt:
  "rd_buf s = buf \<Longrightarrow>
    handle_lines S buf s = for_each (full_lines buf) (handle_line S) (s\<lparr>rd_buf := rest_of buf\<rparr>)"
proof (induction S buf arbitrary: s rule: handle_lines.induct)
  case (1 S buf)
  show ?case
  proof (cases "newline \<in> set buf")
    case False
    then show ?thesis
      using 1(2) by (simp add: handle_lines.simps [of S buf] split_at_none ret_def)
  next
    case True
    let ?line = "takeWhile (\<lambda>c. c \<noteq> newline) buf" and ?rest = "tl (dropWhile (\<lambda>c. c \<noteq> newline) buf)"
    have run: "handle_lines S buf s = bnd (handle_line S ?line) (\<lambda>_. handle_lines S ?rest) (s\<lparr>rd_buf := ?rest\<rparr>)"
      using True by (simp add: handle_lines.simps [of S buf] bnd_def run_simps)
    have pieces: "full_lines buf = ?line # full_lines ?rest" "rest_of buf = rest_of ?rest"
      using True by (simp_all add: split_at_first)
    have buf: "handle_line S ?line (s\<lparr>rd_buf := b\<rparr>) = map_option (\<lambda>(x, t). (x, t\<lparr>rd_buf := b\<rparr>)) (handle_line S ?line s)" for b
      using no_buf_handle_line [of S ?line] by (simp add: no_buf_def)
    show ?thesis
    proof (cases "handle_line S ?line s")
      case None
      then show ?thesis by (simp add: run pieces bnd_def buf)
    next
      case (Some r)
      then show ?thesis
        using 1(1) [OF True, of "(snd r)\<lparr>rd_buf := ?rest\<rparr>"]
        by (cases r) (simp add: run pieces bnd_def buf)
    qed
  qed
qed

lemma feed_alt:
  "feed S c s = for_each (full_lines (rd_buf s @ c)) (handle_line S) (s\<lparr>rd_buf := rest_of (rd_buf s @ c)\<rparr>)"
  using handle_lines_alt [of "s\<lparr>rd_buf := rd_buf s @ c\<rparr>" "rd_buf s @ c" S]
  by (simp add: feed_def bnd_def run_simps)

lemma feed_lines_buf: "for_each ls (handle_line S) (s\<lparr>rd_buf := b\<rparr>) = Some (x, t) \<Longrightarrow> rd_buf t = b"
proof -
  have "no_buf (for_each ls (handle_line S))" by (intro no_buf_intros no_buf_handle_line)
  then show "for_each ls (handle_line S) (s\<lparr>rd_buf := b\<rparr>) = Some (x, t) \<Longrightarrow> rd_buf t = b"
    by (auto simp: no_buf_def)
qed

lemma feeds_alt:
  assumes "newline \<notin> set (rd_buf s)"
  shows "for_each cs (feed S) s = for_each (full_lines (rd_buf s @ concat cs)) (handle_line S)
    (s\<lparr>rd_buf := rest_of (rd_buf s @ concat cs)\<rparr>)"
  using assms
proof (induction cs arbitrary: s)
  case Nil
  then show ?case by (simp add: split_at_none)
next
  case (Cons c cs)
  let ?b = "rd_buf s @ c"
  have pieces: "split_at newline (?b @ concat cs) = full_lines ?b @ split_at newline (rest_of ?b @ concat cs)"
    by (rule split_at_append)
  have whole: "rd_buf s @ concat (c # cs) = ?b @ concat cs" by simp
  have nb: "no_buf (for_each (full_lines ?b) (handle_line S))" by (intro no_buf_intros no_buf_handle_line)
  show ?case
  proof (cases "for_each (full_lines ?b) (handle_line S) s")
    case None
    then show ?thesis
      using nb unfolding whole by (simp add: bnd_def feed_alt [of S c s] pieces butlast_append for_each_append no_buf_def del: append_assoc)
  next
    case (Some r)
    let ?t = "(snd r)\<lparr>rd_buf := rest_of ?b\<rparr>"
    have "for_each cs (feed S) ?t = for_each (full_lines (rest_of ?b @ concat cs)) (handle_line S)
        (?t\<lparr>rd_buf := rest_of (rest_of ?b @ concat cs)\<rparr>)"
      using Cons.IH [of ?t] last_piece by simp
    then show ?thesis
      using nb Some unfolding whole
      by (cases r) (simp add: bnd_def feed_alt [of S c s] pieces butlast_append for_each_append no_buf_def del: append_assoc)
  qed
qed

section \<open>The table\<close>

type_synonym lease_table = "string \<Rightarrow> (string \<times> string) option"

definition rd_leases :: "'k rd_state \<Rightarrow> lease_table" where
  "rd_leases s = (\<lambda>mac. map_option (\<lambda>h. (h_iface h, h_ip4 h)) (map_of (rd_hosts s) mac))"

text \<open>What a line of the FIFO does to the leases.\<close>

definition lease_step :: "string \<Rightarrow> lease_table \<Rightarrow> lease_table" where
  "lease_step line tbl = (case py_split line of
       action # iface # mac # ip4 # _ \<Rightarrow>
         if action \<in> {''add'', ''old''} then tbl(py_lower mac \<mapsto> (iface, ip4))
         else if action = ''del'' then tbl(py_lower mac := None)
         else tbl
     | _ \<Rightarrow> tbl)"

text \<open>A step that leaves the leases, and the order of the table, alone.\<close>

definition rd_same :: "'k rd_state \<Rightarrow> 'k rd_state \<Rightarrow> bool" where
  "rd_same s t \<longleftrightarrow> rd_leases t = rd_leases s \<and> map fst (rd_hosts t) = map fst (rd_hosts s) \<and>
     rd_running t = rd_running s"

definition keeps :: "('k rd_state, 'a) prog \<Rightarrow> bool" where
  "keeps m \<longleftrightarrow> (\<forall>s. wlp m (\<lambda>_. rd_same s) s)"

named_theorems rd_keeps_intros

lemma wlp_rd_keeps: "keeps m \<Longrightarrow> (\<And>x t. rd_same s t \<Longrightarrow> Q x t) \<Longrightarrow> wlp m Q s"
  by (auto simp: keeps_def intro: wlp_mono)

lemma rd_same_trans: "rd_same s t \<Longrightarrow> rd_same t u \<Longrightarrow> rd_same s u"
  by (simp add: rd_same_def)

lemma rd_keeps_kern_only [rd_keeps_intros]: "kern_only m \<Longrightarrow> keeps m"
  by (auto simp: keeps_def rd_same_def rd_leases_def intro: wlp_kern_only)

lemma rd_keeps_emit [rd_keeps_intros]: "keeps (emit e)" "keeps (put_file n c)"
  by (simp_all add: keeps_def wp_simps put_file_def rd_same_def rd_leases_def)

lemma rd_keeps_bnd [rd_keeps_intros]:
  assumes "keeps m" and "\<And>x. keeps (f x)"
  shows "keeps (bnd m f)"
  unfolding keeps_def wlp_bnd
proof
  fix s
  show "wlp m (\<lambda>x. wlp (f x) (\<lambda>_. rd_same s)) s"
  proof (rule wlp_mono)
    show "wlp m (\<lambda>_. rd_same s) s" using assms(1) by (simp add: keeps_def)
  next
    fix x t
    assume t: "rd_same s t"
    have "wlp (f x) (\<lambda>_. rd_same t) t" using assms(2) by (simp add: keeps_def)
    then show "wlp (f x) (\<lambda>_. rd_same s) t"
      by (rule wlp_mono) (rule rd_same_trans [OF t])
  qed
qed

lemma rd_keeps_if [rd_keeps_intros]: "keeps m \<Longrightarrow> keeps n \<Longrightarrow> keeps (if b then m else n)"
  by simp

lemma rd_keeps_option [rd_keeps_intros]:
  "keeps m \<Longrightarrow> (\<And>x. keeps (f x)) \<Longrightarrow> keeps (case r of None \<Rightarrow> m | Some x \<Rightarrow> f x)"
  by (cases r) auto

lemma rd_keeps_sum [rd_keeps_intros]:
  "(\<And>x. keeps (f x)) \<Longrightarrow> (\<And>y. keeps (g y)) \<Longrightarrow> keeps (case r of Inl x \<Rightarrow> f x | Inr y \<Rightarrow> g y)"
  by (cases r) auto

lemma rd_keeps_prod [rd_keeps_intros]: "(\<And>x y. keeps (f x y)) \<Longrightarrow> keeps (case r of (x, y) \<Rightarrow> f x y)"
  by (cases r) auto

lemma rd_keeps_for_each [rd_keeps_intros]: "(\<And>x. keeps (f x)) \<Longrightarrow> keeps (for_each xs f)"
  by (induction xs) (auto intro: rd_keeps_intros frame_intros)

lemma map_of_entry [simp]:
  "map_of (AList.map_entry k f al) = (case map_of al k of None \<Rightarrow> map_of al | Some v \<Rightarrow> (map_of al)(k \<mapsto> f v))"
  by (auto simp: map_of_map_entry split: option.split)

lemma keys_map_entry [simp]: "map fst (AList.map_entry k f al) = map fst al"
  by (induction al) auto

lemma rd_keeps_set_host:
  assumes "\<And>h. h_iface (f h) = h_iface h \<and> h_ip4 (f h) = h_ip4 h"
  shows "keeps (set_host mac f)"
  using assms
  by (auto simp: keeps_def set_host_def wp_simps rd_same_def rd_leases_def keys_map_entry fun_eq_iff
      split: option.split)

lemmas kern_only_leaves = kern_only_ret kern_only_gets kern_only_kcall kern_only_calls kern_only_fault

lemma kern_only_rd_reads [frame_intros]:
  "kern_only (rd_index S n)" "kern_only (rd_prefix S idx)" "kern_only (rd_cache S idx mac)"
  "kern_only (rd_kick_nud S n a)"
  unfolding rd_index_def rd_prefix_def rd_cache_def rd_kick_nud_def by (intro frame_intros)+

lemma kern_only_best_nexthop [frame_intros]: "kern_only (best_nexthop S idx mac)"
  unfolding best_nexthop_def Let_def by (intro frame_intros)

lemma rd_keeps_rd_writes [rd_keeps_intros]:
  "keeps (rd_install S n idx ip4 nh)" "keeps (rd_withdraw S ip4 reason)" "keeps (persist S)"
  "keeps (rd_probe S mac h best gua)"
  unfolding rd_install_def rd_withdraw_def persist_def rd_probe_def
  by (intro rd_keeps_intros kern_only_leaves kern_only_rd_reads rd_keeps_set_host; simp)+

lemma rd_keeps_evaluate [rd_keeps_intros]: "keeps (evaluate S mac)"
  unfolding evaluate_def
  by (intro rd_keeps_intros kern_only_leaves kern_only_rd_reads kern_only_best_nexthop rd_keeps_set_host) simp_all

lemma rd_keeps_reconcile_all: "keeps (reconcile_all S)"
  unfolding reconcile_all_def by (intro rd_keeps_intros kern_only_leaves)

section \<open>What a line does to it\<close>

definition rd_lease_set :: "string \<Rightarrow> string \<times> string \<Rightarrow> 'k rd_state \<Rightarrow> 'k rd_state \<Rightarrow> bool" where
  "rd_lease_set mac l s t \<longleftrightarrow> rd_leases t = (rd_leases s)(mac \<mapsto> l) \<and> rd_running t = rd_running s \<and>
     set (map fst (rd_hosts t)) = insert mac (set (map fst (rd_hosts s))) \<and>
     (distinct (map fst (rd_hosts s)) \<longrightarrow> distinct (map fst (rd_hosts t)))"

text \<open>The end of \<open>on_lease\<close>, once the host is in the table.\<close>

definition lease_tail :: "('k, 'x) rd_sys_scheme \<Rightarrow> string \<Rightarrow> ('k rd_state, unit) prog" where
  "lease_tail S mac =
     bnd (kcall (rd_monotonic S)) (\<lambda>now.
     bnd (set_host mac (\<lambda>h. h\<lparr>h_probe := Some (now + GUA_PROBE_DELAY)\<rparr>)) (\<lambda>_.
     bnd (persist S) (\<lambda>_.
     evaluate S mac)))"

lemma rd_keeps_lease_tail: "keeps (lease_tail S mac)"
  unfolding lease_tail_def by (intro rd_keeps_intros kern_only_leaves rd_keeps_set_host) simp

lemma on_lease_set: "wlp (on_lease S iface mac ip4) (\<lambda>_. rd_lease_set mac (iface, ip4) s) s"
proof -
  let ?Q = "\<lambda>_. rd_lease_set mac (iface, ip4) s"
  have tail: "wlp (lease_tail S mac) ?Q t" if t: "rd_lease_set mac (iface, ip4) s t" for t
    using t by (intro wlp_rd_keeps [OF rd_keeps_lease_tail]) (simp add: rd_same_def rd_lease_set_def)
  have new: "wlp (lease_tail S mac) ?Q (t\<lparr>rd_hosts := AList.update mac
      \<lparr>h_iface = iface, h_ip4 = ip4, h_nh = None, h_probe = None\<rparr> (rd_hosts t)\<rparr>)" if "rd_same s t" for t
    using that
    by (intro tail) (auto simp: rd_same_def rd_lease_set_def rd_leases_def fun_eq_iff update_conv' update_keys
        simp flip: set_map)
  have cease: "wlp (rd_withdraw S ip ''lease changed'') (\<lambda>_. rd_same s) s" for ip
    by (rule wlp_rd_keeps [OF rd_keeps_rd_writes(2)])
  have refl: "rd_same s s" by (simp add: rd_same_def)
  show ?thesis
  proof (cases "map_of (rd_hosts s) mac")
    case None
    then show ?thesis
      unfolding on_lease_def lease_tail_def [symmetric]
      by (simp add: wlp_bnd wlp_gets wlp_ret wlp_modify new refl)
  next
    case (Some h)
    show ?thesis
    proof (cases "h_iface h \<noteq> iface \<or> h_ip4 h \<noteq> ip4")
      case True
      then show ?thesis
        unfolding on_lease_def lease_tail_def [symmetric]
        by (auto simp: wlp_bnd wlp_gets wlp_ret wlp_modify Some intro!: wlp_mono [OF cease] new)
    next
      case False
      then have "rd_lease_set mac (iface, ip4) s s"
        using Some map_of_SomeD [OF Some]
        by (auto simp: rd_lease_set_def rd_leases_def fun_eq_iff intro: rev_image_eqI)
      then show ?thesis
        using False unfolding on_lease_def lease_tail_def [symmetric]
        by (simp add: wlp_bnd wlp_gets wlp_ret Some tail)
    qed
  qed
qed

definition rd_lease_gone :: "string \<Rightarrow> 'k rd_state \<Rightarrow> 'k rd_state \<Rightarrow> bool" where
  "rd_lease_gone mac s t \<longleftrightarrow> rd_leases t = (rd_leases s)(mac := None) \<and> rd_running t = rd_running s \<and>
     set (map fst (rd_hosts t)) = set (map fst (rd_hosts s)) - {mac} \<and>
     (distinct (map fst (rd_hosts s)) \<longrightarrow> distinct (map fst (rd_hosts t)))"

lemma on_release_gone: "wlp (on_release S mac ip4) (\<lambda>_. rd_lease_gone mac s) s"
proof -
  have gone: "rd_lease_gone mac s (s\<lparr>rd_hosts := AList.delete mac (rd_hosts s)\<rparr>)"
    by (auto simp: rd_lease_gone_def rd_leases_def fun_eq_iff delete_conv' delete_keys distinct_removeAll)
  have "keeps (bnd (rd_withdraw S ip ''lease released'') (\<lambda>_. persist S))" for ip
    by (intro rd_keeps_intros)
  then have "wlp (bnd (rd_withdraw S ip ''lease released'') (\<lambda>_. persist S)) (\<lambda>_. rd_lease_gone mac s)
      (s\<lparr>rd_hosts := AList.delete mac (rd_hosts s)\<rparr>)" for ip
    by (rule wlp_rd_keeps) (use gone in \<open>simp add: rd_same_def rd_lease_gone_def\<close>)
  then show ?thesis
    using gone unfolding on_release_def
    by (simp add: wlp_bnd wlp_gets wlp_modify wlp_ret split: option.split)
qed

text \<open>Every entry of the table consists of words, and its key is in lower case.\<close>

definition rd_inv :: "'k rd_state \<Rightarrow> bool" where
  "rd_inv s \<longleftrightarrow> distinct (map fst (rd_hosts s)) \<and>
     (\<forall>mac iface ip4. rd_leases s mac = Some (iface, ip4) \<longrightarrow>
       is_token mac \<and> py_lower mac = mac \<and> is_token iface \<and> is_token ip4)"

lemma lower_lower [simp]: "lower_char (lower_char c) = lower_char c"
proof (cases "65 \<le> (of_char c :: nat) \<and> (of_char c :: nat) \<le> 90")
  case True
  then have "(of_char (lower_char c) :: nat) = of_char c + 32"
    by (simp add: lower_char_def Let_def)
  then show ?thesis using True by (simp add: lower_char_def [of "lower_char c"])
qed (auto simp: lower_char_def Let_def)

lemma handle_line_step:
  assumes "rd_inv s"
  shows "wlp (handle_line S line) (\<lambda>_ t. rd_leases t = lease_step line (rd_leases s) \<and> rd_inv t \<and>
    rd_running t = rd_running s) s"
proof (cases "length (py_split line) < 4")
  case True
  have "lease_step line tbl = tbl" for tbl
    using True by (auto simp: lease_step_def split: list.split)
  then show ?thesis
    using True assms by (simp add: handle_line_def Let_def wlp_ret)
next
  case False
  then obtain action iface mac ip4 rest where p: "py_split line = action # iface # mac # ip4 # rest"
    by (auto simp: not_less numeral_eq_Suc Suc_le_length_iff)
  have tokens: "is_token iface" "is_token mac" "is_token ip4"
    using py_split_tokens [of _ line] by (simp_all add: p)
  have lease: "rd_leases t = (rd_leases s)(py_lower mac \<mapsto> (iface, ip4)) \<and> rd_inv t \<and> rd_running t = rd_running s"
    if "rd_lease_set (py_lower mac) (iface, ip4) s t" for t
    using that assms tokens by (auto simp: rd_lease_set_def rd_inv_def)
  have release: "rd_leases t = (rd_leases s)(py_lower mac := None) \<and> rd_inv t \<and> rd_running t = rd_running s"
    if "rd_lease_gone (py_lower mac) s t" for t
    using that assms tokens by (auto simp: rd_lease_gone_def rd_inv_def)
  show ?thesis
  proof (cases "action \<in> {''add'', ''old''}")
    case True
    then show ?thesis
      using lease by (auto simp: handle_line_def p Let_def lease_step_def intro!: wlp_mono [OF on_lease_set])
  next
    case no: False
    show ?thesis
    proof (cases "action = ''del''")
      case True
      then show ?thesis
        using release by (auto simp: handle_line_def p Let_def lease_step_def intro!: wlp_mono [OF on_release_gone])
    qed (use no assms in \<open>simp add: handle_line_def p Let_def lease_step_def wlp_ret\<close>)
  qed
qed

lemma handle_all_step:
  assumes "rd_inv s"
  shows "wlp (for_each ls (handle_line S)) (\<lambda>_ t. rd_leases t = fold lease_step ls (rd_leases s) \<and> rd_inv t \<and>
    rd_running t = rd_running s) s"
  using assms
proof (induction ls arbitrary: s)
  case (Cons l ls)
  show ?case
    unfolding for_each.simps wlp_bnd
  proof (rule wlp_mono [OF handle_line_step [OF Cons.prems]])
    fix t :: "'a rd_state"
    assume t: "rd_leases t = lease_step l (rd_leases s) \<and> rd_inv t \<and> rd_running t = rd_running s"
    then show "wlp (for_each ls (handle_line S)) (\<lambda>_ u. rd_leases u = fold lease_step (l # ls) (rd_leases s) \<and>
        rd_inv u \<and> rd_running u = rd_running s) t"
      using Cons.IH [of t] by simp
  qed
qed (simp add: wlp_ret)

end
