(* ===== verification/Router_Restart.thy ===== *)
theory Router_Restart
  imports Router_Table
begin

text \<open>
  The lease file of the router daemon: what \<open>persist\<close> writes, \<open>restore\<close> reads back into the same
  table, less the leases dnsmasq has dropped in the meantime.
\<close>

section \<open>Reading the lines back\<close>

lemma line_break_space: "line_break c \<Longrightarrow> py_space c"
  by (auto simp: line_break_def py_space_def is_space_def newline_def)

lemma token_no_break: "is_token w \<Longrightarrow> c \<in> set w \<Longrightarrow> \<not> line_break c"
  using line_break_space by (auto simp: is_token_def)

lemma split_lines_line:
  assumes "\<forall>c \<in> set w. \<not> line_break c"
  shows "split_lines cur (w @ newline # cs) = (rev cur @ w) # split_lines [] cs"
  using assms
proof (induction w arbitrary: cur)
  case Nil
  have "line_break newline" "newline \<noteq> CHR 0x0D" by (simp_all add: line_break_def newline_def)
  then show ?case by simp
next
  case (Cons c w)
  then have "\<not> line_break c" "c \<noteq> CHR 0x0D" by (auto simp: line_break_def)
  then show ?case using Cons by simp
qed

definition host_words :: "string \<times> rd_host \<Rightarrow> string" where
  "host_words e = fst e @ '' '' @ h_iface (snd e) @ '' '' @ h_ip4 (snd e)"

definition host_tokens :: "string \<times> rd_host \<Rightarrow> bool" where
  "host_tokens e \<longleftrightarrow> is_token (fst e) \<and> py_lower (fst e) = fst e \<and> is_token (h_iface (snd e)) \<and>
     is_token (h_ip4 (snd e))"

lemma splitlines_hosts:
  assumes "\<forall>e \<in> set es. host_tokens e"
  shows "py_splitlines (concat (map host_line es)) = map host_words es"
  using assms
proof (induction es)
  case (Cons e es)
  have "\<not> line_break (CHR '' '')" by (simp add: line_break_def newline_def)
  then have "\<forall>c \<in> set (host_words e). \<not> line_break c"
    using Cons.prems by (auto simp: host_words_def host_tokens_def dest: token_no_break)
  moreover have "host_line e @ cs = host_words e @ newline # cs" for cs
    by (simp add: host_line_def host_words_def)
  ultimately show ?case
    using Cons split_lines_line [of "host_words e" "[]"] by simp
qed simp

lemma split_host_words: "host_tokens e \<Longrightarrow> py_split (host_words e) = [fst e, h_iface (snd e), h_ip4 (snd e)]"
  using py_split_three [of "fst e" "h_iface (snd e)" "h_ip4 (snd e)"]
  by (simp add: host_words_def host_tokens_def)

lemma rd_inv_tokens:
  assumes "rd_inv s"
  shows "\<forall>e \<in> set (rd_hosts s). host_tokens e"
proof
  fix e
  assume "e \<in> set (rd_hosts s)"
  then have "map_of (rd_hosts s) (fst e) = Some (snd e)"
    using assms by (intro map_of_is_SomeI) (simp_all add: rd_inv_def)
  then have "rd_leases s (fst e) = Some (h_iface (snd e), h_ip4 (snd e))"
    by (simp add: rd_leases_def)
  then show "host_tokens e"
    using assms by (auto simp: rd_inv_def host_tokens_def)
qed

section \<open>Writing\<close>

text \<open>The file system does what it is asked.\<close>

definition rd_disk_ok :: "('k, 'x) rd_sys_scheme \<Rightarrow> bool" where
  "rd_disk_ok S \<longleftrightarrow> (\<forall>k. fst (rd_makedirs S k) = Inr ()) \<and> (\<forall>k. fst (rd_open_tmp S k) = Inr ()) \<and>
     (\<forall>c k. \<not> snd (fst (rd_write_close S c k))) \<and> (\<forall>k. fst (rd_os_replace S k) = Inr ())"

lemma wp_attempt_os_ok: "fst (f (kern s)) = Inr x \<Longrightarrow> wp (attempt_os f) Q s = Q (Some x) (s\<lparr>kern := snd (f (kern s))\<rparr>)"
  by (cases "f (kern s)") (simp add: attempt_os_def wp_def bnd_def kcall_def ret_def)

lemma STATE_names: "STATE @ ''.tmp'' \<noteq> STATE" "LEASES \<noteq> STATE" "LEASES \<noteq> STATE @ ''.tmp''"
  by (simp_all add: STATE_def LEASES_def)

lemma persist_writes:
  assumes "rd_disk_ok S"
  shows "wp (persist S) (\<lambda>_ t. files t STATE = Some (concat (map host_line (rd_hosts s))) \<and>
    files t LEASES = files s LEASES \<and> rd_hosts t = rd_hosts s) s"
  using assms STATE_names
  by (simp add: persist_def rd_disk_ok_def wp_bnd wp_attempt_os_ok wp_gets wp_kcall put_file_def wp_modify
      case_prod_beta)

section \<open>Reading\<close>

lemma mem_map_filter: "y \<in> set (List.map_filter f xs) \<longleftrightarrow> Some y \<in> f ` set xs"
  by (induction xs) (auto simp: List.map_filter_simps split: option.split)

text \<open>The leases that dnsmasq's file, when it can be read, still has.\<close>

definition lease_live :: "string option \<Rightarrow> string \<Rightarrow> string \<Rightarrow> bool" where
  "lease_live leases mac ip4 \<longleftrightarrow> (case leases of
     None \<Rightarrow> True
   | Some text \<Rightarrow> Some (mac, ip4) \<in> set (map lease_row (py_splitlines text)))"

definition rd_pruned :: "string option \<Rightarrow> lease_table \<Rightarrow> lease_table" where
  "rd_pruned leases tbl = (\<lambda>mac. case tbl mac of
     None \<Rightarrow> None
   | Some (iface, ip4) \<Rightarrow> if lease_live leases mac ip4 then Some (iface, ip4) else None)"

abbreviation live_set :: "string option \<Rightarrow> (string \<times> string) set option" where
  "live_set leases \<equiv> map_option (\<lambda>text. set (List.map_filter lease_row (py_splitlines text))) leases"

lemma restore_line_host:
  assumes "host_tokens e"
  shows "wp (restore_line S (live_set leases) (host_words e)) (\<lambda>_ t. files t = files s \<and>
    rd_leases t = (if lease_live leases (fst e) (h_ip4 (snd e))
      then (rd_leases s)(fst e \<mapsto> (h_iface (snd e), h_ip4 (snd e))) else rd_leases s)) s"
  using assms
  by (cases leases)
    (auto simp: restore_line_def split_host_words Let_def host_tokens_def lease_live_def wp_simps
      mem_map_filter rd_leases_def update_conv' fun_eq_iff)

lemma restore_hosts:
  assumes "\<forall>e \<in> set es. host_tokens e" and "distinct (map fst es)" and "\<forall>e \<in> set es. rd_leases s (fst e) = None"
  shows "wp (for_each (map host_words es) (restore_line S (live_set leases))) (\<lambda>_ t. files t = files s \<and>
    rd_leases t = (\<lambda>mac. case map_of es mac of
        None \<Rightarrow> rd_leases s mac
      | Some h \<Rightarrow> if lease_live leases mac (h_ip4 h) then Some (h_iface h, h_ip4 h) else None)) s"
  using assms
proof (induction es arbitrary: s)
  case Nil
  then show ?case by (simp add: wp_ret)
next
  case (Cons e es)
  have e: "host_tokens e" using Cons.prems(1) by simp
  have fresh: "map_of es (fst e) = None" using Cons.prems(2) by (simp add: map_of_eq_None_iff)
  have ne: "\<forall>d \<in> set es. fst d \<noteq> fst e"
    using Cons.prems(2) by (metis distinct.simps(2) image_eqI list.map(2) set_map)
  show ?case
    unfolding list.map for_each.simps wp_bnd
  proof (rule wp_mono [OF restore_line_host [OF e]])
    fix t :: "'a rd_state"
    assume t: "files t = files s \<and> rd_leases t = (if lease_live leases (fst e) (h_ip4 (snd e))
      then (rd_leases s)(fst e \<mapsto> (h_iface (snd e), h_ip4 (snd e))) else rd_leases s)"
    have "wp (for_each (map host_words es) (restore_line S (live_set leases))) (\<lambda>_ u. files u = files t \<and>
      rd_leases u = (\<lambda>mac. case map_of es mac of
          None \<Rightarrow> rd_leases t mac
        | Some h \<Rightarrow> if lease_live leases mac (h_ip4 h) then Some (h_iface h, h_ip4 h) else None)) t"
      using Cons.prems(1-3) t ne by (intro Cons.IH) (simp_all split: if_splits)
    then show "wp (for_each (map host_words es) (restore_line S (live_set leases))) (\<lambda>_ u. files u = files s \<and>
      rd_leases u = (\<lambda>mac. case map_of (e # es) mac of
          None \<Rightarrow> rd_leases s mac
        | Some h \<Rightarrow> if lease_live leases mac (h_ip4 h) then Some (h_iface h, h_ip4 h) else None)) t"
    proof (rule wp_mono)
      fix u :: "'a rd_state"
      assume u: "files u = files t \<and> rd_leases u = (\<lambda>mac. case map_of es mac of
          None \<Rightarrow> rd_leases t mac
        | Some h \<Rightarrow> if lease_live leases mac (h_ip4 h) then Some (h_iface h, h_ip4 h) else None)"
      have "rd_leases u mac = (case map_of (e # es) mac of
          None \<Rightarrow> rd_leases s mac
        | Some h \<Rightarrow> if lease_live leases mac (h_ip4 h) then Some (h_iface h, h_ip4 h) else None)" for mac
        using t u fresh Cons.prems(3)
        by (cases e; cases "mac = fst e") (auto simp del: map_of_eq_Some_iff split: option.split if_splits)
      then show "files u = files s \<and> rd_leases u = (\<lambda>mac. case map_of (e # es) mac of
          None \<Rightarrow> rd_leases s mac
        | Some h \<Rightarrow> if lease_live leases mac (h_ip4 h) then Some (h_iface h, h_ip4 h) else None)"
        using conjunct1 [OF t] conjunct1 [OF u] by (intro conjI ext) simp_all
    qed
  qed
qed

lemma restore_reads:
  fixes u :: "'k rd_state"
  assumes "rd_inv s" and "files u STATE = Some (concat (map host_line (rd_hosts s)))" and "rd_hosts u = []"
  shows "wp (restore S) (\<lambda>_ t. rd_leases t = rd_pruned (files u LEASES) (rd_leases s)) u"
proof -
  have tokens: "\<forall>e \<in> set (rd_hosts s). host_tokens e" and d: "distinct (map fst (rd_hosts s))"
    using assms(1) rd_inv_tokens by (auto simp: rd_inv_def)
  have leases: "rd_leases (t\<lparr>out := e\<rparr>) = rd_leases t" for t :: "'k rd_state" and e
    by (simp add: rd_leases_def)
  have "rd_leases u = (\<lambda>_. None)"
    using assms(3) by (simp add: rd_leases_def)
  then have "wp (for_each (map host_words (rd_hosts s)) (restore_line S (live_set (files u LEASES)))) (\<lambda>_ t.
      rd_leases t = rd_pruned (files u LEASES) (rd_leases s)) u"
    by (intro wp_mono [OF restore_hosts [OF tokens d]])
      (auto simp: rd_pruned_def rd_leases_def fun_eq_iff split: option.split)
  then have "wp (for_each (map host_words (rd_hosts s)) (restore_line S (live_set (files u LEASES))))
      (\<lambda>_. wp (bnd (gets rd_hosts) (\<lambda>hosts. if hosts \<noteq> [] then emit (Rd_log_restored (length hosts)) else ret ()))
        (\<lambda>_ t. rd_leases t = rd_pruned (files u LEASES) (rd_leases s))) u"
    by (rule wp_mono) (simp add: wp_simps leases)
  then have "wp (bnd (for_each (map host_words (rd_hosts s)) (restore_line S (live_set (files u LEASES))))
      (\<lambda>_. bnd (gets rd_hosts) (\<lambda>hosts. if hosts \<noteq> [] then emit (Rd_log_restored (length hosts)) else ret ())))
      (\<lambda>_ t. rd_leases t = rd_pruned (files u LEASES) (rd_leases s)) u"
    by (simp only: wp_bnd)
  moreover have "restore S u = bnd (for_each (map host_words (rd_hosts s)) (restore_line S (live_set (files u LEASES))))
      (\<lambda>_. bnd (gets rd_hosts) (\<lambda>hosts. if hosts \<noteq> [] then emit (Rd_log_restored (length hosts)) else ret ())) u"
    by (simp add: restore_def live_leases_def bnd_run run_simps assms(2) splitlines_hosts [OF tokens])
  ultimately show ?thesis by (simp only: wp_def)
qed

end
