(* ===== verification/Router_Follow.thy ===== *)
theory Router_Follow
  imports Router_Restart
begin

text \<open>
  The next hop of a host: the address derived from its MAC, the choice among the addresses in
  the neighbor cache, and what evaluating a host and handling a line do to the routes of a
  kernel that does what it is asked.
\<close>

section \<open>The derived address\<close>

lemma is_hex_not_py_space: "is_hex c \<Longrightarrow> \<not> py_space c"
  by (auto simp: py_space_def is_space_def) (code_simp+)

lemma py_int16_byte: "py_int16 (hex_byte upper b) = Some (int (unat b))"
proof -
  define h l where hl: "h = hex_digit upper (unat b div 16)" "l = hex_digit upper (unat b mod 16)"
  have hex: "is_hex h" "is_hex l"
    using hex_byte_digits [of b] by (simp_all add: hl)
  have strip: "py_strip [h, l] = [h, l]"
    using is_hex_not_py_space hex by (simp add: py_strip_def)
  have nx: "h \<noteq> CHR ''-''" "h \<noteq> CHR ''+''" "l \<noteq> CHR ''x''" "l \<noteq> CHR ''X''"
    using hex is_hex_not by metis+
  have "hex_first [h, l] = Some (16 * (unat b div 16) + unat b mod 16)"
    using hex_byte_digits [of b] by (simp add: hex_first_def hl hex_digit_val)
  then show ?thesis
    using nx by (simp add: hex_byte_def py_int16_def strip flip: hl)
qed

lemma py_bytes_hex: "py_bytes (map (hex_byte upper) bs) = Some bs"
proof (induction bs)
  case (Cons b bs)
  have "uint b < 256" using byte_lt [of b] by (metis of_nat_less_iff of_nat_numeral uint_nat)
  then show ?case using Cons by (simp add: py_int16_byte)
qed simp

lemma split_at_join:
  assumes "ws \<noteq> []" and "\<forall>w \<in> set ws. sep \<notin> set w"
  shows "split_at sep (join sep ws) = ws"
  using assms
proof (induction sep ws rule: join.induct)
  case (3 sep s v va)
  have "sep \<notin> set s \<Longrightarrow> split_at sep (s @ sep # cs) = s # split_at sep cs" for cs
    by (induction s) auto
  then show ?case using 3 by simp
qed (simp_all add: split_at_none)

definition eui64 :: "mac_addr \<Rightarrow> byte list" where
  "eui64 m = [m ! 0 XOR 0x02, m ! 1, m ! 2, 0xff, 0xfe, m ! 3, m ! 4, m ! 5]"

definition eui64_mac :: "byte list \<Rightarrow> mac_addr" where
  "eui64_mac iid = [iid ! 0 XOR 0x02, iid ! 1, iid ! 2, iid ! 5, iid ! 6, iid ! 7]"

lemma eui64_mac_eui64: "length m = 6 \<Longrightarrow> eui64_mac (eui64 m) = m"
  by (auto simp: eui64_mac_def eui64_def numeral_eq_Suc length_Suc_conv xor.assoc)

lemma split_mac_text:
  assumes "length m = 6" and "\<not> is_hex sep"
  shows "split_at sep (mac_text upper sep m) = map (hex_byte upper) m"
proof -
  have "mac_text upper sep m = join sep (map (hex_byte upper) m)"
    by (rule mac_text_fits(1) [OF assms(1)])
  moreover have "sep \<notin> set (hex_byte upper b)" for b
    using assms(2) hex_byte_digits [of b] hex_digit_is_hex by (auto simp: hex_byte_def)
  ultimately show ?thesis
    using assms(1) split_at_join [of "map (hex_byte upper) m" sep] by (cases m) simp_all
qed

lemma derive_gua_text:
  assumes "length dst = 16" and "length m = 6"
  shows "derive_gua (network64 dst) (mac_text upper (CHR '':'') m) = Some (take 8 dst @ eui64 m)"
proof -
  have zeros: "map2 (OR) bs (replicate n 0) = bs" "map2 (OR) (replicate n 0) bs = bs"
    if "length bs = n" for bs :: "byte list" and n
    using that by (induction bs arbitrary: n) auto
  have "map2 (OR) (take 8 dst @ replicate 8 0) (replicate 8 0 @ eui64 m) = take 8 dst @ eui64 m"
    using assms zeros [of "take 8 dst" 8] zeros [of "eui64 m" 8] by (simp add: eui64_def)
  then show ?thesis
    using assms(2) is_hex_not(3)
    by (simp add: derive_gua_def split_mac_text py_bytes_hex network64_def eui64_def)
qed

text \<open>A printed MAC address reads back here too.\<close>

interpretation rd_mac_text: mac_codec mac_str "\<lambda>s. py_bytes (split_at (CHR '':'') s)"
  by unfold_locales (simp add: mac_str_def split_mac_text is_hex_not(3) py_bytes_hex)

section \<open>The choice\<close>

definition rd_rank :: "in6_addr option \<Rightarrow> in6_addr \<Rightarrow> nat" where
  "rd_rank gua dst = (if gua = Some dst then 3 else if is_global_or_ula dst then 2
     else if is_fe80 dst then 1 else 0)"

definition rd_choose :: "in6_addr option \<Rightarrow> (in6_addr \<times> u16) list \<Rightarrow> in6_addr option" where
  "rd_choose gua cache =
     (case pick_nexthop gua cache of
        Some g \<Rightarrow> Some g
      | None \<Rightarrow>
          case find (\<lambda>(dst, st). nud_usable st \<and> is_global_or_ula dst) cache of
            Some (dst, _) \<Rightarrow> Some dst
          | None \<Rightarrow> map_option fst (find (\<lambda>(dst, st). nud_usable st \<and> is_fe80 dst) cache))"

lemma find_first: "find P xs = Some x \<Longrightarrow> \<exists>pre post. xs = pre @ x # post \<and> P x \<and> (\<forall>y \<in> set pre. \<not> P y)"
proof (induction xs)
  case (Cons y ys)
  show ?case
  proof (cases "P y")
    case True
    then have "x = y" using Cons.prems by simp
    then show ?thesis using True by (intro exI [of _ "[]"] exI [of _ ys]) simp
  next
    case False
    then obtain pre post where "ys = pre @ x # post" "P x" "\<forall>y \<in> set pre. \<not> P y"
      using Cons by auto
    then show ?thesis using False by (intro exI [of _ "y # pre"] exI [of _ post]) simp
  qed
qed simp

lemma nud_usable_zero [simp]: "\<not> nud_usable 0"
  by (simp add: nud_usable_def)

text \<open>The first of the usable addresses of the highest rank.\<close>

lemma rd_choose_Some:
  assumes "distinct (map fst cache)" and "rd_choose gua cache = Some a"
  shows "\<exists>pre st post. cache = pre @ (a, st) # post \<and> nud_usable st \<and> 0 < rd_rank gua a \<and>
    (\<forall>(d, u) \<in> set pre. nud_usable u \<longrightarrow> rd_rank gua d < rd_rank gua a) \<and>
    (\<forall>(d, u) \<in> set post. nud_usable u \<longrightarrow> rd_rank gua d \<le> rd_rank gua a)"
proof (cases "pick_nexthop gua cache")
  case (Some g)
  then have a: "a = g" "gua = Some g" using assms(2)
    by (auto simp: rd_choose_def pick_nexthop_def split: option.splits if_splits)
  obtain st where "map_of cache g = Some st" "nud_usable st"
    using Some a by (auto simp: pick_nexthop_def simp del: map_of_eq_Some_iff split: option.splits if_splits)
  then obtain pre post where cache: "cache = pre @ (g, st) # post"
    by (meson map_of_SomeD split_list)
  have "rd_rank gua d < 3" if "(d, u) \<in> set pre" for d u
    using that assms(1) a by (auto simp: cache rd_rank_def intro: rev_image_eqI)
  moreover have "rd_rank gua d \<le> 3" for d by (simp add: rd_rank_def)
  ultimately show ?thesis
    using cache a \<open>nud_usable st\<close>
    by (intro exI [of _ pre] exI [of _ st] exI [of _ post]) (auto simp: rd_rank_def)
next
  case None
  then have gua: "\<not> nud_usable u" if "gua = Some d" "(d, u) \<in> set cache" for d u
    using that assms(1) by (auto simp: pick_nexthop_def split: if_splits)
  let ?glob = "\<lambda>(dst, st). nud_usable st \<and> is_global_or_ula dst"
  let ?link = "\<lambda>(dst, st). nud_usable st \<and> is_fe80 dst"
  show ?thesis
  proof (cases "find ?glob cache")
    case (Some e)
    then obtain st where e: "e = (a, st)"
      using assms(2) None by (cases e) (auto simp: rd_choose_def)
    obtain pre post where cache: "cache = pre @ (a, st) # post" and good: "nud_usable st" "is_global_or_ula a"
      and pre: "\<forall>y \<in> set pre. \<not> ?glob y"
      using find_first [OF Some] e by auto
    have rank: "rd_rank gua a = 2"
      using gua [of a st] good cache by (auto simp: rd_rank_def)
    have "rd_rank gua d \<le> 2" if "nud_usable u" "(d, u) \<in> set cache" for d u
      using that gua [of d u] by (auto simp: rd_rank_def)
    moreover have "rd_rank gua d < 2" if "nud_usable u" "(d, u) \<in> set pre" for d u
      using that gua [of d u] pre by (auto simp: rd_rank_def cache)
    ultimately show ?thesis
      using cache good rank by (intro exI [of _ pre] exI [of _ st] exI [of _ post]) auto
  next
    case none: None
    then have "find ?link cache \<noteq> None" and "map_option fst (find ?link cache) = Some a"
      using assms(2) None by (auto simp: rd_choose_def)
    then obtain st where link: "find ?link cache = Some (a, st)" by auto
    obtain pre post where cache: "cache = pre @ (a, st) # post" and good: "nud_usable st" "is_fe80 a"
      and pre: "\<forall>y \<in> set pre. \<not> ?link y"
      using find_first [OF link] by auto
    have no: "\<not> is_global_or_ula d" if "nud_usable u" "(d, u) \<in> set cache" for d u
      using none that by (auto simp: find_None_iff)
    have rank: "rd_rank gua a = 1"
      using gua [of a st] no [of st a] good cache by (auto simp: rd_rank_def)
    have "rd_rank gua d \<le> 1" if "nud_usable u" "(d, u) \<in> set cache" for d u
      using that gua [of d u] no [of u d] by (auto simp: rd_rank_def)
    moreover have "rd_rank gua d < 1" if "nud_usable u" "(d, u) \<in> set pre" for d u
      using that gua [of d u] no [of u d] pre by (auto simp: rd_rank_def cache)
    ultimately show ?thesis
      using cache good rank by (intro exI [of _ pre] exI [of _ st] exI [of _ post]) auto
  qed
qed

lemma rd_choose_None:
  assumes "distinct (map fst cache)" and "rd_choose gua cache = None"
  shows "\<forall>(d, u) \<in> set cache. nud_usable u \<longrightarrow> rd_rank gua d = 0"
proof -
  have "gua \<noteq> Some d" if "nud_usable u" "(d, u) \<in> set cache" for d u
  proof -
    have "map_of cache d = Some u" using assms(1) that(2) by simp
    then show ?thesis
      using that(1) assms(2)
      by (auto simp: rd_choose_def pick_nexthop_def simp del: map_of_eq_Some_iff split: option.splits if_splits)
  qed
  then show ?thesis
    using assms(2)
    by (auto simp: rd_choose_def rd_rank_def find_None_iff split: option.splits prod.splits)
qed

lemma cache_of_distinct: "distinct (map fst acc) \<Longrightarrow> distinct (map fst (cache_of mac ns acc))"
  by (induction mac ns acc rule: cache_of.induct) (auto simp: distinct_update split: option.split)

text \<open>What the tables show: the advertised prefix and the neighbors of the interface.\<close>

definition rd_quiet :: "('k, 'x) rd_sys_scheme \<Rightarrow> bool" where
  "rd_quiet S \<longleftrightarrow> (\<forall>n. quiet (rd_link_lookup S n) \<and> total_call (rd_link_lookup S n)) \<and>
     quiet (rd_get_routes S) \<and> total_call (rd_get_routes S) \<and>
     (\<forall>i. quiet (rd_get_neighbours S i) \<and> netlink_call (rd_get_neighbours S i)) \<and> quiet (rd_monotonic S) \<and>
     quiet (rd_socket S) \<and> os_call (rd_socket S) \<and>
     (\<forall>n. quiet (rd_bind_to_device S n) \<and> os_call (rd_bind_to_device S n)) \<and>
     (\<forall>a. quiet (rd_sendto S a) \<and> os_call (rd_sendto S a))"

definition rd_gua :: "('k, 'x) rd_sys_scheme \<Rightarrow> int \<Rightarrow> string \<Rightarrow> 'k \<Rightarrow> in6_addr option" where
  "rd_gua S idx mac k = (case fst (rd_get_routes S k) of
     Inl e \<Rightarrow> None
   | Inr rs \<Rightarrow> (case prefix_of idx rs of None \<Rightarrow> None | Some net \<Rightarrow> derive_gua net mac))"

definition rd_neighbors :: "('k, 'x) rd_sys_scheme \<Rightarrow> int \<Rightarrow> string \<Rightarrow> 'k \<Rightarrow> (in6_addr \<times> u16) list" where
  "rd_neighbors S idx mac k = (case fst (rd_get_neighbours S idx k) of Inl e \<Rightarrow> [] | Inr ns \<Rightarrow> cache_of mac ns [])"

lemma total_callD: "total_call f \<Longrightarrow> \<exists>x. fst (f k) = Inr x"
  unfolding total_call_def by (metis sumE)

lemma best_nexthop_quiet:
  assumes "rd_quiet S"
  shows "best_nexthop S idx mac s = Some ((rd_choose (rd_gua S idx mac (kern s)) (rd_neighbors S idx mac (kern s)),
    rd_gua S idx mac (kern s)), s)"
proof -
  obtain rs where rs: "fst (rd_get_routes S (kern s)) = Inr rs"
    using total_callD [of "rd_get_routes S" "kern s"] assms unfolding rd_quiet_def by blast
  have "must (rd_get_routes S) s = Some (rs, s)"
    using assms rs by (intro must_quiet) (simp_all add: rd_quiet_def)
  then have prefix: "rd_prefix S idx s = Some (prefix_of idx rs, s)"
    by (simp add: rd_prefix_def bnd_def run_simps)
  have "attempt (rd_get_neighbours S idx) s = Some (case fst (rd_get_neighbours S idx (kern s)) of
      Inl e \<Rightarrow> Inl (case e of Netlink_error c \<Rightarrow> c) | Inr x \<Rightarrow> Inr x, s)"
    using assms by (intro attempt_quiet) (simp_all add: rd_quiet_def)
  then have cache: "rd_cache S idx mac s = Some (rd_neighbors S idx mac (kern s), s)"
    by (simp add: rd_cache_def bnd_def run_simps rd_neighbors_def split: sum.split)
  have gua: "rd_gua S idx mac (kern s) = (case prefix_of idx rs of None \<Rightarrow> None | Some net \<Rightarrow> derive_gua net mac)"
    by (simp add: rd_gua_def rs)
  have choose: "(case pick_nexthop gua c of
       Some g \<Rightarrow> ret (Some g, gua)
     | None \<Rightarrow>
         case find (\<lambda>(dst, st). nud_usable st \<and> is_global_or_ula dst) c of
           Some (dst, _) \<Rightarrow> ret (Some dst, gua)
         | None \<Rightarrow>
             case find (\<lambda>(dst, st). nud_usable st \<and> is_fe80 dst) c of
               Some (dst, _) \<Rightarrow> ret (Some dst, gua)
             | None \<Rightarrow> ret (None, gua)) = ret (rd_choose gua c, gua)" for gua c
    by (auto simp: rd_choose_def split: option.split)
  have "best_nexthop S idx mac = bnd (rd_prefix S idx) (\<lambda>prefix.
      let gua = (case prefix of None \<Rightarrow> None | Some net \<Rightarrow> derive_gua net mac) in
      bnd (rd_cache S idx mac) (\<lambda>cache. ret (rd_choose gua cache, gua)))"
    by (simp only: best_nexthop_def choose)
  then show ?thesis
    by (simp add: bnd_def prefix cache gua ret_def Let_def)
qed

section \<open>The routes\<close>

text \<open>
  \<open>rt k ip4\<close> is the next hop of the daemon's route to \<open>ip4/32\<close>: routes are replaced and deleted
  as requested, and nothing else the daemon calls touches them.
\<close>

definition rd_law :: "('k, 'x) rd_sys_scheme \<Rightarrow> ('k \<Rightarrow> string \<Rightarrow> in6_addr option) \<Rightarrow> bool" where
  "rd_law S rt \<longleftrightarrow>
     (\<forall>ip idx nh k. fst (rd_sys_replace S ip idx nh k) = Inr () \<and>
        rt (snd (rd_sys_replace S ip idx nh k)) = (rt k)(ip := Some nh)) \<and>
     (\<forall>ip k. fst (rd_sys_del S ip k) = (if rt k ip = None then Inl (Netlink_error rd_ESRCH) else Inr ()) \<and>
        rt (snd (rd_sys_del S ip k)) = (rt k)(ip := None)) \<and>
     (\<forall>ip idx k. rt (snd (rd_sys_neigh_del S ip idx k)) = rt k) \<and>
     (\<forall>n k. rt (snd (rd_link_lookup S n k)) = rt k) \<and> (\<forall>k. rt (snd (rd_get_routes S k)) = rt k) \<and>
     (\<forall>i k. rt (snd (rd_get_neighbours S i k)) = rt k) \<and> (\<forall>k. rt (snd (rd_socket S k)) = rt k) \<and>
     (\<forall>n k. rt (snd (rd_bind_to_device S n k)) = rt k) \<and> (\<forall>a k. rt (snd (rd_sendto S a k)) = rt k) \<and>
     (\<forall>k. rt (snd (rd_monotonic S k)) = rt k) \<and> (\<forall>k. rt (snd (rd_makedirs S k)) = rt k) \<and>
     (\<forall>k. rt (snd (rd_open_tmp S k)) = rt k) \<and> (\<forall>c k. rt (snd (rd_write_close S c k)) = rt k) \<and>
     (\<forall>k. rt (snd (rd_os_replace S k)) = rt k)"

text \<open>What the table says about routes: the IPv4 address and the next hop of each host.\<close>

definition rd_slots :: "'k rd_state \<Rightarrow> string \<Rightarrow> (string \<times> in6_addr option) option" where
  "rd_slots s = (\<lambda>mac. map_option (\<lambda>h. (h_ip4 h, h_nh h)) (map_of (rd_hosts s) mac))"

definition slots_exact :: "(string \<Rightarrow> (string \<times> in6_addr option) option) \<Rightarrow> (string \<Rightarrow> in6_addr option) \<Rightarrow> bool" where
  "slots_exact slots routes \<longleftrightarrow> (\<forall>mac ip nh. slots mac = Some (ip, nh) \<longrightarrow> routes ip = nh) \<and>
     (\<forall>ip. (\<forall>mac nh. slots mac \<noteq> Some (ip, nh)) \<longrightarrow> routes ip = None)"

text \<open>The kernel has the routes of the table, and no other.\<close>

definition rd_exact :: "('k \<Rightarrow> string \<Rightarrow> in6_addr option) \<Rightarrow> 'k rd_state \<Rightarrow> bool" where
  "rd_exact rt s \<longleftrightarrow> slots_exact (rd_slots s) (rt (kern s))"

definition ips_distinct :: "lease_table \<Rightarrow> bool" where
  "ips_distinct tbl \<longleftrightarrow> (\<forall>m m' i i' ip. tbl m = Some (i, ip) \<and> tbl m' = Some (i', ip) \<longrightarrow> m = m')"

lemma slots_leases: "rd_slots s mac = Some (ip, nh) \<Longrightarrow> \<exists>i. rd_leases s mac = Some (i, ip)"
  by (auto simp: rd_slots_def rd_leases_def simp del: map_of_eq_Some_iff)

text \<open>A fragment that leaves routes and next hops alone.\<close>

definition still :: "('k \<Rightarrow> string \<Rightarrow> in6_addr option) \<Rightarrow> ('k rd_state, 'a) prog \<Rightarrow> bool" where
  "still rt m \<longleftrightarrow> (\<forall>s. wlp m (\<lambda>_ t. rt (kern t) = rt (kern s) \<and> rd_slots t = rd_slots s) s)"

named_theorems still_intros

lemma still_basic [still_intros]:
  "still rt (ret x)" "still rt (gets f)" "still rt (emit e)" "still rt (put_file n c)"
  by (simp_all add: still_def wp_simps put_file_def rd_slots_def)

lemma still_fault [still_intros]: "still rt (\<lambda>_. None)"
  by (simp add: still_def wlp_def)

lemma still_kcall [still_intros]: "(\<And>k. rt (snd (f k)) = rt k) \<Longrightarrow> still rt (kcall f)"
  by (simp add: still_def wp_simps rd_slots_def)

lemma still_bnd [still_intros]:
  assumes "still rt m" and "\<And>x. still rt (f x)"
  shows "still rt (bnd m f)"
  unfolding still_def wlp_bnd
proof
  fix s
  show "wlp m (\<lambda>x. wlp (f x) (\<lambda>_ t. rt (kern t) = rt (kern s) \<and> rd_slots t = rd_slots s)) s"
  proof (rule wlp_mono)
    show "wlp m (\<lambda>_ t. rt (kern t) = rt (kern s) \<and> rd_slots t = rd_slots s) s"
      using assms(1) by (simp add: still_def)
  next
    fix x t
    assume t: "rt (kern t) = rt (kern s) \<and> rd_slots t = rd_slots s"
    have "wlp (f x) (\<lambda>_ u. rt (kern u) = rt (kern t) \<and> rd_slots u = rd_slots t) t"
      using assms(2) by (simp add: still_def)
    then show "wlp (f x) (\<lambda>_ t. rt (kern t) = rt (kern s) \<and> rd_slots t = rd_slots s) t"
      by (rule wlp_mono) (simp add: t)
  qed
qed

lemma still_if [still_intros]: "still rt m \<Longrightarrow> still rt n \<Longrightarrow> still rt (if b then m else n)"
  by simp

lemma still_option [still_intros]:
  "still rt m \<Longrightarrow> (\<And>x. still rt (f x)) \<Longrightarrow> still rt (case r of None \<Rightarrow> m | Some x \<Rightarrow> f x)"
  by (cases r) auto

lemma still_sum [still_intros]:
  "(\<And>x. still rt (f x)) \<Longrightarrow> (\<And>y. still rt (g y)) \<Longrightarrow> still rt (case r of Inl x \<Rightarrow> f x | Inr y \<Rightarrow> g y)"
  by (cases r) auto

lemma still_prod [still_intros]: "(\<And>x y. still rt (f x y)) \<Longrightarrow> still rt (case r of (x, y) \<Rightarrow> f x y)"
  by (cases r) auto

lemma still_exn [still_intros]:
  "(\<And>x. still rt (f x)) \<Longrightarrow> still rt m \<Longrightarrow> still rt (case e of Netlink_error x \<Rightarrow> f x | Os_error \<Rightarrow> m)"
  by (cases e) auto

lemma still_calls [still_intros]:
  assumes "\<And>k. rt (snd (f k)) = rt k"
  shows "still rt (must f)" "still rt (attempt f)" "still rt (attempt_os f)"
  unfolding must_def attempt_def attempt_os_def by (intro still_intros assms)+

lemma still_set_host [still_intros]:
  assumes "\<And>h. h_ip4 (f h) = h_ip4 h \<and> h_nh (f h) = h_nh h"
  shows "still rt (set_host mac f)"
  using assms by (auto simp: still_def set_host_def wp_simps rd_slots_def fun_eq_iff split: option.split)

lemma still_rd:
  assumes "rd_law S rt"
  shows "still rt (rd_index S n)" "still rt (best_nexthop S idx mac)" "still rt (rd_probe S mac h best gua)"
    "still rt (persist S)"
proof -
  have calls: "rt (snd (rd_link_lookup S n k)) = rt k" "rt (snd (rd_get_routes S k)) = rt k"
    "rt (snd (rd_get_neighbours S i k)) = rt k" "rt (snd (rd_socket S k)) = rt k"
    "rt (snd (rd_bind_to_device S n k)) = rt k" "rt (snd (rd_sendto S a k)) = rt k"
    "rt (snd (rd_monotonic S k)) = rt k" "rt (snd (rd_makedirs S k)) = rt k"
    "rt (snd (rd_open_tmp S k)) = rt k" "rt (snd (rd_write_close S c k)) = rt k"
    "rt (snd (rd_os_replace S k)) = rt k" for n k i a c
    using assms by (simp_all add: rd_law_def)
  show "still rt (rd_index S n)" "still rt (best_nexthop S idx mac)" "still rt (rd_probe S mac h best gua)"
    "still rt (persist S)"
    unfolding rd_index_def best_nexthop_def rd_prefix_def rd_cache_def rd_probe_def rd_kick_nud_def
      persist_def Let_def
    by (intro still_intros calls; simp)+
qed

lemma wlp_still:
  "still rt m \<Longrightarrow> (\<And>x t. rt (kern t) = rt (kern s) \<Longrightarrow> rd_slots t = rd_slots s \<Longrightarrow> Q x t) \<Longrightarrow> wlp m Q s"
  by (auto simp: still_def intro: wlp_mono)

lemma rd_install_routes:
  assumes "rd_law S rt"
  shows "wlp (rd_install S n idx ip nh) (\<lambda>_ t. rt (kern t) = (rt (kern s))(ip := Some nh) \<and> rd_slots t = rd_slots s) s"
  using assms
  by (auto simp: rd_install_def wp_simps rd_law_def rd_slots_def split: prod.split sum.split py_exn.split)
    (metis sum.distinct(1) fst_conv snd_conv)+

lemma rd_withdraw_routes:
  assumes "rd_law S rt"
  shows "wlp (rd_withdraw S ip reason) (\<lambda>_ t. rt (kern t) = (rt (kern s))(ip := None) \<and> rd_hosts t = rd_hosts s) s"
  using assms
  by (auto simp: rd_withdraw_def wp_simps rd_law_def split: prod.split sum.split py_exn.split)
    (metis snd_conv)+

section \<open>Routes follow the table\<close>

lemma slots_exactI:
  "(\<And>mac ip nh. slots mac = Some (ip, nh) \<Longrightarrow> routes ip = nh) \<Longrightarrow>
    (\<And>ip. (\<And>mac nh. slots mac \<noteq> Some (ip, nh)) \<Longrightarrow> routes ip = None) \<Longrightarrow> slots_exact slots routes"
  by (simp add: slots_exact_def)

lemma slots_exactD:
  "slots_exact slots routes \<Longrightarrow> slots mac = Some (ip, nh) \<Longrightarrow> routes ip = nh"
  "slots_exact slots routes \<Longrightarrow> (\<And>mac nh. slots mac \<noteq> Some (ip, nh)) \<Longrightarrow> routes ip = None"
  by (simp_all add: slots_exact_def)

lemma slots_exact_put:
  assumes "slots_exact slots routes" and "slots mac = Some (ip, old)"
    and only: "\<And>m nh. slots m = Some (ip, nh) \<Longrightarrow> m = mac"
  shows "slots_exact (slots(mac \<mapsto> (ip, nh))) (routes(ip := nh))"
proof (rule slots_exactI)
  fix m i n
  assume m: "(slots(mac \<mapsto> (ip, nh))) m = Some (i, n)"
  show "(routes(ip := nh)) i = n"
  proof (cases "m = mac")
    case False
    then have slot: "slots m = Some (i, n)" using m by simp
    then have "i \<noteq> ip" using only False by blast
    then show ?thesis using slots_exactD(1) [OF assms(1) slot] by simp
  qed (use m in simp)
next
  fix i
  assume none: "\<And>m n. (slots(mac \<mapsto> (ip, nh))) m \<noteq> Some (i, n)"
  have "i \<noteq> ip" using none [of mac nh] by simp
  moreover have "slots m \<noteq> Some (i, n)" for m n
    using none [of m n] assms(2) \<open>i \<noteq> ip\<close> by (cases "m = mac") auto
  ultimately show "(routes(ip := nh)) i = None"
    using slots_exactD(2) [OF assms(1), of i] by simp
qed

lemma slots_exact_drop:
  assumes "slots_exact slots routes" and "slots mac = Some (ip, old)"
    and only: "\<And>m nh. slots m = Some (ip, nh) \<Longrightarrow> m = mac"
  shows "slots_exact (slots(mac := None)) (routes(ip := None))"
proof (rule slots_exactI)
  fix m i n
  assume m: "(slots(mac := None)) m = Some (i, n)"
  then have "m \<noteq> mac" and slot: "slots m = Some (i, n)" by (simp_all split: if_splits)
  then have "i \<noteq> ip" using only by blast
  then show "(routes(ip := None)) i = n"
    using slots_exactD(1) [OF assms(1) slot] by simp
next
  fix i
  assume none: "\<And>m n. (slots(mac := None)) m \<noteq> Some (i, n)"
  show "(routes(ip := None)) i = None"
  proof (cases "i = ip")
    case False
    have "slots m \<noteq> Some (i, n)" for m n
      using none [of m n] assms(2) False by (cases "m = mac") auto
    then show ?thesis using slots_exactD(2) [OF assms(1), of i] by simp
  qed simp
qed

lemma slots_exact_new:
  assumes "slots_exact slots routes" and none: "\<And>m nh. slots m \<noteq> Some (ip, nh)" and "slots mac = None"
  shows "slots_exact (slots(mac \<mapsto> (ip, None))) routes"
proof (rule slots_exactI)
  fix m i n
  assume "(slots(mac \<mapsto> (ip, None))) m = Some (i, n)"
  then show "routes i = n"
    using slots_exactD(1) [OF assms(1), of m i n] slots_exactD(2) [OF assms(1) none]
    by (cases "m = mac") auto
next
  fix i
  assume absent: "\<And>m n. (slots(mac \<mapsto> (ip, None))) m \<noteq> Some (i, n)"
  have "slots m \<noteq> Some (i, n)" for m n
    using absent [of m n] assms(3) by (cases "m = mac") auto
  then show "routes i = None" using slots_exactD(2) [OF assms(1), of i] by simp
qed

lemma rd_slots_set:
  "map_of (rd_hosts s) mac = Some h \<Longrightarrow>
    rd_slots (s\<lparr>rd_hosts := AList.map_entry mac (\<lambda>h. h\<lparr>h_nh := nh\<rparr>) (rd_hosts s)\<rparr>)
      = (rd_slots s)(mac \<mapsto> (h_ip4 h, nh))"
  by (auto simp: rd_slots_def fun_eq_iff simp del: map_of_eq_Some_iff)

lemma rd_slots_update:
  "rd_slots (s\<lparr>rd_hosts := AList.update mac h (rd_hosts s)\<rparr>) = (rd_slots s)(mac \<mapsto> (h_ip4 h, h_nh h))"
  "rd_slots (s\<lparr>rd_hosts := AList.delete mac (rd_hosts s)\<rparr>) = (rd_slots s)(mac := None)"
  "rd_leases (s\<lparr>rd_hosts := AList.update mac h (rd_hosts s)\<rparr>) = (rd_leases s)(mac \<mapsto> (h_iface h, h_ip4 h))"
  "rd_leases (s\<lparr>rd_hosts := AList.delete mac (rd_hosts s)\<rparr>) = (rd_leases s)(mac := None)"
  by (auto simp: rd_slots_def rd_leases_def fun_eq_iff update_conv' delete_conv')

text \<open>
  Two invariants of routes and table are kept for the same reasons: that they agree, which needs
  that no two hosts lease one address, and that every route is one of the table. \<open>P\<close> is the
  invariant, \<open>apart\<close> what it asks of the leases.
\<close>

definition slots_of :: "lease_table \<Rightarrow> (string \<Rightarrow> (string \<times> in6_addr option) option) \<Rightarrow> bool" where
  "slots_of tbl slots \<longleftrightarrow> (\<forall>m ip nh. slots m = Some (ip, nh) \<longrightarrow> (\<exists>i. tbl m = Some (i, ip)))"

lemma slots_of_leases: "slots_of (rd_leases s) (rd_slots s)"
  unfolding slots_of_def using slots_leases by blast

lemma slots_of_removed: "slots_of ((rd_leases s)(mac \<mapsto> x)) ((rd_slots s)(mac := None))"
  unfolding slots_of_def using slots_leases [of s] by auto

locale route_table =
  fixes P :: "(string \<Rightarrow> (string \<times> in6_addr option) option) \<Rightarrow> (string \<Rightarrow> in6_addr option) \<Rightarrow> bool"
    and apart :: "lease_table \<Rightarrow> bool"
  assumes put: "P slots routes \<Longrightarrow> apart tbl \<Longrightarrow> slots_of tbl slots \<Longrightarrow> slots mac = Some (ip, old) \<Longrightarrow>
      P (slots(mac \<mapsto> (ip, Some a))) (routes(ip := Some a))"
    and drop: "P slots routes \<Longrightarrow> apart tbl \<Longrightarrow> slots_of tbl slots \<Longrightarrow> slots mac = Some (ip, old) \<Longrightarrow>
      P (slots(mac := None)) (routes(ip := None))"
    and new: "P slots routes \<Longrightarrow> apart (tbl(mac \<mapsto> (i, ip))) \<Longrightarrow> slots_of (tbl(mac \<mapsto> (i, ip))) slots \<Longrightarrow>
      slots mac = None \<Longrightarrow> P (slots(mac \<mapsto> (ip, None))) routes"

definition rd_kept :: "((string \<Rightarrow> (string \<times> in6_addr option) option) \<Rightarrow> (string \<Rightarrow> in6_addr option) \<Rightarrow> bool) \<Rightarrow>
    ('k \<Rightarrow> string \<Rightarrow> in6_addr option) \<Rightarrow> 'k rd_state \<Rightarrow> bool" where
  "rd_kept P rt s \<longleftrightarrow> P (rd_slots s) (rt (kern s))"

context route_table
begin

lemma evaluate_keeps:
  assumes law: "rd_law S rt" and exact: "rd_kept P rt s" and ips: "apart (rd_leases s)"
  shows "wlp (evaluate S mac) (\<lambda>_. rd_kept P rt) s"
proof (cases "map_of (rd_hosts s) mac")
  case None
  then show ?thesis using exact by (simp add: evaluate_def wlp_bnd wlp_gets wlp_ret)
next
  case (Some h)
  let ?same = "\<lambda>t. rt (kern t) = rt (kern s) \<and> rd_slots t = rd_slots s"
  have slot: "rd_slots s mac = Some (h_ip4 h, h_nh h)" using Some by (simp add: rd_slots_def)
  have exact_same: "rd_kept P rt t" if "?same t" for t
    using exact that by (simp add: rd_kept_def)
  have put: "wlp (bnd (rd_install S n idx (h_ip4 h) a) (\<lambda>_. set_host mac (\<lambda>h. h\<lparr>h_nh := Some a\<rparr>))) (\<lambda>_. rd_kept P rt) t"
    if t: "?same t" for n idx a and t :: "'a rd_state"
    unfolding wlp_bnd
  proof (rule wlp_mono [OF rd_install_routes [OF law]])
    fix u :: "'a rd_state"
    assume u: "rt (kern u) = (rt (kern t))(h_ip4 h := Some a) \<and> rd_slots u = rd_slots t"
    then have "rd_slots u mac = Some (h_ip4 h, h_nh h)" using t slot by simp
    then obtain h' where h': "map_of (rd_hosts u) mac = Some h'" "h_ip4 h' = h_ip4 h"
      by (auto simp: rd_slots_def simp del: map_of_eq_Some_iff)
    have "P ((rd_slots s)(mac \<mapsto> (h_ip4 h, Some a))) ((rt (kern s))(h_ip4 h := Some a))"
      using exact slot by (intro put [OF _ ips slots_of_leases]) (simp_all add: rd_kept_def)
    then show "wlp (set_host mac (\<lambda>h. h\<lparr>h_nh := Some a\<rparr>)) (\<lambda>_. rd_kept P rt) u"
      using u t h' by (simp add: set_host_def wlp_modify rd_kept_def rd_slots_set)
  qed
  show ?thesis
    unfolding evaluate_def wlp_bnd [of "gets _"] wlp_gets Some option.case wlp_bnd [of "rd_index _ _"]
  proof (rule wlp_still [OF still_rd(1) [OF law]])
    fix r and t :: "'a rd_state"
    assume t: "rt (kern t) = rt (kern s)" "rd_slots t = rd_slots s"
    show "wlp (case r of None \<Rightarrow> ret () | Some idx \<Rightarrow>
        bnd (best_nexthop S idx mac) (\<lambda>(nh, gua).
        bnd (rd_probe S mac h nh gua) (\<lambda>_.
        case nh of None \<Rightarrow> ret ()
        | Some a \<Rightarrow> if h_nh h = Some a then ret ()
            else bnd (rd_install S (h_iface h) idx (h_ip4 h) a) (\<lambda>_. set_host mac (\<lambda>h. h\<lparr>h_nh := Some a\<rparr>)))))
        (\<lambda>_. rd_kept P rt) t"
    proof (cases r)
      case None
      then show ?thesis using exact_same t by (simp add: wlp_ret)
    next
      case (Some idx)
      show ?thesis
        unfolding Some option.case wlp_bnd [of "best_nexthop _ _ _"]
      proof (rule wlp_still [OF still_rd(2) [OF law]], clarify)
        fix nh gua and u :: "'a rd_state"
        assume u: "rt (kern u) = rt (kern t)" "rd_slots u = rd_slots t"
        show "wlp (bnd (rd_probe S mac h nh gua) (\<lambda>_.
            case nh of None \<Rightarrow> ret ()
            | Some a \<Rightarrow> if h_nh h = Some a then ret ()
                else bnd (rd_install S (h_iface h) idx (h_ip4 h) a) (\<lambda>_. set_host mac (\<lambda>h. h\<lparr>h_nh := Some a\<rparr>))))
            (\<lambda>_. rd_kept P rt) u"
          unfolding wlp_bnd [of "rd_probe _ _ _ _ _"]
          by (rule wlp_still [OF still_rd(3) [OF law]])
            (use t u put exact_same in \<open>auto simp: wlp_ret split: option.split\<close>)
      qed
    qed
  qed
qed

text \<open>\<open>apart\<close> is about the leases, which most steps keep.\<close>

lemma reconcile_all_keeps:
  assumes law: "rd_law S rt" and "rd_kept P rt s" and "apart (rd_leases s)"
  shows "wlp (reconcile_all S) (\<lambda>_ t. rd_kept P rt t \<and> rd_leases t = rd_leases s) s"
  unfolding reconcile_all_def wlp_bnd wlp_gets
proof (rule wlp_for_each)
  fix mac and t :: "'a rd_state"
  assume t: "rd_kept P rt t \<and> rd_leases t = rd_leases s"
  have "wlp (evaluate S mac) (\<lambda>_. rd_same t) t"
    by (rule wlp_rd_keeps [OF rd_keeps_evaluate])
  then have "wlp (evaluate S mac) (\<lambda>_ u. rd_kept P rt u \<and> rd_same t u) t"
    using t assms(3) by (intro wlp_conj evaluate_keeps [OF law]) simp_all
  then show "wlp (evaluate S mac) (\<lambda>_ u. rd_kept P rt u \<and> rd_leases u = rd_leases s) t"
    by (rule wlp_mono) (use t in \<open>simp add: rd_same_def\<close>)
qed (use assms in simp)

lemma lease_tail_keeps:
  assumes law: "rd_law S rt" and exact: "rd_kept P rt s" and ips: "apart (rd_leases s)"
  shows "wlp (lease_tail S mac) (\<lambda>_. rd_kept P rt) s"
proof -
  let ?pre = "bnd (kcall (rd_monotonic S)) (\<lambda>now.
     bnd (set_host mac (\<lambda>h. h\<lparr>h_probe := Some (now + GUA_PROBE_DELAY)\<rparr>)) (\<lambda>_. persist S))"
  have "still rt ?pre"
    using law by (intro still_intros still_rd) (simp_all add: rd_law_def)
  then have "wlp ?pre (\<lambda>_ t. rt (kern t) = rt (kern s) \<and> rd_slots t = rd_slots s) s"
    by (rule wlp_still) simp
  moreover have "keeps ?pre"
    by (intro rd_keeps_intros kern_only_leaves rd_keeps_set_host) simp
  then have "wlp ?pre (\<lambda>_. rd_same s) s" by (rule wlp_rd_keeps)
  ultimately have "wlp ?pre (\<lambda>_ t. (rt (kern t) = rt (kern s) \<and> rd_slots t = rd_slots s) \<and> rd_same s t) s"
    by (rule wlp_conj)
  then have "wlp (bnd ?pre (\<lambda>_. evaluate S mac)) (\<lambda>_. rd_kept P rt) s"
    unfolding wlp_bnd [of ?pre]
    by (rule wlp_mono) (use exact ips in \<open>auto simp: rd_kept_def rd_same_def intro: evaluate_keeps [OF law]\<close>)
  then show ?thesis by (simp add: lease_tail_def bnd_assoc)
qed

lemma on_lease_keeps:
  assumes law: "rd_law S rt" and exact: "rd_kept P rt s" and ips: "apart (rd_leases s)"
    and ips': "apart ((rd_leases s)(mac \<mapsto> (iface, ip4)))"
  shows "wlp (on_lease S iface mac ip4) (\<lambda>_. rd_kept P rt) s"
proof -
  let ?new = "\<lparr>h_iface = iface, h_ip4 = ip4, h_nh = None, h_probe = None\<rparr>"
  have insert: "wlp (lease_tail S mac) (\<lambda>_. rd_kept P rt) (t\<lparr>rd_hosts := AList.update mac ?new (rd_hosts t)\<rparr>)"
    if "P ((rd_slots s)(mac := None)) (rt (kern t))" "rd_hosts t = rd_hosts s" for t :: "'a rd_state"
  proof (rule lease_tail_keeps [OF law])
    have same: "rd_slots t = rd_slots s" "rd_leases t = rd_leases s"
      using that(2) by (simp_all add: rd_slots_def rd_leases_def)
    have "P (((rd_slots s)(mac := None))(mac \<mapsto> (ip4, None))) (rt (kern t))"
      using that(1) by (intro new [OF _ ips' slots_of_removed]) simp_all
    then show "rd_kept P rt (t\<lparr>rd_hosts := AList.update mac ?new (rd_hosts t)\<rparr>)"
      by (simp add: rd_kept_def rd_slots_update same)
    show "apart (rd_leases (t\<lparr>rd_hosts := AList.update mac ?new (rd_hosts t)\<rparr>))"
      using ips' by (simp add: rd_slots_update same)
  qed
  show ?thesis
  proof (cases "map_of (rd_hosts s) mac")
    case None
    then have "rd_slots s mac = None" by (simp add: rd_slots_def)
    then have "(rd_slots s)(mac := None) = rd_slots s" by auto
    then show ?thesis
      using None exact insert [of s] unfolding on_lease_def lease_tail_def [symmetric]
      by (simp add: wlp_bnd wlp_gets wlp_ret wlp_modify rd_kept_def)
  next
    case (Some h)
    have slot: "rd_slots s mac = Some (h_ip4 h, h_nh h)" using Some by (simp add: rd_slots_def)
    have "P ((rd_slots s)(mac := None)) ((rt (kern s))(h_ip4 h := None))"
      using exact slot by (intro drop [OF _ ips slots_of_leases]) (simp_all add: rd_kept_def)
    then have changed: "wlp (lease_tail S mac) (\<lambda>_. rd_kept P rt) (t\<lparr>rd_hosts := AList.update mac ?new (rd_hosts t)\<rparr>)"
      if "rt (kern t) = (rt (kern s))(h_ip4 h := None)" "rd_hosts t = rd_hosts s" for t :: "'a rd_state"
      using that by (intro insert) simp_all
    have unchanged: "wlp (lease_tail S mac) (\<lambda>_. rd_kept P rt) s"
      by (rule lease_tail_keeps [OF law exact ips])
    show ?thesis
      unfolding on_lease_def lease_tail_def [symmetric]
      using unchanged changed
      by (auto simp: wlp_bnd wlp_gets wlp_ret wlp_modify Some intro!: wlp_mono [OF rd_withdraw_routes [OF law]])
  qed
qed

lemma on_release_keeps:
  assumes law: "rd_law S rt" and exact: "rd_kept P rt s" and ips: "apart (rd_leases s)"
  shows "wlp (on_release S mac ip4) (\<lambda>_. rd_kept P rt) s"
proof (cases "map_of (rd_hosts s) mac")
  case None
  then have "rd_slots s mac = None" by (simp add: rd_slots_def)
  then have "(rd_slots s)(mac := None) = rd_slots s" by auto
  then show ?thesis
    using None exact
    by (simp add: on_release_def wlp_bnd wlp_gets wlp_ret wlp_modify rd_kept_def rd_slots_update)
next
  case (Some h)
  have slot: "rd_slots s mac = Some (h_ip4 h, h_nh h)" using Some by (simp add: rd_slots_def)
  have "P ((rd_slots s)(mac := None)) ((rt (kern s))(h_ip4 h := None))"
    using exact slot by (intro drop [OF _ ips slots_of_leases]) (simp_all add: rd_kept_def)
  note exact' = this
  have "wlp (persist S) (\<lambda>_. rd_kept P rt) t"
    if "rt (kern t) = (rt (kern s))(h_ip4 h := None)" "rd_slots t = (rd_slots s)(mac := None)" for t
    by (rule wlp_still [OF still_rd(4) [OF law]]) (use that exact' in \<open>simp add: rd_kept_def\<close>)
  moreover have "wlp (rd_withdraw S (h_ip4 h) ''lease released'') (\<lambda>_ t. rt (kern t) = (rt (kern s))(h_ip4 h := None) \<and>
      rd_slots t = (rd_slots s)(mac := None)) (s\<lparr>rd_hosts := AList.delete mac (rd_hosts s)\<rparr>)"
    by (rule wlp_mono [OF rd_withdraw_routes [OF law]])
      (simp add: rd_slots_def delete_conv' fun_eq_iff)
  ultimately show ?thesis
    using Some by (auto simp: on_release_def wlp_bnd wlp_gets wlp_modify elim!: wlp_mono)
qed

lemma handle_line_keeps:
  assumes "rd_law S rt" and "rd_kept P rt s" and "apart (rd_leases s)"
    and ips': "apart (lease_step line (rd_leases s))"
  shows "wlp (handle_line S line) (\<lambda>_. rd_kept P rt) s"
proof (cases "length (py_split line) < 4")
  case True
  then show ?thesis using assms(2) by (simp add: handle_line_def Let_def wlp_ret)
next
  case False
  then obtain action iface mac ip4 rest where p: "py_split line = action # iface # mac # ip4 # rest"
    by (auto simp: not_less numeral_eq_Suc Suc_le_length_iff)
  show ?thesis
  proof (cases "action \<in> {''add'', ''old''}")
    case True
    then have "apart ((rd_leases s)(py_lower mac \<mapsto> (iface, ip4)))"
      using ips' by (auto simp: lease_step_def p)
    from on_lease_keeps [OF assms(1-3) this] True show ?thesis
      by (auto simp: handle_line_def p Let_def)
  next
    case no: False
    then show ?thesis
      using on_release_keeps [OF assms(1-3), of "py_lower mac" ip4] assms(2)
      by (cases "action = ''del''") (simp_all add: handle_line_def p Let_def wlp_ret)
  qed
qed

end

text \<open>The kernel has exactly the routes of the table, while no two hosts lease one address.\<close>

lemma ips_distinct_alone:
  assumes "ips_distinct tbl" and "slots_of tbl slots" and "slots m = Some (ip, nh)" and "slots m' = Some (ip, nh')"
  shows "m = m'"
proof -
  obtain i i' where "tbl m = Some (i, ip)" "tbl m' = Some (i', ip)"
    using assms(2-4) unfolding slots_of_def by meson
  then show ?thesis using assms(1) unfolding ips_distinct_def by blast
qed

interpretation exact_routes: route_table slots_exact ips_distinct
proof
  fix slots routes tbl mac ip old a i
  assume exact: "slots_exact slots routes"
  show "slots_exact (slots(mac \<mapsto> (ip, Some a))) (routes(ip := Some a))"
    if "ips_distinct tbl" "slots_of tbl slots" "slots mac = Some (ip, old)"
    by (rule slots_exact_put [OF exact that(3)]) (rule ips_distinct_alone [OF that(1,2) _ that(3)])
  show "slots_exact (slots(mac := None)) (routes(ip := None))"
    if "ips_distinct tbl" "slots_of tbl slots" "slots mac = Some (ip, old)"
    by (rule slots_exact_drop [OF exact that(3)]) (rule ips_distinct_alone [OF that(1,2) _ that(3)])
  show "slots_exact (slots(mac \<mapsto> (ip, None))) routes"
    if tbl: "ips_distinct (tbl(mac \<mapsto> (i, ip)))" "slots_of (tbl(mac \<mapsto> (i, ip))) slots" and none: "slots mac = None"
  proof (rule slots_exact_new [OF exact _ none])
    fix m nh
    show "slots m \<noteq> Some (ip, nh)"
    proof
      assume m: "slots m = Some (ip, nh)"
      then have "(tbl(mac \<mapsto> (i, ip))) mac = Some (i, ip)" and "\<exists>j. (tbl(mac \<mapsto> (i, ip))) m = Some (j, ip)"
        using tbl(2) by (simp, unfold slots_of_def, blast)
      then have "m = mac" using tbl(1) unfolding ips_distinct_def by blast
      then show False using m none by simp
    qed
  qed
qed

lemma rd_exact_kept: "rd_exact rt = rd_kept slots_exact rt"
  by (simp add: fun_eq_iff rd_exact_def rd_kept_def)

text \<open>Every route of the kernel is to the address of a host, by the next hop the table has for it.\<close>

definition routes_leased :: "(string \<Rightarrow> (string \<times> in6_addr option) option) \<Rightarrow> (string \<Rightarrow> in6_addr option) \<Rightarrow> bool" where
  "routes_leased slots routes \<longleftrightarrow> (\<forall>ip a. routes ip = Some a \<longrightarrow> (\<exists>mac. slots mac = Some (ip, Some a)))"

lemma routes_leased_other:
  assumes "routes_leased slots routes" and "slots mac = Some (ip, old)" and "i \<noteq> ip" and "routes i = Some a"
  shows "\<exists>m. m \<noteq> mac \<and> slots m = Some (i, Some a)"
  using assms unfolding routes_leased_def by (metis option.inject prod.inject)

interpretation leased_routes: route_table routes_leased "\<lambda>_. True"
proof
  fix slots routes mac ip old a
  assume leased: "routes_leased slots routes"
  show "routes_leased (slots(mac \<mapsto> (ip, Some a))) (routes(ip := Some a))" if slot: "slots mac = Some (ip, old)"
    unfolding routes_leased_def
  proof (intro allI impI)
    fix i b
    assume "(routes(ip := Some a)) i = Some b"
    then show "\<exists>m. (slots(mac \<mapsto> (ip, Some a))) m = Some (i, Some b)"
      using routes_leased_other [OF leased slot, of i b] by (cases "i = ip") auto
  qed
  show "routes_leased (slots(mac := None)) (routes(ip := None))" if slot: "slots mac = Some (ip, old)"
    unfolding routes_leased_def
  proof (intro allI impI)
    fix i b
    assume "(routes(ip := None)) i = Some b"
    then show "\<exists>m. (slots(mac := None)) m = Some (i, Some b)"
      using routes_leased_other [OF leased slot, of i b] by (cases "i = ip") auto
  qed
  show "routes_leased (slots(mac \<mapsto> (ip, None))) routes" if "slots mac = None"
    using leased that unfolding routes_leased_def by (metis fun_upd_apply option.distinct(1))
qed

end
