(* ===== verification/Router_Life.thy ===== *)
theory Router_Life
  imports Router_Follow
begin

text \<open>
  The router daemon as a whole: the table's invariant through the loop, that no exception ends
  it when the system raises none but those the code catches, and its life as a
  \<open>safe_daemon_loop\<close>. Further what evaluating one host does over tables that stand still, and
  that no step of the loop leaves a route that is not of the table (\<open>daemon_loop\<close> once more).
\<close>

section \<open>The invariant through the loop\<close>

lemma rd_same_inv: "rd_same s t \<Longrightarrow> rd_inv s \<Longrightarrow> rd_inv t"
  by (simp add: rd_same_def rd_inv_def)

lemma rd_keeps_inv: "keeps m \<Longrightarrow> rd_inv s \<Longrightarrow> wlp m (\<lambda>_. rd_inv) s"
  by (rule wlp_rd_keeps) (auto intro: rd_same_inv)

lemma rd_inv_frame [simp]:
  "rd_inv (s\<lparr>rd_buf := b\<rparr>) = rd_inv s" "rd_inv (s\<lparr>kern := k\<rparr>) = rd_inv s"
  "rd_inv (s\<lparr>rd_running := r\<rparr>) = rd_inv s" "rd_inv (s\<lparr>files := fs\<rparr>) = rd_inv s"
  "rd_inv (s\<lparr>out := es\<rparr>) = rd_inv s"
  by (simp_all add: rd_inv_def rd_leases_def)

lemma feed_inv: "rd_inv s \<Longrightarrow> wlp (feed S c) (\<lambda>_. rd_inv) s"
proof -
  assume "rd_inv s"
  then have "wlp (for_each (full_lines (rd_buf s @ c)) (handle_line S)) (\<lambda>_. rd_inv)
      (s\<lparr>rd_buf := rest_of (rd_buf s @ c)\<rparr>)"
    by (intro wlp_mono [OF handle_all_step]) simp_all
  then show "wlp (feed S c) (\<lambda>_. rd_inv) s"
    by (simp only: wlp_def feed_alt)
qed

lemma rd_ready_inv: "rd_inv s \<Longrightarrow> wlp (rd_ready S fd) (\<lambda>_. rd_inv) s"
proof (cases fd)
  case Fd_fifo
  assume s: "rd_inv s"
  show ?thesis
    unfolding rd_ready_def Fd_fifo rd_fd.case wlp_bnd
    by (rule wlp_kern_only [OF kern_only_calls(3)])
      (use s in \<open>auto simp: wlp_ret intro!: feed_inv split: option.split\<close>)
next
  case Fd_mon
  assume s: "rd_inv s"
  have "keeps (rd_ready S Fd_mon)"
    unfolding rd_ready_def rd_fd.case
    by (intro rd_keeps_intros kern_only_leaves rd_keeps_reconcile_all)
  then show ?thesis using s Fd_mon by (simp add: rd_keeps_inv)
next
  case Fd_pipe
  assume s: "rd_inv s"
  have "keeps (rd_ready S Fd_pipe)"
    unfolding rd_ready_def rd_fd.case by (intro rd_keeps_intros kern_only_leaves)
  then show ?thesis using s Fd_pipe by (simp add: rd_keeps_inv)
qed

lemma rd_iter_inv:
  assumes "rd_inv s"
  shows "wlp (rd_iter S) (\<lambda>_. rd_inv) s"
  unfolding rd_iter_def wlp_bnd wlp_kcall
  using assms
  by (auto simp: wlp_modify wlp_bnd wlp_if split: prod.split
      intro!: rd_keeps_inv [OF rd_keeps_reconcile_all] wlp_for_each [where I = rd_inv] rd_ready_inv)

lemma restore_line_inv:
  assumes "rd_inv s"
  shows "wlp (restore_line S live line) (\<lambda>_. rd_inv) s"
proof -
  have words: "is_token m" "is_token i" "is_token a" if "py_split line = [m, i, a]" for m i a
    using py_split_tokens [of _ line] that by simp_all
  have new: "rd_inv (s\<lparr>kern := k, rd_hosts := AList.update (py_lower m)
      \<lparr>h_iface = i, h_ip4 = a, h_nh = None, h_probe = p\<rparr> (rd_hosts s)\<rparr>)"
    if "py_split line = [m, i, a]" for m i a p k
    using assms words [OF that]
    by (auto simp: rd_inv_def rd_leases_def update_conv' distinct_update simp del: map_of_eq_Some_iff
        split: if_splits)
  show ?thesis
    unfolding restore_line_def Let_def
    using assms new by (auto simp: wlp_bnd wlp_kcall wlp_modify wlp_ret wlp_if split: list.split)
qed

lemma restore_inv:
  assumes "rd_inv s"
  shows "wlp (restore S) (\<lambda>_. rd_inv) s"
proof -
  have rest: "wlp (bnd (gets rd_hosts) (\<lambda>hosts. if hosts \<noteq> [] then emit (Rd_log_restored (length hosts)) else ret ()))
      (\<lambda>_. rd_inv) t" if "rd_inv t" for t :: "'a rd_state"
    using that by (simp add: wp_simps)
  have "wlp (for_each ls (restore_line S live)) (\<lambda>_. rd_inv) s" for ls live
    by (rule wlp_for_each) (use assms restore_line_inv in auto)
  then have "wlp (bnd (for_each ls (restore_line S live)) (\<lambda>_. bnd (gets rd_hosts) (\<lambda>hosts.
      if hosts \<noteq> [] then emit (Rd_log_restored (length hosts)) else ret ()))) (\<lambda>_. rd_inv) s" for ls live
    unfolding wlp_bnd [of "for_each _ _"] by (rule wlp_mono) (rule rest)
  then show ?thesis
    unfolding restore_def live_leases_def wlp_bnd [of "gets _"] wlp_gets
    using assms by (simp add: wlp_ret split: option.split)
qed

lemma kern_only_fifo [frame_intros]: "kern_only (open_fifo S)" "kern_only (rd_stop S)"
  unfolding open_fifo_def rd_stop_def by (intro frame_intros)+

lemma rd_main_inv: "wlp (rd_main S) (\<lambda>_. rd_inv) (rd_init k fs)"
proof -
  have init: "rd_inv (rd_init k' fs)" for k'
    by (simp add: rd_init_def rd_inv_def rd_leases_def)
  have rest: "wlp (bnd (emit Rd_log_starting) (\<lambda>_. reconcile_all S)) (\<lambda>_. rd_inv) t" if "rd_inv t" for t :: "'a rd_state"
    using that by (simp add: wlp_bnd wlp_emit rd_keeps_inv [OF rd_keeps_reconcile_all])
  have "(rd_init k fs)\<lparr>kern := k'\<rparr> = rd_init k' fs" for k' by (simp add: rd_init_def)
  then show ?thesis
    unfolding rd_main_def wlp_bnd [of "open_fifo _"]
    by (intro wlp_kern_only [OF kern_only_fifo(1)])
      (simp add: wlp_bnd [of "restore _"] wlp_mono [OF restore_inv [OF init] rest])
qed

lemma rd_env_inv: "rd_env s t \<Longrightarrow> rd_inv s \<Longrightarrow> rd_inv t"
  by (induction rule: rd_env.induct) (simp_all add: rd_signal_def)

section \<open>No exception ends it\<close>

definition rd_sound :: "('k, 'x) rd_sys_scheme \<Rightarrow> bool" where
  "rd_sound S \<longleftrightarrow> (\<forall>n. total_call (rd_link_lookup S n)) \<and> total_call (rd_get_routes S) \<and>
     (\<forall>i. netlink_call (rd_get_neighbours S i)) \<and> (\<forall>ip idx nh. netlink_call (rd_sys_replace S ip idx nh)) \<and>
     (\<forall>ip idx. netlink_call (rd_sys_neigh_del S ip idx)) \<and> (\<forall>ip. netlink_call (rd_sys_del S ip)) \<and>
     os_call (rd_socket S) \<and> (\<forall>n. os_call (rd_bind_to_device S n)) \<and> (\<forall>a. os_call (rd_sendto S a)) \<and>
     os_call (rd_makedirs S) \<and> os_call (rd_open_tmp S) \<and> os_call (rd_os_replace S) \<and>
     total_call (rd_makedirs_run S) \<and> total_call (rd_mkfifo S) \<and> total_call (rd_open_rdwr S) \<and> os_call (rd_unlink_fifo S) \<and>
     total_call (rd_read_pipe S) \<and> os_call (rd_read_fifo S) \<and> os_call (rd_mon_get S)"

lemma safe_sum [safe_intros]:
  "(\<And>x. safe (f x)) \<Longrightarrow> (\<And>y. safe (g y)) \<Longrightarrow> safe (case r of Inl x \<Rightarrow> f x | Inr y \<Rightarrow> g y)"
  by (cases r) auto

lemma safe_puts [safe_intros]: "safe (set_host mac f)" "safe (put_file n c)"
  by (simp_all add: set_host_def put_file_def safe_modify)

lemma safe_rd:
  assumes "rd_sound S"
  shows "safe (evaluate S mac)" "safe (reconcile_all S)" "safe (handle_line S line)" "safe (restore S)"
proof -
  have calls: "total_call (rd_link_lookup S n)" "total_call (rd_get_routes S)"
    "netlink_call (rd_get_neighbours S i)" "netlink_call (rd_sys_replace S ip i nh)"
    "netlink_call (rd_sys_neigh_del S ip i)" "netlink_call (rd_sys_del S ip)"
    "os_call (rd_socket S)" "os_call (rd_bind_to_device S n)" "os_call (rd_sendto S nh)"
    "os_call (rd_makedirs S)" "os_call (rd_open_tmp S)" "os_call (rd_os_replace S)" for n i ip nh
    using assms by (simp_all add: rd_sound_def)
  show evaluate: "safe (evaluate S mac)" for mac
    unfolding evaluate_def rd_index_def best_nexthop_def rd_prefix_def rd_cache_def rd_probe_def
      rd_kick_nud_def rd_install_def Let_def
    by (intro safe_intros calls)
  then show "safe (reconcile_all S)"
    unfolding reconcile_all_def by (intro safe_intros)
  show "safe (handle_line S line)"
    unfolding handle_line_def on_lease_def on_release_def rd_withdraw_def persist_def Let_def
    by (intro safe_intros calls evaluate)
  have "safe (restore_line S live line)" for live line
    unfolding restore_line_def Let_def
    by (auto intro!: safe_intros split: list.split)
  then show "safe (restore S)"
    unfolding restore_def live_leases_def by (intro safe_intros)
qed

lemma safe_feed: "rd_sound S \<Longrightarrow> safe (feed S c)"
proof -
  assume "rd_sound S"
  then have "safe (for_each ls (handle_line S))" for ls
    by (intro safe_for_each safe_rd)
  then show "safe (feed S c)" by (simp add: safe_def feed_alt)
qed

lemma safe_rd_iter: "rd_sound S \<Longrightarrow> safe (rd_iter S)"
proof -
  assume sound: "rd_sound S"
  have "safe (rd_ready S fd)" for fd
    using sound unfolding rd_ready_def
    by (cases fd) (auto simp: rd_sound_def intro!: safe_intros safe_feed [OF sound] safe_rd(2) [OF sound])
  then show ?thesis
    unfolding rd_iter_def by (intro safe_intros safe_rd(2) sound)
qed

lemma safe_rd_main: "rd_sound S \<Longrightarrow> safe (rd_main S)"
  unfolding rd_main_def open_fifo_def by (intro safe_intros safe_rd) (simp_all add: rd_sound_def)

definition rd_good :: "('k, 'x) rd_sys_scheme \<Rightarrow> 'k rd_state \<Rightarrow> bool" where
  "rd_good S s \<longleftrightarrow> rd_sound S \<and> rd_inv s"

text \<open>The daemon leaves its routes when it ends, so nothing counts as active.\<close>

lemma safe_rd_stop: "rd_sound S \<Longrightarrow> safe (rd_stop S)"
  unfolding rd_stop_def by (intro safe_intros) (simp add: rd_sound_def)

lemma rd_stop_inv: "rd_inv s \<Longrightarrow> wlp (rd_stop S) (\<lambda>_. rd_inv) s"
  by (rule wlp_kern_only [OF kern_only_fifo(2)]) simp

interpretation rd_loop: safe_daemon_loop rd_running rd_env "rd_iter S" "rd_stop S" "rd_good S" "\<lambda>_. False"
  for S :: "('k, 'x) rd_sys_scheme"
  by unfold_locales
    (auto simp: rd_good_def dest: rd_env_inv safeD [OF safe_rd_iter] safeD [OF safe_rd_stop]
      intro: wlp_mono [OF rd_iter_inv] wlp_mono [OF rd_stop_inv])

section \<open>Evaluating a host\<close>

lemma rd_kick_quiet: "rd_quiet S \<Longrightarrow> rd_kick_nud S n a s = Some ((), s)"
proof -
  assume q: "rd_quiet S"
  have os: "\<exists>r. attempt_os f s = Some (r, s)" if "quiet f" "os_call f" for f :: "'a \<Rightarrow> (py_exn + unit) \<times> 'a"
    using that
    by (auto simp: attempt_os_def bnd_def kcall_quiet ret_def os_call_def split: sum.split py_exn.split)
  obtain x y z where "attempt_os (rd_socket S) s = Some (x, s)"
    "attempt_os (rd_bind_to_device S n) s = Some (y, s)" "attempt_os (rd_sendto S a) s = Some (z, s)"
    using q os unfolding rd_quiet_def by metis
  then show ?thesis
    by (simp add: rd_kick_nud_def bnd_def run_simps split: option.split)
qed

lemma map_entry_id: "(\<And>v. f v = v) \<Longrightarrow> AList.map_entry k f al = al"
  by (induction al) (auto simp: prod_eq_iff)

lemma rd_probe_quiet:
  assumes "rd_quiet S"
  shows "\<exists>p. rd_probe S mac h nh gua s = Some ((), s\<lparr>rd_hosts := AList.map_entry mac (\<lambda>h. h\<lparr>h_probe := p h\<rparr>) (rd_hosts s)\<rparr>)"
proof -
  have stay: "s\<lparr>rd_hosts := AList.map_entry mac (\<lambda>h. h\<lparr>h_probe := h_probe h\<rparr>) (rd_hosts s)\<rparr> = s"
    by (simp add: map_entry_id)
  have mono: "kcall (rd_monotonic S) s = Some (fst (rd_monotonic S (kern s)), s)"
    using assms by (intro kcall_quiet) (simp add: rd_quiet_def)
  consider "rd_probe S mac h nh gua s = Some ((), s)"
    | "rd_probe S mac h nh gua s = Some ((), s\<lparr>rd_hosts := AList.map_entry mac (\<lambda>h. h\<lparr>h_probe := None\<rparr>) (rd_hosts s)\<rparr>)"
  proof (cases "gua = None \<or> nh \<noteq> gua \<and> (h_probe h = None \<or> fst (rd_monotonic S (kern s)) < the (h_probe h))")
    case True
    then have "rd_probe S mac h nh gua s = Some ((), s)"
      by (auto simp: rd_probe_def bnd_def run_simps mono split: option.split)
    then show ?thesis by (rule that(1))
  next
    case False
    then have "rd_probe S mac h nh gua s
        = Some ((), s\<lparr>rd_hosts := AList.map_entry mac (\<lambda>h. h\<lparr>h_probe := None\<rparr>) (rd_hosts s)\<rparr>)"
      by (auto simp: rd_probe_def set_host_def bnd_def run_simps mono rd_kick_quiet [OF assms])
    then show ?thesis by (rule that(2))
  qed
  then show ?thesis
  proof cases
    case 1
    then show ?thesis using stay by (intro exI [of _ h_probe]) simp
  next
    case 2
    then show ?thesis by (intro exI [of _ "\<lambda>_. None"]) simp
  qed
qed

text \<open>What evaluating reads of the tables.\<close>

definition rd_best :: "('k, 'x) rd_sys_scheme \<Rightarrow> int \<Rightarrow> string \<Rightarrow> 'k \<Rightarrow> in6_addr option" where
  "rd_best S idx mac k = rd_choose (rd_gua S idx mac k) (rd_neighbors S idx mac k)"

lemma evaluate_quiet:
  assumes q: "rd_quiet S" and h: "map_of (rd_hosts s) mac = Some h"
    and idx: "fst (rd_link_lookup S (h_iface h) (kern s)) = Inr (idx # ls)"
  shows "\<exists>p. evaluate S mac s = (case rd_best S idx mac (kern s) of
      None \<Rightarrow> ret ()
    | Some a \<Rightarrow> if h_nh h = Some a then ret ()
        else bnd (rd_install S (h_iface h) idx (h_ip4 h) a) (\<lambda>_. set_host mac (\<lambda>h. h\<lparr>h_nh := Some a\<rparr>)))
    (s\<lparr>rd_hosts := AList.map_entry mac (\<lambda>h. h\<lparr>h_probe := p h\<rparr>) (rd_hosts s)\<rparr>)"
proof -
  have "must (rd_link_lookup S (h_iface h)) s = Some (idx # ls, s)"
    using q idx by (intro must_quiet) (simp_all add: rd_quiet_def)
  then have index: "rd_index S (h_iface h) s = Some (Some idx, s)"
    by (simp add: rd_index_def bnd_def run_simps)
  obtain p where "rd_probe S mac h (rd_best S idx mac (kern s)) (rd_gua S idx mac (kern s)) s
      = Some ((), s\<lparr>rd_hosts := AList.map_entry mac (\<lambda>h. h\<lparr>h_probe := p h\<rparr>) (rd_hosts s)\<rparr>)"
    using rd_probe_quiet [OF q] by blast
  then have "evaluate S mac s = (case rd_best S idx mac (kern s) of
      None \<Rightarrow> ret ()
    | Some a \<Rightarrow> if h_nh h = Some a then ret ()
        else bnd (rd_install S (h_iface h) idx (h_ip4 h) a) (\<lambda>_. set_host mac (\<lambda>h. h\<lparr>h_nh := Some a\<rparr>)))
    (s\<lparr>rd_hosts := AList.map_entry mac (\<lambda>h. h\<lparr>h_probe := p h\<rparr>) (rd_hosts s)\<rparr>)"
    unfolding evaluate_def
    by (simp add: bnd_def gets_def h index best_nexthop_quiet [OF q] flip: rd_best_def
        cong: option.case_cong)
  then show ?thesis by blast
qed

section \<open>Routes through the loop\<close>

text \<open>
  Waiting, reading and the files of the FIFO leave the daemon's routes alone, and so does what
  else happens on the router.
\<close>

definition rd_io_law :: "('k, 'x) rd_sys_scheme \<Rightarrow> ('k \<Rightarrow> string \<Rightarrow> in6_addr option) \<Rightarrow> bool" where
  "rd_io_law S rt \<longleftrightarrow> (\<forall>k. rt (snd (rd_poll S k)) = rt k \<and> rt (snd (rd_read_pipe S k)) = rt k \<and>
     rt (snd (rd_read_fifo S k)) = rt k \<and> rt (snd (rd_mon_get S k)) = rt k \<and>
     rt (snd (rd_makedirs_run S k)) = rt k \<and> rt (snd (rd_mkfifo S k)) = rt k \<and>
     rt (snd (rd_open_rdwr S k)) = rt k \<and> rt (snd (rd_unlink_fifo S k)) = rt k)"

definition rd_env_else :: "('k \<Rightarrow> string \<Rightarrow> in6_addr option) \<Rightarrow> 'k rd_state \<Rightarrow> 'k rd_state \<Rightarrow> bool" where
  "rd_env_else rt s t \<longleftrightarrow> rd_env s t \<and> rt (kern t) = rt (kern s)"

abbreviation rd_leased :: "('k \<Rightarrow> string \<Rightarrow> in6_addr option) \<Rightarrow> 'k rd_state \<Rightarrow> bool" where
  "rd_leased \<equiv> rd_kept routes_leased"

lemma rd_leased_same: "rt (kern t) = rt (kern s) \<Longrightarrow> rd_slots t = rd_slots s \<Longrightarrow> rd_leased rt s \<Longrightarrow> rd_leased rt t"
  by (simp add: rd_kept_def)

lemma rd_leased_frame [simp]:
  "rd_leased rt (s\<lparr>rd_buf := b\<rparr>) = rd_leased rt s" "rd_leased rt (s\<lparr>rd_running := r\<rparr>) = rd_leased rt s"
  "rd_leased rt (s\<lparr>files := fs\<rparr>) = rd_leased rt s" "rd_leased rt (s\<lparr>out := es\<rparr>) = rd_leased rt s"
  by (simp_all add: rd_kept_def rd_slots_def)

lemma rd_leased_kern: "rt k = rt (kern s) \<Longrightarrow> rd_leased rt (s\<lparr>kern := k\<rparr>) = rd_leased rt s"
  by (simp add: rd_kept_def rd_slots_def)

lemma rd_still_leased: "still rt m \<Longrightarrow> rd_leased rt s \<Longrightarrow> wlp m (\<lambda>_. rd_leased rt) s"
  by (rule wlp_still) (auto intro: rd_leased_same)

lemma feed_leased:
  assumes "rd_law S rt" and "rd_leased rt s"
  shows "wlp (feed S c) (\<lambda>_. rd_leased rt) s"
proof -
  have "wlp (for_each (full_lines (rd_buf s @ c)) (handle_line S)) (\<lambda>_. rd_leased rt)
      (s\<lparr>rd_buf := rest_of (rd_buf s @ c)\<rparr>)"
    by (rule wlp_for_each) (use assms leased_routes.handle_line_keeps [OF assms(1) _ TrueI TrueI] in auto)
  then show ?thesis by (simp only: wlp_def feed_alt)
qed

lemma rd_sweep_leased:
  assumes "rd_law S rt" and "rd_leased rt s"
  shows "wlp (reconcile_all S) (\<lambda>_. rd_leased rt) s"
  by (rule wlp_mono [OF leased_routes.reconcile_all_keeps [OF assms TrueI]]) blast

lemma rd_ready_leased:
  assumes law: "rd_law S rt" "rd_io_law S rt" and s: "rd_leased rt s"
  shows "wlp (rd_ready S fd) (\<lambda>_. rd_leased rt) s"
proof -
  have io: "still rt (must (rd_read_pipe S))" "still rt (attempt_os (rd_read_fifo S))" "still rt (attempt_os (rd_mon_get S))"
    using law(2) by (intro still_calls, simp add: rd_io_law_def)+
  show ?thesis
  proof (cases fd)
    case Fd_pipe
    then show ?thesis using rd_still_leased [OF io(1) s] by (simp add: rd_ready_def)
  next
    case Fd_fifo
    then show ?thesis
      unfolding rd_ready_def Fd_fifo rd_fd.case wlp_bnd
      by (intro wlp_mono [OF rd_still_leased [OF io(2) s]])
        (auto simp: wlp_ret intro: feed_leased [OF law(1)] split: option.split)
  next
    case Fd_mon
    then show ?thesis
      unfolding rd_ready_def Fd_mon rd_fd.case wlp_bnd
      by (intro wlp_mono [OF rd_still_leased [OF io(3) s]])
        (auto simp: wlp_gets wlp_ret wlp_if intro: rd_sweep_leased [OF law(1)])
  qed
qed

lemma rd_iter_leased:
  assumes law: "rd_law S rt" "rd_io_law S rt" and s: "rd_leased rt s"
  shows "wlp (rd_iter S) (\<lambda>_. rd_leased rt) s"
proof -
  have poll: "still rt (kcall (rd_poll S))"
    using law(2) by (intro still_kcall) (simp add: rd_io_law_def)
  have sweep: "wlp (reconcile_all S) (\<lambda>_. rd_leased rt) t" if "rd_leased rt t" for t
    by (rule rd_sweep_leased [OF law(1) that])
  have ready: "wlp (for_each events (rd_ready S)) (\<lambda>_. rd_leased rt) t" if "rd_leased rt t" for events t
    by (rule wlp_for_each) (use that rd_ready_leased [OF law] in auto)
  show ?thesis
    unfolding rd_iter_def wlp_bnd [of "kcall _"]
    by (rule wlp_mono [OF rd_still_leased [OF poll s]])
      (auto simp: wlp_bnd [of "modify _"] wlp_modify sweep ready split: prod.split)
qed

text \<open>Starting on a router that has none of its routes.\<close>

lemma restore_routes:
  assumes law: "rd_law S rt"
  shows "wlp (restore S) (\<lambda>_ t. rt (kern t) = rt (kern s)) s"
proof -
  have mono: "rt (snd (rd_monotonic S k)) = rt k" for k using law by (simp add: rd_law_def)
  have line: "wlp (restore_line S live l) (\<lambda>_ t. rt (kern t) = rt (kern s)) u"
    if "rt (kern u) = rt (kern s)" for live l and u :: "'a rd_state"
    unfolding restore_line_def Let_def
    using that mono by (auto simp: wlp_bnd wlp_kcall wlp_modify wlp_ret wlp_if split: list.split)
  have "wlp (for_each ls (restore_line S live)) (\<lambda>_ t. rt (kern t) = rt (kern s)) s" for ls live
    by (rule wlp_for_each) (use line in auto)
  then have "wlp (bnd (for_each ls (restore_line S live)) (\<lambda>_. bnd (gets rd_hosts) (\<lambda>hosts.
      if hosts \<noteq> [] then emit (Rd_log_restored (length hosts)) else ret ()))) (\<lambda>_ t. rt (kern t) = rt (kern s)) s" for ls live
    unfolding wlp_bnd [of "for_each _ _"] by (rule wlp_mono) (simp add: wp_simps)
  then show ?thesis
    unfolding restore_def live_leases_def wlp_bnd [of "gets _"] wlp_gets
    by (simp add: wlp_ret split: option.split)
qed

lemma rd_main_leased:
  assumes law: "rd_law S rt" "rd_io_law S rt" and none: "rt k = (\<lambda>_. None)"
  shows "wlp (rd_main S) (\<lambda>_. rd_leased rt) (rd_init k fs)"
proof -
  have "still rt (open_fifo S)"
    using law(2) unfolding open_fifo_def by (intro still_intros) (simp_all add: rd_io_law_def)
  then have fifo: "wlp (open_fifo S) (\<lambda>_ t. rt (kern t) = (\<lambda>_. None)) (rd_init k fs)"
    by (rule wlp_still) (simp add: rd_init_def none)
  have start: "rd_leased rt t" if "rt (kern t) = (\<lambda>_. None)" for t :: "'a rd_state"
    using that by (simp add: rd_kept_def routes_leased_def)
  have rest: "wlp (bnd (emit Rd_log_starting) (\<lambda>_. reconcile_all S)) (\<lambda>_. rd_leased rt) t"
    if "rt (kern t) = (\<lambda>_. None)" for t :: "'a rd_state"
    using start [OF that] by (simp add: wlp_bnd wlp_emit rd_sweep_leased [OF law(1)])
  have "wlp (bnd (restore S) (\<lambda>_. bnd (emit Rd_log_starting) (\<lambda>_. reconcile_all S))) (\<lambda>_. rd_leased rt) t"
    if "rt (kern t) = (\<lambda>_. None)" for t :: "'a rd_state"
    unfolding wlp_bnd [of "restore S"]
    by (rule wlp_mono [OF restore_routes [OF law(1)]]) (simp add: that rest)
  then show ?thesis
    unfolding rd_main_def wlp_bnd [of "open_fifo _"] by (rule wlp_mono [OF fifo])
qed

definition rd_routed :: "('k, 'x) rd_sys_scheme \<Rightarrow> ('k \<Rightarrow> string \<Rightarrow> in6_addr option) \<Rightarrow> 'k rd_state \<Rightarrow> bool" where
  "rd_routed S rt s \<longleftrightarrow> rd_law S rt \<and> rd_io_law S rt \<and> rd_leased rt s \<and> rd_inv s"

lemma rd_env_leased: "rd_env_else rt s t \<Longrightarrow> rd_leased rt s \<Longrightarrow> rd_leased rt t"
  unfolding rd_env_else_def
  by (auto elim!: rd_env.cases simp: rd_leased_kern rd_signal_def)

lemma rd_stop_leased:
  assumes "rd_io_law S rt" and "rd_leased rt s"
  shows "wlp (rd_stop S) (\<lambda>_. rd_leased rt) s"
proof -
  have "still rt (rd_stop S)"
    using assms(1) unfolding rd_stop_def by (intro still_intros) (simp add: rd_io_law_def)
  then show ?thesis using assms(2) by (rule rd_still_leased)
qed

lemma rd_env_else_inv: "rd_env_else rt s t \<Longrightarrow> rd_inv s \<Longrightarrow> rd_inv t"
  by (auto simp: rd_env_else_def intro: rd_env_inv)

interpretation rd_routes_loop: daemon_loop rd_running "rd_env_else rt" "rd_iter S" "rd_stop S" "rd_routed S rt" "\<lambda>_. False"
  for S :: "('k, 'x) rd_sys_scheme" and rt
  by unfold_locales
    (auto simp: rd_routed_def dest: rd_env_leased rd_env_else_inv
      intro!: wlp_mono [OF wlp_conj [OF rd_iter_leased rd_iter_inv]] wlp_mono [OF wlp_conj [OF rd_stop_leased rd_stop_inv]])

section \<open>A sweep\<close>

text \<open>
  Requests about IPv4 routes and neighbors do not touch what the choice of a next hop reads:
  links, IPv6 routes and IPv6 neighbors.
\<close>

definition rd_same_tables :: "('k, 'x) rd_sys_scheme \<Rightarrow> 'k \<Rightarrow> 'k \<Rightarrow> bool" where
  "rd_same_tables S k k' \<longleftrightarrow> (\<forall>n. fst (rd_link_lookup S n k') = fst (rd_link_lookup S n k)) \<and>
     fst (rd_get_routes S k') = fst (rd_get_routes S k) \<and>
     (\<forall>i. fst (rd_get_neighbours S i k') = fst (rd_get_neighbours S i k))"

definition rd_tables_law :: "('k, 'x) rd_sys_scheme \<Rightarrow> bool" where
  "rd_tables_law S \<longleftrightarrow> (\<forall>ip idx. netlink_call (rd_sys_neigh_del S ip idx) \<and>
     (\<forall>k. rd_same_tables S k (snd (rd_sys_neigh_del S ip idx k))) \<and>
     (\<forall>nh k. rd_same_tables S k (snd (rd_sys_replace S ip idx nh k))))"

lemma rd_same_tables_refl: "rd_same_tables S k k"
  by (simp add: rd_same_tables_def)

lemma rd_same_tables_trans: "rd_same_tables S k l \<Longrightarrow> rd_same_tables S l m \<Longrightarrow> rd_same_tables S k m"
  by (simp add: rd_same_tables_def)

lemma rd_same_tables_best: "rd_same_tables S k k' \<Longrightarrow> rd_best S idx mac k' = rd_best S idx mac k"
  by (simp add: rd_same_tables_def rd_best_def rd_gua_def rd_neighbors_def)

lemma rd_install_done:
  assumes law: "rd_law S rt" "rd_tables_law S"
  shows "wp (rd_install S n idx ip a) (\<lambda>_ t. rt (kern t) = (rt (kern s))(ip := Some a) \<and>
    rd_hosts t = rd_hosts s \<and> rd_same_tables S (kern s) (kern t)) s"
proof -
  obtain k where k: "rd_sys_replace S ip idx a (kern s) = (Inr (), k)" "rt k = (rt (kern s))(ip := Some a)"
    "rd_same_tables S (kern s) k"
    using law unfolding rd_law_def rd_tables_law_def by (metis prod.collapse)
  obtain r k' where k': "rd_sys_neigh_del S ip idx k = (r, k')" "r \<noteq> Inl Os_error" "rt k' = rt k"
    "rd_same_tables S k k'"
    using law unfolding rd_law_def rd_tables_law_def netlink_call_def by (metis prod.collapse)
  show ?thesis
    using k k' rd_same_tables_trans [OF k(3) k'(4)]
    by (cases r) (auto simp: rd_install_def wp_simps split: py_exn.split)
qed

text \<open>One evaluation touches the host's own next hop and route only, and brings both on the best.\<close>

lemma evaluate_moves:
  assumes q: "rd_quiet S" and law: "rd_law S rt" "rd_tables_law S" and h: "map_of (rd_hosts s) mac = Some h"
  shows "wp (evaluate S mac) (\<lambda>_ t. rd_leases t = rd_leases s \<and> rd_same_tables S (kern s) (kern t) \<and>
    (\<forall>ip. ip \<noteq> h_ip4 h \<longrightarrow> rt (kern t) ip = rt (kern s) ip) \<and> (\<forall>m. m \<noteq> mac \<longrightarrow> rd_slots t m = rd_slots s m) \<and>
    (\<forall>idx ls a. fst (rd_link_lookup S (h_iface h) (kern s)) = Inr (idx # ls) \<and> rd_best S idx mac (kern s) = Some a \<and>
      (h_nh h \<noteq> Some a \<or> rt (kern s) (h_ip4 h) = Some a) \<longrightarrow> rt (kern t) (h_ip4 h) = Some a)) s"
    (is "wp _ (\<lambda>_. ?Q) s")
proof -
  have leases: "rd_leases (t\<lparr>rd_hosts := AList.map_entry mac (\<lambda>h. h\<lparr>h_probe := p h\<rparr>) (rd_hosts t)\<rparr>) = rd_leases t"
    "rd_leases (t\<lparr>rd_hosts := AList.map_entry mac (\<lambda>h. h\<lparr>h_nh := nh\<rparr>) (rd_hosts t)\<rparr>) = rd_leases t"
    for p nh and t :: "'a rd_state"
    by (auto simp: rd_leases_def fun_eq_iff split: option.split)
  have slots: "rd_slots (t\<lparr>rd_hosts := AList.map_entry mac (\<lambda>h. h\<lparr>h_probe := p h\<rparr>) (rd_hosts t)\<rparr>) = rd_slots t"
    for p and t :: "'a rd_state"
    by (auto simp: rd_slots_def fun_eq_iff split: option.split)
  have slots_nh: "rd_slots (t\<lparr>rd_hosts := AList.map_entry mac (\<lambda>h. h\<lparr>h_nh := nh\<rparr>) (rd_hosts t)\<rparr>) m = rd_slots t m"
    if "m \<noteq> mac" for nh m and t :: "'a rd_state"
    using that by (auto simp: rd_slots_def split: option.split)
  show ?thesis
  proof (cases "\<exists>idx ls. fst (rd_link_lookup S (h_iface h) (kern s)) = Inr (idx # ls)")
    case False
    obtain ls where "fst (rd_link_lookup S (h_iface h) (kern s)) = Inr ls"
      using q total_callD by (fastforce simp: rd_quiet_def)
    then have "must (rd_link_lookup S (h_iface h)) s = Some ([], s)"
      using False q by (cases ls) (auto simp: rd_quiet_def intro: must_quiet)
    then have "evaluate S mac s = Some ((), s)"
      by (simp add: evaluate_def rd_index_def bnd_def run_simps h)
    then show ?thesis
      using False by (simp add: wp_def rd_same_tables_refl)
  next
    case True
    then obtain idx ls where idx: "fst (rd_link_lookup S (h_iface h) (kern s)) = Inr (idx # ls)" by blast
    obtain p where run: "evaluate S mac s = (case rd_best S idx mac (kern s) of
        None \<Rightarrow> ret ()
      | Some a \<Rightarrow> if h_nh h = Some a then ret ()
          else bnd (rd_install S (h_iface h) idx (h_ip4 h) a) (\<lambda>_. set_host mac (\<lambda>h. h\<lparr>h_nh := Some a\<rparr>)))
      (s\<lparr>rd_hosts := AList.map_entry mac (\<lambda>h. h\<lparr>h_probe := p h\<rparr>) (rd_hosts s)\<rparr>)"
      using evaluate_quiet [OF q h idx] by blast
    let ?s = "s\<lparr>rd_hosts := AList.map_entry mac (\<lambda>h. h\<lparr>h_probe := p h\<rparr>) (rd_hosts s)\<rparr>"
    have stay: "?Q ?s" if "rd_best S idx mac (kern s) = None \<or> rd_best S idx mac (kern s) = h_nh h"
      using that idx by (auto simp: leases slots rd_same_tables_refl)
    have "wp (bnd (rd_install S (h_iface h) idx (h_ip4 h) a) (\<lambda>_. set_host mac (\<lambda>h. h\<lparr>h_nh := Some a\<rparr>))) (\<lambda>_. ?Q) ?s"
      if "rd_best S idx mac (kern s) = Some a" for a
      unfolding wp_bnd
    proof (rule wp_mono [OF rd_install_done [OF law]])
      fix x and t :: "'a rd_state"
      assume t: "rt (kern t) = (rt (kern ?s))(h_ip4 h := Some a) \<and> rd_hosts t = rd_hosts ?s \<and>
        rd_same_tables S (kern ?s) (kern t)"
      then have "rd_leases t = rd_leases s" "rd_slots t = rd_slots s"
        using leases(1) [of p s] slots [of p s] by (simp_all add: rd_leases_def rd_slots_def)
      moreover have "rt (kern t) = (rt (kern s))(h_ip4 h := Some a)" "rd_same_tables S (kern s) (kern t)"
        using t by simp_all
      ultimately show "wp (set_host mac (\<lambda>h. h\<lparr>h_nh := Some a\<rparr>)) (\<lambda>_. ?Q) t"
        using idx that by (auto simp: set_host_def wp_modify leases slots_nh)
    qed
    note moved = this
    have "wp (case rd_best S idx mac (kern s) of
        None \<Rightarrow> ret ()
      | Some a \<Rightarrow> if h_nh h = Some a then ret ()
          else bnd (rd_install S (h_iface h) idx (h_ip4 h) a) (\<lambda>_. set_host mac (\<lambda>h. h\<lparr>h_nh := Some a\<rparr>)))
      (\<lambda>_. ?Q) ?s"
    proof (cases "rd_best S idx mac (kern s)")
      case None
      have "?Q ?s" by (rule stay) (simp add: None)
      then show ?thesis unfolding None option.case wp_ret .
    next
      case (Some a)
      show ?thesis
      proof (cases "h_nh h = Some a")
        case True
        have "?Q ?s" by (rule stay) (simp add: Some True)
        then show ?thesis unfolding Some option.case if_P [OF True] wp_ret .
      next
        case False
        show ?thesis unfolding Some option.case if_not_P [OF False] by (rule moved [OF Some])
      qed
    qed
    then show ?thesis unfolding wp_def [of "evaluate S mac"] run wp_def .
  qed
qed

text \<open>
  Doing something for each element of a list without repetition, when an element's step looks at
  and changes only that element's own part \<open>loc x\<close> of the state.
\<close>

lemma wp_for_each_local:
  assumes "distinct xs" and "I s"
    and step: "\<And>x s. x \<in> set xs \<Longrightarrow> I s \<Longrightarrow> wp (f x) (\<lambda>_ t. I t \<and> P x (loc x s) (loc x t) \<and>
      (\<forall>y. y \<noteq> x \<longrightarrow> loc y t = loc y s)) s"
  shows "wp (for_each xs f) (\<lambda>_ t. I t \<and> (\<forall>x \<in> set xs. P x (loc x s) (loc x t)) \<and>
    (\<forall>y. y \<notin> set xs \<longrightarrow> loc y t = loc y s)) s"
  using assms
proof (induction xs arbitrary: s)
  case Nil
  then show ?case by (simp add: wp_ret)
next
  case (Cons x xs)
  show ?case
    unfolding for_each.simps wp_bnd
  proof (rule wp_mono [OF Cons.prems(3)])
    fix u t
    assume t: "I t \<and> P x (loc x s) (loc x t) \<and> (\<forall>y. y \<noteq> x \<longrightarrow> loc y t = loc y s)"
    have "wp (for_each xs f) (\<lambda>_ r. I r \<and> (\<forall>x \<in> set xs. P x (loc x t) (loc x r)) \<and>
        (\<forall>y. y \<notin> set xs \<longrightarrow> loc y r = loc y t)) t"
      using Cons.prems t by (intro Cons.IH) auto
    then show "wp (for_each xs f) (\<lambda>_ r. I r \<and> (\<forall>z \<in> set (x # xs). P z (loc z s) (loc z r)) \<and>
        (\<forall>y. y \<notin> set (x # xs) \<longrightarrow> loc y r = loc y s)) t"
      by (rule wp_mono) (use Cons.prems(1) t in \<open>auto; metis\<close>)
  qed (use Cons.prems in auto)
qed

text \<open>A host's slot in the table, and the route to the address that \<open>slots\<close> has for it.\<close>

definition host_part :: "(string \<Rightarrow> (string \<times> in6_addr option) option) \<Rightarrow> ('k \<Rightarrow> string \<Rightarrow> in6_addr option) \<Rightarrow>
    string \<Rightarrow> 'k rd_state \<Rightarrow> (string \<times> in6_addr option) option \<times> in6_addr option" where
  "host_part slots rt mac s = (rd_slots s mac,
     case slots mac of None \<Rightarrow> None | Some (ip, nh) \<Rightarrow> rt (kern s) ip)"

text \<open>
  A sweep over all hosts, while no two of them lease one address: the route of each is on its
  best next hop afterwards, if the table did not have that next hop already.
\<close>

lemma sweep_moves:
  assumes q: "rd_quiet S" and law: "rd_law S rt" "rd_tables_law S" and inv: "rd_inv s"
    and ips: "ips_distinct (rd_leases s)"
  shows "wp (reconcile_all S) (\<lambda>_ t. \<forall>mac h idx ls a. map_of (rd_hosts s) mac = Some h \<and>
    fst (rd_link_lookup S (h_iface h) (kern s)) = Inr (idx # ls) \<and> rd_best S idx mac (kern s) = Some a \<and>
    (h_nh h \<noteq> Some a \<or> rt (kern s) (h_ip4 h) = Some a) \<longrightarrow> rt (kern t) (h_ip4 h) = Some a) s"
proof -
  let ?loc = "host_part (rd_slots s) rt" and ?macs = "map fst (rd_hosts s)"
  let ?I = "\<lambda>t. rd_leases t = rd_leases s \<and> rd_same_tables S (kern s) (kern t)"
  let ?P = "\<lambda>mac (x :: (string \<times> in6_addr option) option \<times> in6_addr option) (y :: (string \<times> in6_addr option) option \<times> in6_addr option).
    \<forall>iface ip nh idx ls a. rd_leases s mac = Some (iface, ip) \<and> fst x = Some (ip, nh) \<and>
      fst (rd_link_lookup S iface (kern s)) = Inr (idx # ls) \<and> rd_best S idx mac (kern s) = Some a \<and>
      (nh \<noteq> Some a \<or> snd x = Some a) \<longrightarrow> snd y = Some a"
  have "wp (for_each ?macs (evaluate S)) (\<lambda>_ t. ?I t \<and> (\<forall>mac \<in> set ?macs. ?P mac (?loc mac s) (?loc mac t)) \<and>
      (\<forall>y. y \<notin> set ?macs \<longrightarrow> ?loc y t = ?loc y s)) s"
  proof (rule wp_for_each_local)
    show "distinct ?macs" using inv by (simp add: rd_inv_def)
    show "?I s" by (simp add: rd_same_tables_refl)
    fix mac and t :: "'a rd_state"
    assume mac: "mac \<in> set ?macs" and t: "?I t"
    obtain h0 where h0: "map_of (rd_hosts s) mac = Some h0"
      using mac by (metis map_of_eq_None_iff not_Some_eq set_map)
    then have lease: "rd_leases t mac = Some (h_iface h0, h_ip4 h0)"
      using t by (simp add: rd_leases_def)
    then obtain h where h: "map_of (rd_hosts t) mac = Some h" "h_iface h = h_iface h0" "h_ip4 h = h_ip4 h0"
      by (auto simp: rd_leases_def simp del: map_of_eq_Some_iff)
    have slot0: "rd_slots s mac = Some (h_ip4 h0, h_nh h0)" using h0 by (simp add: rd_slots_def)
    have apart: "ip \<noteq> h_ip4 h0" if "rd_slots s y = Some (ip, nh)" "y \<noteq> mac" for y ip nh
      using ips_distinct_alone [OF ips slots_of_leases that(1)] slot0 that(2) by blast
    have tabs: "fst (rd_link_lookup S n (kern t)) = fst (rd_link_lookup S n (kern s))"
      "rd_best S idx mac (kern t) = rd_best S idx mac (kern s)" for n idx
      using t rd_same_tables_best [of S "kern s" "kern t"] by (simp add: rd_same_tables_def, blast)
    show "wp (evaluate S mac) (\<lambda>_ u. ?I u \<and> ?P mac (?loc mac t) (?loc mac u) \<and>
        (\<forall>y. y \<noteq> mac \<longrightarrow> ?loc y u = ?loc y t)) t"
    proof (rule wp_mono [OF evaluate_moves [OF q law h(1)]])
      fix x and u :: "'a rd_state"
      assume u: "rd_leases u = rd_leases t \<and> rd_same_tables S (kern t) (kern u) \<and>
        (\<forall>ip. ip \<noteq> h_ip4 h \<longrightarrow> rt (kern u) ip = rt (kern t) ip) \<and> (\<forall>m. m \<noteq> mac \<longrightarrow> rd_slots u m = rd_slots t m) \<and>
        (\<forall>idx ls a. fst (rd_link_lookup S (h_iface h) (kern t)) = Inr (idx # ls) \<and> rd_best S idx mac (kern t) = Some a \<and>
          (h_nh h \<noteq> Some a \<or> rt (kern t) (h_ip4 h) = Some a) \<longrightarrow> rt (kern u) (h_ip4 h) = Some a)"
      have "?I u" using t u by (auto intro: rd_same_tables_trans)
      moreover have "?P mac (?loc mac t) (?loc mac u)"
        using u h h0 t by (auto simp: host_part_def slot0 rd_slots_def rd_leases_def tabs simp del: map_of_eq_Some_iff)
      moreover have "?loc y u = ?loc y t" if "y \<noteq> mac" for y
        using u that apart [of y] h(3) by (auto simp: host_part_def split: option.split)
      ultimately show "?I u \<and> ?P mac (?loc mac t) (?loc mac u) \<and> (\<forall>y. y \<noteq> mac \<longrightarrow> ?loc y u = ?loc y t)"
        by blast
    qed
  qed
  then show ?thesis
    unfolding reconcile_all_def wp_bnd wp_gets
  proof (rule wp_mono, intro allI impI)
    fix t mac h idx ls a
    assume t: "?I t \<and> (\<forall>mac \<in> set ?macs. ?P mac (?loc mac s) (?loc mac t)) \<and>
        (\<forall>y. y \<notin> set ?macs \<longrightarrow> ?loc y t = ?loc y s)"
      and h: "map_of (rd_hosts s) mac = Some h \<and>
        fst (rd_link_lookup S (h_iface h) (kern s)) = Inr (idx # ls) \<and> rd_best S idx mac (kern s) = Some a \<and>
        (h_nh h \<noteq> Some a \<or> rt (kern s) (h_ip4 h) = Some a)"
    have "mac \<in> set ?macs" using h by (metis map_of_eq_None_iff not_None_eq set_map)
    then have "?P mac (?loc mac s) (?loc mac t)" using t by blast
    moreover have "rd_leases s mac = Some (h_iface h, h_ip4 h)" "rd_slots s mac = Some (h_ip4 h, h_nh h)"
      using h by (simp_all add: rd_leases_def rd_slots_def)
    ultimately show "rt (kern t) (h_ip4 h) = Some a"
      using h unfolding host_part_def by (simp del: map_of_eq_Some_iff)
  qed
qed

end
