(* ===== verification/Router_Notify.thy ===== *)
theory Router_Notify
  imports Router_Table
begin

text \<open>
  The script dnsmasq runs on every lease event (\<^verbatim>\<open>router/debian/usr/local/sbin/v4gw-lease-notify.sh\<close>)
  and the daemon that reads what it writes: the table of leases follows dnsmasq's events.
\<close>

section \<open>The script\<close>

text \<open>\<open>"${n:-}"\<close>\<close>

definition sh_arg :: "string list \<Rightarrow> nat \<Rightarrow> string" where
  "sh_arg args n = (if 1 \<le> n \<and> n \<le> length args then args ! (n - 1) else [])"

definition sh_var :: "string option \<Rightarrow> string" where
  "sh_var v = (case v of None \<Rightarrow> [] | Some x \<Rightarrow> x)"

text \<open>
  What a run adds to the FIFO, from the arguments and \<open>DNSMASQ_INTERFACE\<close>: \<open>pipe\<close> is whether the
  FIFO is there, \<open>written\<close> whether the write happened within its time.
\<close>

definition lease_notify :: "bool \<Rightarrow> bool \<Rightarrow> string list \<Rightarrow> string option \<Rightarrow> string" where
  "lease_notify pipe written args iface =
     (if \<not> pipe then []
      else if written
      then sh_arg args 1 @ '' '' @ sh_var iface @ '' '' @ sh_arg args 2 @ '' '' @ sh_arg args 3 @ [newline]
      else [])"

section \<open>Events of dnsmasq\<close>

record dn_event =
  dn_args :: "string list"
  dn_iface :: "string option"

definition dn_ok :: "dn_event \<Rightarrow> bool" where
  "dn_ok e \<longleftrightarrow> (\<forall>a \<in> set (take 3 (dn_args e)). is_token a) \<and> (\<forall>i. dn_iface e = Some i \<longrightarrow> is_token i)"

text \<open>What an event means for the leases. Without an interface or an address it means nothing.\<close>

definition lease_event :: "dn_event \<Rightarrow> lease_table \<Rightarrow> lease_table" where
  "lease_event e tbl =
     (case (dn_iface e, dn_args e) of
        (Some iface, action # mac # ip4 # _) \<Rightarrow>
          if action \<in> {''add'', ''old''} then tbl(py_lower mac \<mapsto> (iface, ip4))
          else if action = ''del'' then tbl(py_lower mac := None)
          else tbl
      | _ \<Rightarrow> tbl)"

section \<open>From the script to the table\<close>

text \<open>A word of the script's line: a token, or empty when the argument is missing.\<close>

definition sh_word :: "string \<Rightarrow> bool" where
  "sh_word w \<longleftrightarrow> (\<forall>c \<in> set w. \<not> py_space c)"

definition words_of :: "string list \<Rightarrow> string list" where
  "words_of ws = filter (\<lambda>w. w \<noteq> []) ws"

lemma split_words_blank:
  assumes "sh_word w"
  shows "py_split (w @ CHR '' '' # cs) = words_of [w] @ py_split cs"
proof -
  have sp: "py_space (CHR '' '')" by (simp add: py_space_def is_space_def)
  show ?thesis
    using assms by (auto simp: sh_word_def split_words_token sp words_of_def)
qed

lemma split_words_end: "sh_word w \<Longrightarrow> py_split w = words_of [w]"
  using split_words_token [of w "[]" "[]"] by (auto simp: sh_word_def words_of_def)

definition notify_line :: "dn_event \<Rightarrow> string" where
  "notify_line e = sh_arg (dn_args e) 1 @ '' '' @ sh_var (dn_iface e) @ '' '' @ sh_arg (dn_args e) 2 @ '' '' @
     sh_arg (dn_args e) 3"

lemma lease_notify_line: "lease_notify True True (dn_args e) (dn_iface e) = notify_line e @ [newline]"
  by (simp add: lease_notify_def notify_line_def)

lemma dn_words:
  assumes "dn_ok e"
  shows "sh_word (sh_arg (dn_args e) 1)" "sh_word (sh_arg (dn_args e) 2)" "sh_word (sh_arg (dn_args e) 3)"
    "sh_word (sh_var (dn_iface e))"
proof -
  have "sh_word (sh_arg (dn_args e) n)" if "n \<le> 3" for n
  proof (cases "1 \<le> n \<and> n \<le> length (dn_args e)")
    case True
    then have "dn_args e ! (n - 1) \<in> set (take 3 (dn_args e))"
      using that by (auto simp: in_set_conv_nth intro!: exI [of _ "n - 1"])
    then show ?thesis using True assms by (auto simp: sh_arg_def sh_word_def dn_ok_def is_token_def)
  qed (auto simp: sh_arg_def sh_word_def)
  then show "sh_word (sh_arg (dn_args e) 1)" "sh_word (sh_arg (dn_args e) 2)" "sh_word (sh_arg (dn_args e) 3)"
    by simp_all
  show "sh_word (sh_var (dn_iface e))"
    using assms by (cases "dn_iface e") (simp_all add: sh_var_def sh_word_def dn_ok_def is_token_def)
qed

lemma notify_words:
  assumes "dn_ok e"
  shows "py_split (notify_line e) =
    words_of [sh_arg (dn_args e) 1, sh_var (dn_iface e), sh_arg (dn_args e) 2, sh_arg (dn_args e) 3]"
proof -
  have "words_of [a, b, c, d] = words_of [a] @ words_of [b] @ words_of [c] @ words_of [d]" for a b c d
    by (simp add: words_of_def)
  then show ?thesis
    using dn_words [OF assms] by (simp add: notify_line_def split_words_blank split_words_end)
qed

lemma notify_no_newline:
  assumes "dn_ok e"
  shows "newline \<notin> set (notify_line e)"
proof -
  have "py_space newline" by (simp add: py_space_def is_space_def newline_def)
  then have "newline \<notin> set w" if "sh_word w" for w using that by (auto simp: sh_word_def)
  then show ?thesis
    using dn_words [OF assms] by (simp add: notify_line_def) (simp add: newline_def)
qed

lemma notify_step:
  assumes "dn_ok e"
  shows "lease_step (notify_line e) tbl = lease_event e tbl"
proof (cases "\<exists>iface action mac ip4 rest. dn_iface e = Some iface \<and> dn_args e = action # mac # ip4 # rest")
  case True
  then obtain iface action mac ip4 rest where e: "dn_iface e = Some iface" "dn_args e = action # mac # ip4 # rest"
    by blast
  then have "py_split (notify_line e) = [action, iface, mac, ip4]"
    using assms by (simp add: notify_words sh_arg_def sh_var_def words_of_def dn_ok_def is_token_def)
  then show ?thesis by (simp add: lease_step_def lease_event_def e)
next
  case False
  then have few: "length (py_split (notify_line e)) < 4"
  proof (cases "dn_iface e")
    case None
    have "length (words_of [a, [], b, c]) < 4" for a b c by (simp add: words_of_def)
    then show ?thesis by (simp add: notify_words [OF assms] None sh_var_def)
  next
    case (Some iface)
    then have "length (dn_args e) < 3"
      using False
      by (cases "dn_args e"; cases "tl (dn_args e)"; cases "tl (tl (dn_args e))") auto
    then have "sh_arg (dn_args e) 3 = []" by (simp add: sh_arg_def)
    moreover have "length (words_of [a, b, c, []]) < 4" for a b c by (simp add: words_of_def)
    ultimately show ?thesis by (simp add: notify_words [OF assms])
  qed
  have "lease_step (notify_line e) tbl = tbl"
    using few by (auto simp: lease_step_def split: list.split)
  moreover have "lease_event e tbl = tbl"
    using False by (auto simp: lease_event_def split: option.split list.split)
  ultimately show ?thesis by simp
qed

lemma split_at_before: "sep \<notin> set l \<Longrightarrow> split_at sep (l @ sep # cs) = l # split_at sep cs"
  by (induction l) auto

lemma split_at_lines:
  "\<forall>l \<in> set ls. sep \<notin> set l \<Longrightarrow> split_at sep (concat (map (\<lambda>l. l @ [sep]) ls)) = ls @ [[]]"
proof (induction ls)
  case (Cons l ls)
  have "split_at sep (l @ sep # cs) = l # split_at sep cs" for cs
    using Cons.prems split_at_before [of sep l cs] by simp
  then show ?case using Cons by simp
qed simp

text \<open>Reading the script's lines, however they arrive, follows dnsmasq.\<close>

lemma notified:
  assumes "rd_inv s" and "rd_buf s = []" and "\<forall>e \<in> set es. dn_ok e"
    and "concat cs = concat (map (\<lambda>e. lease_notify True True (dn_args e) (dn_iface e)) es)"
  shows "wlp (for_each cs (feed S)) (\<lambda>_ t. rd_leases t = fold lease_event es (rd_leases s) \<and> rd_inv t) s"
proof -
  have "split_at newline (concat cs) = map notify_line es @ [[]]"
    using split_at_lines [of "map notify_line es" newline] assms(3)
    by (simp add: assms(4) lease_notify_line notify_no_newline comp_def)
  then have run: "for_each cs (feed S) s = for_each (map notify_line es) (handle_line S) s"
    using feeds_alt [of s cs S] assms(2) by (cases s) simp
  have "fold lease_step (map notify_line es) tbl = fold lease_event es tbl" for tbl
    using assms(3) by (induction es arbitrary: tbl) (simp_all add: notify_step)
  then show ?thesis
    using handle_all_step [OF assms(1), of "map notify_line es" S] by (auto simp: wlp_def run split: option.splits)
qed

end
