(* ===== verification/Router_Script.thy ===== *)
theory Router_Script
  imports Router_Follow "HOL-Library.Sublist"
begin

text \<open>
  The script that does without the daemon (\<^verbatim>\<open>router/debian/usr/local/sbin/v4gw-lease.sh\<close>): on a
  lease event it looks for the host's IPv6 address itself and sets or removes the route. The
  programs it runs are parameters; what \<open>ip\<close> prints is a list of lines. The theory compares the
  address the script derives from a MAC, a text, with the daemon's \<open>derive_gua\<close>.
\<close>

section \<open>Shell and awk\<close>

text \<open>\<open>${v%%:*}\<close>, \<open>${v#*:}\<close> and \<open>${v##*:}\<close>\<close>

definition cut_tail :: "string \<Rightarrow> string" where
  "cut_tail v = takeWhile (\<lambda>c. c \<noteq> CHR '':'') v"

definition cut_head :: "string \<Rightarrow> string" where
  "cut_head v = (if CHR '':'' \<in> set v then tl (dropWhile (\<lambda>c. c \<noteq> CHR '':'') v) else v)"

definition cut_heads :: "string \<Rightarrow> string" where
  "cut_heads v = rev (takeWhile (\<lambda>c. c \<noteq> CHR '':'') (rev v))"

text \<open>\<open>printf '%02x'\<close>\<close>

fun hex_digits :: "nat \<Rightarrow> string" where
  "hex_digits n = (if n < 16 then [hex_digit False n] else hex_digits (n div 16) @ [hex_digit False (n mod 16)])"

declare hex_digits.simps [simp del]

definition printf_02x :: "nat \<Rightarrow> string" where
  "printf_02x n = (let ds = hex_digits n in if length ds < 2 then CHR ''0'' # ds else ds)"

text \<open>The first field of a line, and the two patterns of the script.\<close>

definition awk_first :: "string \<Rightarrow> string" where
  "awk_first line =
     (let blank = (\<lambda>c. c = CHR '' '' \<or> c = CHR 0x09) in
      takeWhile (\<lambda>c. \<not> blank c) (dropWhile blank line))"

text \<open>\<open>^([23]|f[cd])\<close>: what follows a match.\<close>

definition global_text :: "string \<Rightarrow> string option" where
  "global_text w =
     (if take 1 w \<in> {''2'', ''3''} then Some (drop 1 w)
      else if take 2 w \<in> {''fc'', ''fd''} then Some (drop 2 w)
      else None)"

text \<open>\<open>^([23]|f[cd]).*::/64$\<close>\<close>

definition prefix_text :: "string \<Rightarrow> bool" where
  "prefix_text w \<longleftrightarrow> (case global_text w of None \<Rightarrow> False | Some r \<Rightarrow> suffix ''::/64'' r)"

section \<open>The script\<close>

record 'k sc_sys =
  sc_has_ndisc6 :: "'k \<Rightarrow> bool \<times> 'k"
  sc_route_show :: "string \<Rightarrow> 'k \<Rightarrow> string list \<times> 'k"
  sc_neigh_show :: "string \<Rightarrow> 'k \<Rightarrow> string list \<times> 'k"
  sc_ndisc6 :: "string \<Rightarrow> string \<Rightarrow> 'k \<Rightarrow> bool \<times> 'k"
  sc_ping :: "string \<Rightarrow> 'k \<Rightarrow> bool \<times> 'k"
  sc_ping6 :: "string \<Rightarrow> 'k \<Rightarrow> bool \<times> 'k"
  sc_route_replace :: "string \<Rightarrow> string \<Rightarrow> string \<Rightarrow> 'k \<Rightarrow> bool \<times> 'k"
  sc_route_del :: "string \<Rightarrow> 'k \<Rightarrow> bool \<times> 'k"
  sc_neigh_del :: "string \<Rightarrow> string \<Rightarrow> 'k \<Rightarrow> bool \<times> 'k"
  sc_arith :: "string \<Rightarrow> nat option"
    \<comment> \<open>\<open>$((0x$w ^ 2))\<close> for a word that is no hexadecimal number of at most 15 digits\<close>
  sc_index_empty :: bool
    \<comment> \<open>whether awk's \<open>index\<close> finds the empty text\<close>

datatype sc_event = Sc_route_replace string string bool | Sc_route_del string | Sc_neigh_del string

type_synonym ('k, 'a) sc_prog = "(('k, sc_event) os_state, 'a) prog"

definition sh_xor2 :: "('k, 'x) sc_sys_scheme \<Rightarrow> string \<Rightarrow> nat option" where
  "sh_xor2 S w =
     (if w \<noteq> [] \<and> length w \<le> 15 \<and> list_all is_hex w then Some (hex_num w XOR 2) else sc_arith S w)"

text \<open>The address built from the prefix and the MAC, as text; \<open>None\<close> when the arithmetic fails.\<close>

definition script_gua :: "('k, 'x) sc_sys_scheme \<Rightarrow> string \<Rightarrow> string \<Rightarrow> string option" where
  "script_gua S pfx mac =
     (let o1 = cut_tail mac; r = cut_head mac; o2 = cut_tail r; r = cut_head r;
          o3 = cut_tail r; r = cut_head r; o4 = cut_tail r; r = cut_head r;
          o5 = cut_tail r; o6 = cut_heads r
      in case sh_xor2 S o1 of
           None \<Rightarrow> None
         | Some n \<Rightarrow> Some (pfx @ printf_02x n @ o2 @ '':'' @ o3 @ ''ff:fe'' @ o4 @ '':'' @ o5 @ o6))"

text \<open>\<open>awk '$1 ~ ... { sub(/\/64$/,"",$1); print $1; exit }'\<close>\<close>

definition script_prefix :: "string list \<Rightarrow> string" where
  "script_prefix ls =
     (case find prefix_text (map awk_first ls) of
        None \<Rightarrow> []
      | Some w \<Rightarrow> take (length w - 3) w)"

definition gua_nexthop :: "('k, 'x) sc_sys_scheme \<Rightarrow> string \<Rightarrow> string \<Rightarrow> ('k, string) sc_prog" where
  "gua_nexthop S IF mac =
     bnd (kcall (sc_has_ndisc6 S)) (\<lambda>there.
     if \<not> there then ret []
     else
       bnd (kcall (sc_route_show S IF)) (\<lambda>ls.
       let pfx = script_prefix ls in
       if pfx = [] then ret []
       else
         case script_gua S pfx mac of
           None \<Rightarrow> ret []
         | Some gua \<Rightarrow>
             bnd (kcall (sc_ndisc6 S gua IF)) (\<lambda>ok.
             if \<not> ok then ret [] else ret gua)))"

text \<open>The awk program of \<open>find_nexthop\<close>, over \<open>gua\<close> and \<open>ll\<close>.\<close>

fun find_addrs :: "('k, 'x) sc_sys_scheme \<Rightarrow> string \<Rightarrow> string list \<Rightarrow> string \<times> string \<Rightarrow> string \<times> string" where
  "find_addrs S m [] st = st"
| "find_addrs S m (line # ls) (gua, ll) =
     (let hit = (if m = [] then sc_index_empty S else sublist m (py_lower line)); f = awk_first line in
      find_addrs S m ls
        (if hit then
           if take 5 f = ''fe80:'' then (if ll = [] then (gua, f) else (gua, ll))
           else if gua = [] \<and> global_text f \<noteq> None then (f, ll)
           else (gua, ll)
         else (gua, ll)))"

definition find_nexthop :: "('k, 'x) sc_sys_scheme \<Rightarrow> string \<Rightarrow> string \<Rightarrow> ('k, string) sc_prog" where
  "find_nexthop S IF mac =
     bnd (kcall (sc_neigh_show S IF)) (\<lambda>ls.
     case find_addrs S (py_lower mac) ls ([], []) of
       (gua, ll) \<Rightarrow> ret (if gua \<noteq> [] then gua else ll))"

definition surface :: "('k, 'x) sc_sys_scheme \<Rightarrow> string \<Rightarrow> ('k, unit) sc_prog" where
  "surface S IF =
     bnd (kcall (sc_ping S IF)) (\<lambda>ok.
     if ok then ret () else bnd (kcall (sc_ping6 S IF)) (\<lambda>_. ret ()))"

definition drop_neigh :: "('k, 'x) sc_sys_scheme \<Rightarrow> string \<Rightarrow> string \<Rightarrow> ('k, unit) sc_prog" where
  "drop_neigh S ip4 IF = bnd (kcall (sc_neigh_del S ip4 IF)) (\<lambda>_. emit (Sc_neigh_del ip4))"

text \<open>The choice of a next hop on \<open>add\<close> and \<open>old\<close>.\<close>

definition script_nexthop :: "('k, 'x) sc_sys_scheme \<Rightarrow> string \<Rightarrow> string \<Rightarrow> ('k, string) sc_prog" where
  "script_nexthop S IF mac =
     bnd (gua_nexthop S IF mac) (\<lambda>nh.
     bnd (if nh \<noteq> [] then ret nh else find_nexthop S IF mac) (\<lambda>nh.
     if nh = [] then bnd (surface S IF) (\<lambda>_. find_nexthop S IF mac) else ret nh))"

text \<open>The whole script; the result is whether it exits with status 0.\<close>

definition lease_script :: "('k, 'x) sc_sys_scheme \<Rightarrow> string \<Rightarrow> string \<Rightarrow> string \<Rightarrow> string \<Rightarrow> ('k, bool) sc_prog" where
  "lease_script S action mac ip4 IF =
     (if IF = [] then ret True
      else if ip4 = [] then ret True
      else if action \<in> {''add'', ''old''} then
        bnd (script_nexthop S IF mac) (\<lambda>nh.
        bnd (if nh \<noteq> [] then
               bnd (kcall (sc_route_replace S ip4 nh IF)) (\<lambda>ok.
               bnd (emit (Sc_route_replace ip4 nh ok)) (\<lambda>_. ret ok))
             else ret True) (\<lambda>ok.
        if \<not> ok then ret False
        else bnd (drop_neigh S ip4 IF) (\<lambda>_. ret True)))
      else if action = ''del'' then
        bnd (kcall (sc_route_del S ip4)) (\<lambda>_.
        bnd (emit (Sc_route_del ip4)) (\<lambda>_.
        bnd (drop_neigh S ip4 IF) (\<lambda>_. ret True)))
      else ret True)"

section \<open>The address the text denotes\<close>

text \<open>
  The text form of IPv6 addresses (RFC 4291, 2.2): groups of one to four hexadecimal digits, and at
  most one \<open>::\<close> for one or more groups of zeros. The form with an IPv4 tail does not occur here.
\<close>

definition hex16 :: "string \<Rightarrow> byte list option" where
  "hex16 g =
     (if g \<noteq> [] \<and> length g \<le> 4 \<and> list_all is_hex g
      then Some [of_nat (hex_num g div 256), of_nat (hex_num g mod 256)] else None)"

fun hex_groups :: "string list \<Rightarrow> byte list option" where
  "hex_groups [] = Some []"
| "hex_groups (g # gs) =
     (case (hex16 g, hex_groups gs) of (Some b, Some bs) \<Rightarrow> Some (b @ bs) | _ \<Rightarrow> None)"

definition group_text :: "string \<Rightarrow> byte list option" where
  "group_text s = (if s = [] then Some [] else hex_groups (split_at (CHR '':'') s))"

fun split_gap :: "string \<Rightarrow> (string \<times> string) option" where
  "split_gap (c # d # cs) =
     (if c = CHR '':'' \<and> d = CHR '':'' then Some ([], cs)
      else map_option (\<lambda>(l, r). (c # l, r)) (split_gap (d # cs)))"
| "split_gap cs = None"

definition in6_text :: "string \<Rightarrow> in6_addr option" where
  "in6_text s =
     (case split_gap s of
        None \<Rightarrow> (case group_text s of Some bs \<Rightarrow> if length bs = 16 then Some bs else None | None \<Rightarrow> None)
      | Some (l, r) \<Rightarrow>
          (case (group_text l, group_text r) of
             (Some a, Some b) \<Rightarrow>
               if length a + length b < 16 then Some (a @ replicate (16 - length a - length b) 0 @ b) else None
           | _ \<Rightarrow> None))"

lemma hex16_length: "hex16 g = Some b \<Longrightarrow> length b = 2"
  by (auto simp: hex16_def split: if_splits)

lemma hex_groups_length: "hex_groups gs = Some bs \<Longrightarrow> length bs = 2 * length gs"
  by (induction gs arbitrary: bs) (auto dest: hex16_length split: option.splits)

lemma hex_groups_Some: "\<forall>g \<in> set gs. hex16 g \<noteq> None \<Longrightarrow> \<exists>bs. hex_groups gs = Some bs"
  by (induction gs) auto

lemma hex16_no_colon: "hex16 g \<noteq> None \<Longrightarrow> g \<noteq> [] \<and> CHR '':'' \<notin> set g"
  using is_hex_not(3) by (auto simp: hex16_def list_all_iff split: if_splits)

text \<open>The first \<open>::\<close> after groups is the one written there.\<close>

lemma split_gap_join:
  assumes "gs \<noteq> []" and "\<forall>g \<in> set gs. g \<noteq> [] \<and> CHR '':'' \<notin> set g"
  shows "split_gap (join (CHR '':'') gs @ ''::'' @ cs) = Some (join (CHR '':'') gs, cs)"
proof -
  have word: "split_gap (w @ CHR '':'' # d # ds) =
      (if d = CHR '':'' then Some (w, ds)
       else map_option (\<lambda>(l, r). (w @ CHR '':'' # l, r)) (split_gap (d # ds)))"
    if "CHR '':'' \<notin> set w" for w d ds
    using that
  proof (induction w)
    case (Cons c w)
    then show ?case by (cases w; cases "split_gap (d # ds)") auto
  qed simp
  show ?thesis
    using assms
  proof (induction gs rule: induct_list012)
    case (3 g h gs)
    obtain d ds where h: "join (CHR '':'') (h # gs) @ ''::'' @ cs = d # ds" and d: "d \<noteq> CHR '':''"
      using 3(4) by (cases h; cases gs) auto
    have "split_gap (d # ds) = Some (join (CHR '':'') (h # gs), cs)"
      using 3 h by simp
    then show ?case using word [of g d ds] 3(4) d h by simp
  qed (simp_all add: word)
qed

lemma group_text_join:
  assumes "gs \<noteq> []" and "\<forall>g \<in> set gs. hex16 g \<noteq> None"
  shows "group_text (join (CHR '':'') gs) = hex_groups gs"
proof -
  have ok: "\<forall>g \<in> set gs. g \<noteq> [] \<and> CHR '':'' \<notin> set g" using assms(2) hex16_no_colon by blast
  then have "join (CHR '':'') gs \<noteq> []"
    using assms(1) by (cases gs; cases "tl gs") auto
  then show ?thesis using split_at_join [OF assms(1)] ok by (simp add: group_text_def)
qed

lemma in6_text_gap:
  assumes "gs \<noteq> []" and "\<forall>g \<in> set (gs @ hs). hex16 g \<noteq> None"
    and "hex_groups gs = Some a" and "hex_groups hs = Some b"
  shows "in6_text (join (CHR '':'') gs @ ''::'' @ join (CHR '':'') hs) =
    (if length gs + length hs < 8 then Some (a @ replicate (16 - length a - length b) 0 @ b) else None)"
proof -
  have "\<forall>g \<in> set gs. g \<noteq> [] \<and> CHR '':'' \<notin> set g" using assms(2) hex16_no_colon by auto
  then have "split_gap (join (CHR '':'') gs @ ''::'' @ join (CHR '':'') hs)
      = Some (join (CHR '':'') gs, join (CHR '':'') hs)"
    by (rule split_gap_join [OF assms(1)])
  moreover have "group_text (join (CHR '':'') gs) = Some a"
    using assms by (simp add: group_text_join)
  moreover have "group_text (join (CHR '':'') hs) = Some b"
    using assms by (cases "hs = []") (simp_all add: group_text_join, simp add: group_text_def)
  ultimately show ?thesis
    using hex_groups_length [OF assms(3)] hex_groups_length [OF assms(4)] by (simp add: in6_text_def)
qed

section \<open>The derived address\<close>

lemma hex_byte_list: "length (hex_byte u b) = 2" "hex_byte u b \<noteq> []" "list_all is_hex (hex_byte u b)"
  "CHR '':'' \<notin> set (hex_byte u b)"
  using hex_byte_digits [of b] hex_digit_is_hex is_hex_not(3) by (auto simp: hex_byte_def)

lemma hex_num_append: "hex_num (xs @ ys) = hex_num xs * 16 ^ length ys + hex_num ys"
proof (induction ys rule: rev_induct)
  case (snoc y ys)
  then show ?case by (simp add: hex_num_def algebra_simps)
qed (simp add: hex_num_def)

lemma hex_num_byte: "hex_num (hex_byte u b) = unat b"
  using hex_byte_digits [of b] by (simp add: hex_num_def hex_byte_def hex_digit_val)

lemma hex16_bytes: "hex16 (hex_byte u a @ hex_byte u b) = Some [a, b]"
  using byte_lt [of a] byte_lt [of b]
  by (simp add: hex16_def hex_byte_list hex_num_append hex_num_byte numeral_2_eq_2)

lemma printf_byte: "printf_02x (unat b) = hex_byte False b"
proof (cases "unat b < 16")
  case True
  then have "hex_digits (unat b) = [hex_digit False (unat b)]"
    by (subst hex_digits.simps) simp
  moreover have "hex_digit False 0 = CHR ''0''" by code_simp
  ultimately show ?thesis using True by (simp add: printf_02x_def hex_byte_def)
next
  case False
  have "hex_digits (unat b div 16) = [hex_digit False (unat b div 16)]"
    using hex_byte_digits [of b] by (subst hex_digits.simps) simp
  then have "hex_digits (unat b) = hex_byte False b"
    using False by (subst hex_digits.simps) (simp add: hex_byte_def)
  then show ?thesis by (simp add: printf_02x_def hex_byte_list)
qed

lemma sh_xor2_byte: "sh_xor2 S (hex_byte u b) = Some (unat (b XOR 2))"
proof -
  have "unat (b XOR 2) = unat b XOR unat (2 :: byte)"
    by (rule unsigned_xor_eq)
  then show ?thesis by (simp add: sh_xor2_def hex_byte_list hex_num_byte)
qed

lemma cut_words:
  assumes "CHR '':'' \<notin> set w"
  shows "cut_tail (w @ CHR '':'' # r) = w" "cut_head (w @ CHR '':'' # r) = r"
    "CHR '':'' \<notin> set v \<Longrightarrow> cut_heads (v @ CHR '':'' # w) = w"
proof -
  have take: "takeWhile (\<lambda>c. c \<noteq> CHR '':'') (x @ CHR '':'' # y) = x" if "CHR '':'' \<notin> set x" for x y
    using that by (induction x) auto
  show "cut_tail (w @ CHR '':'' # r) = w" by (simp add: cut_tail_def take assms)
  show "cut_head (w @ CHR '':'' # r) = r"
    using assms by (induction w) (auto simp: cut_head_def)
  show "cut_heads (v @ CHR '':'' # w) = w"
    using take [of "rev w" "rev v"] assms by (simp add: cut_heads_def)
qed

definition eui64_groups :: "mac_addr \<Rightarrow> string list" where
  "eui64_groups m =
     [hex_byte False (m ! 0 XOR 2) @ hex_byte False (m ! 1), hex_byte False (m ! 2) @ hex_byte False 0xff,
      hex_byte False 0xfe @ hex_byte False (m ! 3), hex_byte False (m ! 4) @ hex_byte False (m ! 5)]"

lemma script_gua_groups:
  assumes "length m = 6"
  shows "script_gua S pfx (mac_str m) = Some (pfx @ join (CHR '':'') (eui64_groups m))"
proof -
  obtain a b c d e f where m: "m = [a, b, c, d, e, f]"
    using assms by (auto simp: numeral_eq_Suc length_Suc_conv)
  let ?h = "hex_byte False"
  have "mac_str m = ?h a @ CHR '':'' # ?h b @ CHR '':'' # ?h c @ CHR '':'' # ?h d @ CHR '':'' # ?h e @ CHR '':'' # ?h f"
    using mac_text_fits(1) [OF assms] by (simp add: mac_str_def m)
  moreover have "?h 0xff = ''ff''" "?h 0xfe = ''fe''" by code_simp+
  ultimately show ?thesis
    by (simp add: script_gua_def Let_def cut_words hex_byte_list(4) sh_xor2_byte printf_byte eui64_groups_def m)
qed

lemma eui64_groups_bytes:
  assumes "length m = 6"
  shows "hex_groups (eui64_groups m) = Some (eui64 m)" "\<forall>g \<in> set (eui64_groups m). hex16 g \<noteq> None"
  by (simp_all add: eui64_groups_def hex16_bytes eui64_def)

text \<open>
  The script writes the identifier right after \<open>::\<close>: with less than four groups before it the text
  denotes the daemon's address, with four it denotes none.
\<close>

lemma script_gua_denotes:
  assumes "gs \<noteq> []" and "length gs \<le> 4" and "\<forall>g \<in> set gs. hex16 g \<noteq> None" and "length m = 6"
  shows "\<exists>net a. in6_text (join (CHR '':'') gs @ ''::'') = Some net \<and>
    derive_gua (network64 net) (mac_str m) = Some a \<and>
    (\<exists>t. script_gua S (join (CHR '':'') gs @ ''::'') (mac_str m) = Some t \<and>
      in6_text t = (if length gs < 4 then Some a else None))"
proof -
  obtain p where p: "hex_groups gs = Some p" using hex_groups_Some [OF assms(3)] by blast
  have len: "length p = 2 * length gs" by (rule hex_groups_length [OF p])
  define net where "net = p @ replicate (16 - length p) (0 :: byte)"
  have net: "in6_text (join (CHR '':'') gs @ ''::'') = Some net" "length net = 16"
    using in6_text_gap [of gs "[]" p "[]"] assms p len by (simp_all add: net_def)
  have derived: "derive_gua (network64 net) (mac_str m) = Some (take 8 net @ eui64 m)"
    unfolding mac_str_def by (rule derive_gua_text [OF net(2) assms(4)])
  have "in6_text (join (CHR '':'') gs @ ''::'' @ join (CHR '':'') (eui64_groups m)) =
      (if length gs + 4 < 8 then Some (p @ replicate (16 - length p - 8) 0 @ eui64 m) else None)"
    using in6_text_gap [OF assms(1) _ p eui64_groups_bytes(1) [OF assms(4)]] assms(3)
      eui64_groups_bytes(2) [OF assms(4)] by (auto simp: eui64_groups_def eui64_def)
  moreover have "take 8 net @ eui64 m = p @ replicate (16 - length p - 8) 0 @ eui64 m" if "length gs < 4"
    using that len by (simp add: net_def min_def)
  ultimately show ?thesis
    using net(1) derived script_gua_groups [OF assms(4), of S "join (CHR '':'') gs @ ''::''"] by auto
qed

end
