(* ===== verification/Router_Properties.thy ===== *)
theory Router_Properties
  imports Router_Life Router_Notify Router_Script
begin

text \<open>The properties of the router daemon, with witnesses on a small router.\<close>

section \<open>Leases\<close>

text \<open>
  The lines the daemon handles do not depend on how the bytes arrive: reading the FIFO in
  any pieces has the effect of handling, one after the other, the complete lines of what was
  left from before and all the pieces, and leaves the unfinished last line in the buffer.
\<close>
theorem rd_fifo_framing:
  assumes "newline \<notin> set (rd_buf s)"
  shows "for_each cs (feed S) s = for_each (butlast (split_at newline (rd_buf s @ concat cs))) (handle_line S)
    (s\<lparr>rd_buf := last (split_at newline (rd_buf s @ concat cs))\<rparr>)"
  using assms by (rule feeds_alt)

text \<open>
  C31: The table follows dnsmasq: whatever the system calls return, and however the bytes the
  notifying script writes into the FIFO are split into reads, reading them makes the table the
  one dnsmasq's events lead to. An event without an interface, as dnsmasq reports its old leases
  when it starts, leaves the table alone.
\<close>
theorem rd_notified:
  assumes "rd_inv s" and "rd_buf s = []" and "\<forall>e \<in> set es. dn_ok e"
    and "concat cs = concat (map (\<lambda>e. lease_notify True True (dn_args e) (dn_iface e)) es)"
  shows "wlp (for_each cs (feed S)) (\<lambda>_ t. rd_leases t = fold lease_event es (rd_leases s) \<and> rd_inv t) s"
  using assms by (rule notified)

text \<open>
  C32: Whatever the system calls return, the table of hosts refines a map of leases: handling
  lines has the effect of \<open>lease_step\<close> for each, that is an added or renewed lease becomes the
  one of its MAC, a deleted one goes, other lines do nothing; and every entry stays a triple of
  words with the MAC in lower case.
\<close>
theorem rd_lines_refine_leases:
  assumes "rd_inv s"
  shows "wlp (for_each ls (handle_line S)) (\<lambda>_ t. rd_leases t = fold lease_step ls (rd_leases s) \<and> rd_inv t) s"
  by (rule wlp_mono [OF handle_all_step [OF assms]]) simp

text \<open>
  C33: The table survives a restart: what \<open>persist\<close> has written, a fresh daemon restores, less
  the leases that dnsmasq's file, when it is readable, does not list any more.
\<close>
theorem rd_restart_roundtrip:
  fixes s :: "'k rd_state" and S S' :: "'k rd_sys"
  assumes "rd_inv s" and "rd_disk_ok S"
  shows "wp (persist S) (\<lambda>_ t. \<forall>k leases. wp (restore S')
      (\<lambda>_ u. rd_leases u = rd_pruned leases (rd_leases s))
      (rd_init k ((files t)(LEASES := leases)))) s"
proof (rule wp_mono [OF persist_writes [OF assms(2)]], intro allI)
  fix t :: "'k rd_state" and k :: 'k and leases
  assume "files t STATE = Some (concat (map host_line (rd_hosts s))) \<and> files t LEASES = files s LEASES \<and>
    rd_hosts t = rd_hosts s"
  then have "files (rd_init k ((files t)(LEASES := leases))) STATE = Some (concat (map host_line (rd_hosts s)))"
    using STATE_names(2) by (simp add: rd_init_def)
  from restore_reads [OF assms(1) this, of S']
  show "wp (restore S') (\<lambda>_ u. rd_leases u = rd_pruned leases (rd_leases s))
      (rd_init k ((files t)(LEASES := leases)))"
    by (simp add: rd_init_def)
qed

section \<open>Next hops\<close>

text \<open>
  C34: For a MAC address in the usual notation, in letters of either case, the address derived
  from it is its modified EUI-64 address (RFC 4291) in the \<open>/64\<close> of the prefix, byte by byte:
  the MAC in two halves around \<open>ff:fe\<close>, with the universal/local bit of its first byte flipped.
  So different hosts have different addresses.
\<close>
theorem rd_derived_address:
  assumes "length dst = 16" and "length m = 6"
  shows "derive_gua (network64 dst) (mac_text upper (CHR '':'') m)
      = Some (take 8 dst @ [m ! 0 XOR 2, m ! 1, m ! 2, 0xff, 0xfe, m ! 3, m ! 4, m ! 5]) \<and>
    (\<forall>m' upper'. length m' = 6 \<and> derive_gua (network64 dst) (mac_text upper' (CHR '':'') m')
      = derive_gua (network64 dst) (mac_text upper (CHR '':'') m) \<longrightarrow> m' = m)"
proof (intro conjI allI impI)
  show "derive_gua (network64 dst) (mac_text upper (CHR '':'') m)
      = Some (take 8 dst @ [m ! 0 XOR 2, m ! 1, m ! 2, 0xff, 0xfe, m ! 3, m ! 4, m ! 5])"
    using derive_gua_text [OF assms] by (simp add: eui64_def)
  fix m' upper'
  assume m': "length m' = 6 \<and> derive_gua (network64 dst) (mac_text upper' (CHR '':'') m')
      = derive_gua (network64 dst) (mac_text upper (CHR '':'') m)"
  then have "eui64 m' = eui64 m"
    using derive_gua_text [OF assms, of upper] derive_gua_text [OF assms(1), of m' upper'] by simp
  then show "m' = m" by (metis eui64_mac_eui64 assms(2) m')
qed

text \<open>
  C35: The script that does without the daemon derives the same address, as a text, when the
  text of the prefix has less than four groups before its \<open>::\<close>; with four, that is for every
  prefix whose fourth group is not zero, what it writes is no address at all.
\<close>
theorem rd_script_gua:
  assumes "gs \<noteq> []" and "length gs \<le> 4" and "\<forall>g \<in> set gs. hex16 g \<noteq> None" and "length m = 6"
  shows "\<exists>net a. in6_text (join (CHR '':'') gs @ ''::'') = Some net \<and>
    derive_gua (network64 net) (mac_str m) = Some a \<and>
    (\<exists>t. script_gua S (join (CHR '':'') gs @ ''::'') (mac_str m) = Some t \<and>
      in6_text t = (if length gs < 4 then Some a else None))"
  using assms by (rule script_gua_denotes)

text \<open>
  C36: Over tables that stand still the next hop of a host is the first of its usable addresses
  of the highest class: the derived address, else a global or unique local one, else a
  link-local one; there is none only when no usable address is in any of the classes.
\<close>
theorem rd_next_hop_choice:
  assumes "rd_quiet S"
  shows "\<exists>nh. best_nexthop S idx mac s = Some ((nh, rd_gua S idx mac (kern s)), s) \<and>
    (let gua = rd_gua S idx mac (kern s); cache = rd_neighbors S idx mac (kern s) in
     case nh of
       None \<Rightarrow> \<forall>(d, u) \<in> set cache. nud_usable u \<longrightarrow> rd_rank gua d = 0
     | Some a \<Rightarrow> \<exists>pre st post. cache = pre @ (a, st) # post \<and> nud_usable st \<and> 0 < rd_rank gua a \<and>
         (\<forall>(d, u) \<in> set pre. nud_usable u \<longrightarrow> rd_rank gua d < rd_rank gua a) \<and>
         (\<forall>(d, u) \<in> set post. nud_usable u \<longrightarrow> rd_rank gua d \<le> rd_rank gua a))"
proof -
  let ?gua = "rd_gua S idx mac (kern s)" and ?cache = "rd_neighbors S idx mac (kern s)"
  have d: "distinct (map fst ?cache)"
    using cache_of_distinct [of "[]"] by (simp add: rd_neighbors_def split: sum.split)
  have "case rd_choose ?gua ?cache of
      None \<Rightarrow> \<forall>(d, u) \<in> set ?cache. nud_usable u \<longrightarrow> rd_rank ?gua d = 0
    | Some a \<Rightarrow> \<exists>pre st post. ?cache = pre @ (a, st) # post \<and> nud_usable st \<and> 0 < rd_rank ?gua a \<and>
        (\<forall>(d, u) \<in> set pre. nud_usable u \<longrightarrow> rd_rank ?gua d < rd_rank ?gua a) \<and>
        (\<forall>(d, u) \<in> set post. nud_usable u \<longrightarrow> rd_rank ?gua d \<le> rd_rank ?gua a)"
  proof (cases "rd_choose ?gua ?cache")
    case None
    then show ?thesis using rd_choose_None [OF d None] by simp
  next
    case (Some a)
    then show ?thesis using rd_choose_Some [OF d Some] by simp
  qed
  then show ?thesis
    using best_nexthop_quiet [OF assms, of idx mac s] unfolding Let_def by blast
qed

section \<open>Routes\<close>

text \<open>
  C37: The kernel's routes are those of the table: against a kernel that does what it is asked,
  and as long as no two hosts lease one address, handling any lines keeps every host's route
  on the next hop the table has for it, and leaves no route to an address that is not leased.
\<close>
theorem rd_routes_exact:
  assumes "rd_sound S" and "rd_law S rt" and "rd_inv s" and "rd_exact rt s"
    and "\<And>n. n \<le> length ls \<Longrightarrow> ips_distinct (fold lease_step (take n ls) (rd_leases s))"
  shows "wp (for_each ls (handle_line S)) (\<lambda>_. rd_exact rt) s"
proof (rule safe_wp)
  show "safe (for_each ls (handle_line S))"
    by (intro safe_for_each safe_rd(3) assms(1))
  show "wlp (for_each ls (handle_line S)) (\<lambda>_. rd_exact rt) s"
    using assms(3-5)
  proof (induction ls arbitrary: s)
    case Nil
    then show ?case by (simp add: wlp_ret)
  next
    case (Cons l ls)
    have "ips_distinct (rd_leases s)" "ips_distinct (lease_step l (rd_leases s))"
      using Cons.prems(3) [of 0] Cons.prems(3) [of 1] by simp_all
    then have "wlp (handle_line S l) (\<lambda>_ t. rd_exact rt t \<and> (rd_leases t = lease_step l (rd_leases s) \<and> rd_inv t \<and>
        rd_running t = rd_running s)) s"
      using Cons.prems by (intro wlp_conj exact_routes.handle_line_keeps [folded rd_exact_kept] handle_line_step assms(2))
    then show ?case
      unfolding for_each.simps wlp_bnd
    proof (rule wlp_mono)
      fix t
      assume t: "rd_exact rt t \<and> rd_leases t = lease_step l (rd_leases s) \<and> rd_inv t \<and> rd_running t = rd_running s"
      have "ips_distinct (fold lease_step (take n ls) (rd_leases t))" if "n \<le> length ls" for n
        using Cons.prems(3) [of "Suc n"] that t by simp
      then show "wlp (for_each ls (handle_line S)) (\<lambda>_. rd_exact rt) t"
        using t by (intro Cons.IH) simp_all
    qed
  qed
qed


text \<open>
  C39: A refused route is taken for done: when the kernel refuses the route of a host, the
  table has the next hop all the same, and as long as the tables show the same next hop no
  evaluation asks again.
\<close>
theorem rd_refused_never_retried:
  assumes "rd_quiet S" and "map_of (rd_hosts s) mac = Some h"
    and "fst (rd_link_lookup S (h_iface h) (kern s)) = Inr (idx # ls)"
    and "rd_best S idx mac (kern s) = Some a" and "h_nh h \<noteq> Some a"
    and "fst (rd_sys_replace S (h_ip4 h) idx a (kern s)) = Inl (Netlink_error c)"
  shows "wp (evaluate S mac) (\<lambda>_ t.
      out t = out s @ [Rd_route_replace (h_ip4 h) a (Some c), Rd_log_via_failed (h_iface h) (h_ip4 h) a c] \<and>
      (\<exists>h'. map_of (rd_hosts t) mac = Some h' \<and> h_nh h' = Some a) \<and>
      (\<forall>k. fst (rd_link_lookup S (h_iface h) k) = Inr (idx # ls) \<and> rd_best S idx mac k = Some a \<longrightarrow>
        wp (evaluate S mac) (\<lambda>_ u. out u = out t \<and> kern u = k) (t\<lparr>kern := k\<rparr>))) s"
proof -
  obtain p where run: "evaluate S mac s = (case rd_best S idx mac (kern s) of
      None \<Rightarrow> ret ()
    | Some a \<Rightarrow> if h_nh h = Some a then ret ()
        else bnd (rd_install S (h_iface h) idx (h_ip4 h) a) (\<lambda>_. set_host mac (\<lambda>h. h\<lparr>h_nh := Some a\<rparr>)))
    (s\<lparr>rd_hosts := AList.map_entry mac (\<lambda>h. h\<lparr>h_probe := p h\<rparr>) (rd_hosts s)\<rparr>)"
    using evaluate_quiet [OF assms(1-3)] by blast
  define t where "t = s\<lparr>kern := snd (rd_sys_replace S (h_ip4 h) idx a (kern s)),
    out := out s @ [Rd_route_replace (h_ip4 h) a (Some c), Rd_log_via_failed (h_iface h) (h_ip4 h) a c],
    rd_hosts := AList.map_entry mac (\<lambda>h. h\<lparr>h_nh := Some a\<rparr>)
      (AList.map_entry mac (\<lambda>h. h\<lparr>h_probe := p h\<rparr>) (rd_hosts s))\<rparr>"
  obtain k' where "rd_sys_replace S (h_ip4 h) idx a (kern s) = (Inl (Netlink_error c), k')"
    using assms(6) by (metis prod.collapse)
  then have go: "evaluate S mac s = Some ((), t)"
    using assms(4,5)
    by (simp add: run rd_install_def set_host_def attempt_def bnd_def kcall_def run_simps emit_def t_def)
  obtain h' where h': "map_of (rd_hosts t) mac = Some h'" "h_nh h' = Some a" "h_iface h' = h_iface h"
    using assms(2) by (auto simp: t_def simp del: map_of_eq_Some_iff)
  have again: "wp (evaluate S mac) (\<lambda>_ u. out u = out t \<and> kern u = k) (t\<lparr>kern := k\<rparr>)"
    if "fst (rd_link_lookup S (h_iface h) k) = Inr (idx # ls)" "rd_best S idx mac k = Some a" for k
    using evaluate_quiet [OF assms(1), of "t\<lparr>kern := k\<rparr>" mac h' idx ls] h' that
    by (auto simp: wp_def ret_def simp del: map_of_eq_Some_iff)
  have "out t = out s @ [Rd_route_replace (h_ip4 h) a (Some c), Rd_log_via_failed (h_iface h) (h_ip4 h) a c]"
    by (simp add: t_def)
  then show ?thesis
    unfolding wp_def [of _ _ s] go option.case prod.case using h' again by blast
qed

section \<open>The daemon\<close>

text \<open>
  C40: Routes follow the leases through the whole life of the daemon. On a router that has none of
  its routes when it starts and a kernel that does what it is asked, under any interleaving of
  the bytes of the FIFO, passes, signals and whatever else happens without touching those routes,
  every route there is when the daemon waits or has ended is to the address of a host of its
  table, by the next hop the table has for it; two hosts may lease one address. And from any state
  in which it waits and no two do, the next sweep over tables that stand still puts the route of
  every host on the best next hop they show, unless the table had that one and the kernel not.
\<close>
theorem rd_routes_leased:
  assumes "rd_law S rt" and "rd_io_law S rt" and "rt k = (\<lambda>_. None)"
    and "rd_main S (rd_init k fs) = Some ((), s)"
    and "loop_reaches rd_running (rd_env_else rt) (rd_iter S) (rd_stop S) s p"
  shows "(\<forall>t ip a. p \<in> {Running t, Stopped t} \<and> rt (kern t) ip = Some a \<longrightarrow>
      (\<exists>mac h. map_of (rd_hosts t) mac = Some h \<and> h_ip4 h = ip \<and> h_nh h = Some a)) \<and>
    (\<forall>t. p = Running t \<and> ips_distinct (rd_leases t) \<and> rd_quiet S \<and> rd_tables_law S \<longrightarrow>
      wp (reconcile_all S) (\<lambda>_ u. \<forall>mac h idx ls a. map_of (rd_hosts t) mac = Some h \<and>
        fst (rd_link_lookup S (h_iface h) (kern t)) = Inr (idx # ls) \<and> rd_best S idx mac (kern t) = Some a \<and>
        (h_nh h \<noteq> Some a \<or> rt (kern t) (h_ip4 h) = Some a) \<longrightarrow> rt (kern u) (h_ip4 h) = Some a) t)"
proof -
  have "rd_routed S rt s"
    using wlpD [OF rd_main_leased [OF assms(1-3)] assms(4)] wlpD [OF rd_main_inv assms(4)] assms(1,2)
    by (simp add: rd_routed_def)
  then have routed: "rd_routed S rt t" if "p \<in> {Running t, Stopped t}" for t
    using rd_routes_loop.reach_ok [OF assms(5)] that by auto
  have "\<exists>mac h. map_of (rd_hosts t) mac = Some h \<and> h_ip4 h = ip \<and> h_nh h = Some a"
    if phase: "p \<in> {Running t, Stopped t}" and route: "rt (kern t) ip = Some a" for t ip a
  proof -
    obtain mac where "rd_slots t mac = Some (ip, Some a)"
      using routed [OF phase] route unfolding rd_routed_def rd_kept_def routes_leased_def by blast
    then show ?thesis by (auto simp: rd_slots_def simp del: map_of_eq_Some_iff)
  qed
  moreover have "rd_inv t" if "p = Running t" for t
    using routed [of t] that by (simp add: rd_routed_def)
  ultimately show ?thesis
    using sweep_moves [OF _ assms(1)] by blast
qed

section \<open>A small router\<close>

text \<open>The world is the daemon's routes. \<open>ok\<close> is whether the kernel accepts them.\<close>

type_synonym rd_demo_kern = "string \<Rightarrow> in6_addr option"

definition rd_demo_mac :: mac_addr where "rd_demo_mac = [2, 0, 0, 0, 0, 1]"
definition rd_demo_ll :: in6_addr where
  "rd_demo_ll = [0xfe, 0x80, 0, 0, 0, 0, 0, 0, 0, 0, 0, 0, 0, 0, 0, 7]"
definition rd_demo_net :: in6_addr where
  "rd_demo_net = [0x20, 0x01, 0x0d, 0xb8, 0, 0, 0, 1, 0, 0, 0, 0, 0, 0, 0, 0]"

definition rd_demo :: "bool \<Rightarrow> rd_demo_kern rd_sys" where
  "rd_demo ok = \<lparr>rd_link_lookup = (\<lambda>n k. (Inr [2], k)),
     rd_get_routes = (\<lambda>k. (Inr [\<lparr>q_dst_len = 64, q_oif = Some 2, q_dst = Some rd_demo_net\<rparr>], k)),
     rd_get_neighbours = (\<lambda>i k. (Inr [\<lparr>n_lladdr = Some (mac_str rd_demo_mac), n_dst = Some rd_demo_ll, n_state = 4\<rparr>], k)),
     rd_sys_replace = (\<lambda>ip idx nh k. if ok then (Inr (), k(ip := Some nh)) else (Inl (Netlink_error 12), k)),
     rd_sys_neigh_del = (\<lambda>ip idx k. (Inl (Netlink_error 2), k)),
     rd_sys_del = (\<lambda>ip k. (if k ip = None then Inl (Netlink_error rd_ESRCH) else Inr (), k(ip := None))),
     rd_socket = (\<lambda>k. (Inr (), k)), rd_bind_to_device = (\<lambda>n k. (Inr (), k)), rd_sendto = (\<lambda>a k. (Inr (), k)),
     rd_monotonic = (\<lambda>k. (0, k)), rd_makedirs = (\<lambda>k. (Inr (), k)), rd_open_tmp = (\<lambda>k. (Inr (), k)),
     rd_write_close = (\<lambda>c k. ((0, False), k)), rd_os_replace = (\<lambda>k. (Inr (), k)),
     rd_makedirs_run = (\<lambda>k. (Inr (), k)), rd_mkfifo = (\<lambda>k. (Inr True, k)),
     rd_open_rdwr = (\<lambda>k. (Inr (), k)), rd_unlink_fifo = (\<lambda>k. (Inr (), k)), rd_poll = (\<lambda>k. (([], False), k)), rd_read_pipe = (\<lambda>k. (Inr (), k)),
     rd_read_fifo = (\<lambda>k. (Inl Os_error, k)), rd_mon_get = (\<lambda>k. (Inl Os_error, k))\<rparr>"

lemma rd_demo_sound: "rd_sound (rd_demo ok)"
  by (auto simp: rd_sound_def rd_demo_def total_call_def netlink_call_def os_call_def)

lemma rd_demo_quiet: "rd_quiet (rd_demo ok)"
  by (auto simp: rd_quiet_def rd_demo_def total_call_def netlink_call_def os_call_def quiet_def)

lemma rd_demo_law: "rd_law (rd_demo True) id"
  by (simp add: rd_law_def rd_demo_def)

lemma rd_demo_disk: "rd_disk_ok (rd_demo ok)"
  by (simp add: rd_disk_ok_def rd_demo_def)

definition rd_demo_host :: "in6_addr option \<Rightarrow> rd_host" where
  "rd_demo_host nh = \<lparr>h_iface = ''lan0'', h_ip4 = ''203.0.113.9'', h_nh = nh, h_probe = None\<rparr>"

definition rd_demo_state :: "in6_addr option \<Rightarrow> rd_demo_kern rd_state" where
  "rd_demo_state nh = (rd_init (\<lambda>ip. if ip = ''203.0.113.9'' then nh else None) (\<lambda>_. None))
     \<lparr>rd_hosts := [(mac_str rd_demo_mac, rd_demo_host nh)]\<rparr>"

lemma rd_demo_mac_text: "mac_str rd_demo_mac = ''02:00:00:00:00:01''"
  by code_simp

text \<open>Its table is in words, and the kernel has the route of its one host.\<close>

lemma rd_demo_leases:
  "rd_leases (rd_demo_state nh) = [''02:00:00:00:00:01'' \<mapsto> (''lan0'', ''203.0.113.9'')]"
  by (auto simp: rd_leases_def rd_demo_state_def rd_demo_host_def rd_init_def rd_demo_mac_text)

lemma rd_demo_inv: "rd_inv (rd_demo_state nh)"
proof -
  have "is_token ''02:00:00:00:00:01'' \<and> py_lower ''02:00:00:00:00:01'' = ''02:00:00:00:00:01'' \<and>
      is_token ''lan0'' \<and> is_token ''203.0.113.9''"
    by code_simp
  then show ?thesis
    unfolding rd_inv_def rd_demo_leases by (simp add: rd_demo_state_def rd_init_def)
qed

lemma rd_demo_exact: "rd_exact id (rd_demo_state nh)"
  by (auto simp: rd_exact_def slots_exact_def rd_slots_def rd_demo_state_def rd_demo_host_def rd_init_def)

lemma rd_demo_best: "rd_best (rd_demo ok) 2 (mac_str rd_demo_mac) k = Some rd_demo_ll"
  unfolding rd_demo_mac_text by (cases ok) (simp_all add: rd_demo_def rd_demo_mac_text, code_simp+)

lemma rd_demo_step:
  "lease_step ''add lan0 02:00:00:00:00:02 203.0.113.10'' tbl = tbl(''02:00:00:00:00:02'' \<mapsto> (''lan0'', ''203.0.113.10''))"
proof -
  have "py_split ''add lan0 02:00:00:00:00:02 203.0.113.10'' =
      [''add'', ''lan0'', ''02:00:00:00:00:02'', ''203.0.113.10'']"
    "py_lower ''02:00:00:00:00:02'' = ''02:00:00:00:00:02''"
    by code_simp+
  then show ?thesis by (simp add: lease_step_def)
qed

section \<open>Witnesses\<close>

theorem rd_fifo_framing_witness:
  "for_each [''d lan0 m ip'', [newline], ''del''] (feed (rd_demo True)) ((rd_demo_state None)\<lparr>rd_buf := ''ad''\<rparr>) =
    for_each [''add lan0 m ip''] (handle_line (rd_demo True)) ((rd_demo_state None)\<lparr>rd_buf := ''del''\<rparr>)"
proof -
  have "split_at newline (''ad'' @ concat [''d lan0 m ip'', [newline], ''del'']) = [''add lan0 m ip'', ''del'']"
    by code_simp
  moreover have "newline \<notin> set (rd_buf ((rd_demo_state None)\<lparr>rd_buf := ''ad''\<rparr>))" by (simp add: newline_def)
  from rd_fifo_framing [OF this, of "[''d lan0 m ip'', [newline], ''del'']" "rd_demo True"] calculation
  show ?thesis by simp
qed

theorem rd_lines_refine_leases_witness:
  "wlp (for_each [''add lan0 02:00:00:00:00:02 203.0.113.10''] (handle_line (rd_demo True)))
    (\<lambda>_ t. rd_leases t ''02:00:00:00:00:02'' = Some (''lan0'', ''203.0.113.10'')) (rd_demo_state None)"
  using rd_lines_refine_leases [OF rd_demo_inv, of "[''add lan0 02:00:00:00:00:02 203.0.113.10'']" "rd_demo True" None]
  by (rule wlp_mono) (simp add: rd_demo_step)

theorem rd_restart_roundtrip_witness:
  "wp (persist (rd_demo True)) (\<lambda>_ t. \<forall>k. wp (restore (rd_demo True))
      (\<lambda>_ u. rd_leases u = [''02:00:00:00:00:01'' \<mapsto> (''lan0'', ''203.0.113.9'')])
      (rd_init k ((files t)(LEASES := None)))) (rd_demo_state None)"
proof -
  have eq: "rd_pruned None (rd_leases (rd_demo_state None)) = [''02:00:00:00:00:01'' \<mapsto> (''lan0'', ''203.0.113.9'')]"
    by (auto simp: rd_pruned_def rd_demo_leases lease_live_def)
  show ?thesis
    using rd_restart_roundtrip [OF rd_demo_inv [of None] rd_demo_disk [of True], of "rd_demo True"]
    by (rule wp_mono) (metis eq)
qed

theorem rd_derived_address_witness:
  "derive_gua (network64 rd_demo_net) (mac_text False (CHR '':'') rd_demo_mac)
    = Some [0x20, 0x01, 0x0d, 0xb8, 0, 0, 0, 1, 0, 0, 0, 0xff, 0xfe, 0, 0, 1]"
  using rd_derived_address [of rd_demo_net rd_demo_mac False] by (simp add: rd_demo_net_def rd_demo_mac_def)

theorem rd_next_hop_choice_witness:
  "\<exists>nh. best_nexthop (rd_demo True) 2 (mac_str rd_demo_mac) (rd_demo_state None) =
    Some ((nh, rd_gua (rd_demo True) 2 (mac_str rd_demo_mac) (kern (rd_demo_state None))), rd_demo_state None)"
  using rd_next_hop_choice [OF rd_demo_quiet, of True 2 "mac_str rd_demo_mac" "rd_demo_state None"] by blast

theorem rd_routes_exact_witness:
  "wp (for_each [''add lan0 02:00:00:00:00:02 203.0.113.10''] (handle_line (rd_demo True)))
    (\<lambda>_. rd_exact id) (rd_demo_state (Some rd_demo_ll))"
proof (rule rd_routes_exact [OF rd_demo_sound rd_demo_law rd_demo_inv rd_demo_exact])
  fix n
  assume "n \<le> length [''add lan0 02:00:00:00:00:02 203.0.113.10'']"
  then have "n = 0 \<or> n = 1" by auto
  then show "ips_distinct (fold lease_step (take n [''add lan0 02:00:00:00:00:02 203.0.113.10''])
      (rd_leases (rd_demo_state (Some rd_demo_ll))))"
    by (auto simp: rd_demo_step rd_demo_leases ips_distinct_def split: if_splits)
qed


theorem rd_refused_never_retried_witness:
  "wp (evaluate (rd_demo False) (mac_str rd_demo_mac)) (\<lambda>_ t.
      (\<exists>h'. map_of (rd_hosts t) (mac_str rd_demo_mac) = Some h' \<and> h_nh h' = Some rd_demo_ll) \<and>
      (\<forall>k. wp (evaluate (rd_demo False) (mac_str rd_demo_mac)) (\<lambda>_ u. out u = out t \<and> kern u = k) (t\<lparr>kern := k\<rparr>)))
    (rd_demo_state None)"
proof -
  have h: "map_of (rd_hosts (rd_demo_state None)) (mac_str rd_demo_mac) = Some (rd_demo_host None)"
    by (simp add: rd_demo_state_def)
  have l: "fst (rd_link_lookup (rd_demo False) (h_iface (rd_demo_host None)) k) = Inr (2 # [])" for k
    by (simp add: rd_demo_def)
  have r: "fst (rd_sys_replace (rd_demo False) ip idx a k) = Inl (Netlink_error 12)" for ip idx a k
    by (simp add: rd_demo_def)
  have n: "h_nh (rd_demo_host None) \<noteq> Some rd_demo_ll" by (simp add: rd_demo_host_def)
  show ?thesis
    using rd_refused_never_retried [OF rd_demo_quiet h l rd_demo_best n r]
    unfolding l rd_demo_best by (rule wp_mono) blast
qed

text \<open>The daemon starts with one lease in its file and has the route of its host when it first waits.\<close>

definition rd_demo_files :: "string \<Rightarrow> string option" where
  "rd_demo_files = (\<lambda>_. None)(STATE := Some (''02:00:00:00:00:01 lan0 203.0.113.9'' @ [newline]))"

lemma rd_demo_io: "rd_io_law (rd_demo ok) id"
  by (simp add: rd_io_law_def rd_demo_def)

lemma rd_demo_tables: "rd_tables_law (rd_demo ok)"
  by (auto simp: rd_tables_law_def rd_demo_def rd_same_tables_def netlink_call_def)

theorem rd_routes_leased_witness:
  "\<exists>s mac h. rd_main (rd_demo True) (rd_init (\<lambda>_. None) rd_demo_files) = Some ((), s) \<and>
    map_of (rd_hosts s) mac = Some h \<and> h_ip4 h = ''203.0.113.9'' \<and> h_nh h = Some rd_demo_ll \<and>
    wp (reconcile_all (rd_demo True)) (\<lambda>_ u. kern u ''203.0.113.9'' = Some rd_demo_ll) s"
proof -
  let ?mac = "''02:00:00:00:00:01''"
  obtain s where s: "rd_main (rd_demo True) (rd_init (\<lambda>_. None) rd_demo_files) = Some ((), s)"
    using safeD [OF safe_rd_main [OF rd_demo_sound], of True "rd_init (\<lambda>_. None) rd_demo_files"] by auto
  have "(case rd_main (rd_demo True) (rd_init (\<lambda>_. None) rd_demo_files) of
      None \<Rightarrow> None | Some (_, s) \<Rightarrow> kern s ''203.0.113.9'') = Some rd_demo_ll"
    by code_simp
  then have route: "id (kern s) ''203.0.113.9'' = Some rd_demo_ll" using s by simp
  have "(case rd_main (rd_demo True) (rd_init (\<lambda>_. None) rd_demo_files) of
      None \<Rightarrow> [] | Some (_, s) \<Rightarrow> map fst (rd_hosts s)) = [?mac]"
    by code_simp
  then have one: "map fst (rd_hosts s) = [?mac]" using s by simp
  note life = rd_routes_leased [OF rd_demo_law rd_demo_io _ s loop_reaches_refl]
  obtain mac h where h: "map_of (rd_hosts s) mac = Some h" "h_ip4 h = ''203.0.113.9''" "h_nh h = Some rd_demo_ll"
    using conjunct1 [OF life] route by (simp del: map_of_eq_Some_iff) blast
  have mac: "m = ?mac" if "map_of (rd_hosts s) m = Some x" for m x
  proof -
    have "m \<in> set (map fst (rd_hosts s))" using map_of_SomeD [OF that] by force
    then show ?thesis unfolding one by (simp only: list.set singleton_iff)
  qed
  then have "ips_distinct (rd_leases s)"
    unfolding ips_distinct_def rd_leases_def map_option_eq_Some by blast
  then have sweep: "wp (reconcile_all (rd_demo True)) (\<lambda>_ u. \<forall>mac h idx ls a. map_of (rd_hosts s) mac = Some h \<and>
      fst (rd_link_lookup (rd_demo True) (h_iface h) (kern s)) = Inr (idx # ls) \<and>
      rd_best (rd_demo True) idx mac (kern s) = Some a \<and>
      (h_nh h \<noteq> Some a \<or> id (kern s) (h_ip4 h) = Some a) \<longrightarrow> id (kern u) (h_ip4 h) = Some a) s"
    using conjunct2 [OF life] rd_demo_quiet rd_demo_tables by simp
  have "fst (rd_link_lookup (rd_demo True) (h_iface h) (kern s)) = Inr (2 # [])" by (simp add: rd_demo_def)
  moreover have "rd_best (rd_demo True) 2 mac (kern s) = Some rd_demo_ll"
    using rd_demo_best [of True "kern s"] mac [OF h(1)] by (simp add: rd_demo_mac_text)
  moreover have "id (kern s) (h_ip4 h) = Some rd_demo_ll" using route by (simp only: h(2))
  ultimately have "wp (reconcile_all (rd_demo True)) (\<lambda>_ u. id (kern u) (h_ip4 h) = Some rd_demo_ll) s"
    using h(1) by (intro wp_mono [OF sweep]) blast
  then have "wp (reconcile_all (rd_demo True)) (\<lambda>_ u. kern u ''203.0.113.9'' = Some rd_demo_ll) s"
    by (simp only: h(2) id_apply)
  then show ?thesis using s h by blast
qed

definition rd_demo_event :: "string \<Rightarrow> string option \<Rightarrow> dn_event" where
  "rd_demo_event action iface = \<lparr>dn_args = [action, ''02:00:00:00:00:02'', ''203.0.113.10'', ''host''], dn_iface = iface\<rparr>"

definition rd_demo_events :: "dn_event list" where
  "rd_demo_events = [rd_demo_event ''add'' (Some ''lan0''), rd_demo_event ''old'' None]"

definition rd_demo_reads :: "string list" where
  "rd_demo_reads = [''add lan0 02:00:00'', '':00:00:02 203.0.113.10'' @ newline # ''old  02:00:00:00:00:02 203.0.113.10'',
     [newline]]"

lemma rd_demo_events_ok: "\<forall>e \<in> set rd_demo_events. dn_ok e"
proof -
  have "is_token ''add'' \<and> is_token ''old'' \<and> is_token ''02:00:00:00:00:02'' \<and> is_token ''203.0.113.10'' \<and>
      is_token ''lan0''" by code_simp
  then show ?thesis by (simp add: rd_demo_events_def dn_ok_def rd_demo_event_def numeral_3_eq_3)
qed

lemma rd_demo_reads_events:
  "concat rd_demo_reads = concat (map (\<lambda>e. lease_notify True True (dn_args e) (dn_iface e)) rd_demo_events)"
  by code_simp

lemma rd_demo_events_lease:
  "fold lease_event rd_demo_events tbl = tbl(''02:00:00:00:00:02'' \<mapsto> (''lan0'', ''203.0.113.10''))"
proof -
  have lower: "lower_char (CHR ''0'') = CHR ''0''" "lower_char (CHR ''2'') = CHR ''2''"
    "lower_char (CHR '':'') = CHR '':''" by code_simp+
  show ?thesis by (simp add: rd_demo_events_def lease_event_def rd_demo_event_def lower)
qed

theorem rd_notified_witness:
  "wlp (for_each rd_demo_reads (feed (rd_demo True)))
    (\<lambda>_ t. rd_leases t ''02:00:00:00:00:02'' = Some (''lan0'', ''203.0.113.10'')) (rd_demo_state None)"
proof -
  have "rd_buf (rd_demo_state None) = []" by (simp add: rd_demo_state_def rd_init_def)
  from rd_notified [OF rd_demo_inv this rd_demo_events_ok rd_demo_reads_events, of "rd_demo True"]
  show ?thesis by (rule wlp_mono) (simp add: rd_demo_events_lease)
qed

definition rd_demo_script :: "unit sc_sys" where
  "rd_demo_script = \<lparr>sc_has_ndisc6 = (\<lambda>k. (True, k)), sc_route_show = (\<lambda>i k. ([''2001:db8::/64 proto kernel''], k)),
     sc_neigh_show = (\<lambda>i k. ([], k)), sc_ndisc6 = (\<lambda>a i k. (True, k)), sc_ping = (\<lambda>i k. (True, k)),
     sc_ping6 = (\<lambda>i k. (True, k)), sc_route_replace = (\<lambda>a n i k. (True, k)), sc_route_del = (\<lambda>a k. (True, k)),
     sc_neigh_del = (\<lambda>a i k. (True, k)), sc_arith = (\<lambda>w. None), sc_index_empty = False\<rparr>"

theorem rd_script_gua_witness:
  "\<exists>t. script_gua rd_demo_script ''2001:db8:1:2::'' (mac_str rd_demo_mac) = Some t \<and> in6_text t = None"
proof -
  have "list_all (list_all is_hex) [''2001'', ''db8'', ''1'', ''2'']" by code_simp
  then have hex: "\<forall>g \<in> set [''2001'', ''db8'', ''1'', ''2'']. hex16 g \<noteq> None" by (simp add: hex16_def)
  have "length rd_demo_mac = 6" by (simp add: rd_demo_mac_def)
  from rd_script_gua [OF _ _ hex this, of rd_demo_script]
  obtain t where "script_gua rd_demo_script (join (CHR '':'') [''2001'', ''db8'', ''1'', ''2''] @ ''::'') (mac_str rd_demo_mac) = Some t"
    and "in6_text t = None" by auto
  then show ?thesis by auto
qed

end
