(* ===== verification/Spec2Isabelle.thy ===== *)
theory Spec2Isabelle
  imports Freebsd_Properties Macos_Properties Windows_Properties Powershell_Properties
    Networkd_Properties Linux_Properties Router_Properties
begin

text \<open>
  \<^bold>\<open>IPv6-resolved IPv4 gateway: the daemons of the hosts and of the router.\<close>

  A host on an IPv6-only segment is given the special-purpose IPv4 gateway 192.0.0.11, which no
  machine answers for. A daemon finds the IPv6 default router of the managed interface and makes
  IPv4 packets go to it. The development models the five daemons of hosts, the patch that does the
  same inside systemd-networkd, and the daemon of the router that sends the answers back, with the
  scripts that DHCP runs beside them:

    \<^item> \<^verbatim>\<open>host/freebsd/v4gwd.c\<close> keeps an IPv4 default route whose next hop is the IPv6
      address of the router (RFC 5549), by messages on a routing socket; dhclient runs
      \<^verbatim>\<open>host/freebsd/dhclient-exit-hooks\<close>, which writes the lease's router to the state file;
    \<^item> \<^verbatim>\<open>host/macos/v4gwd-arp.c\<close> keeps a static ARP entry of 192.0.0.11 on the router's
      MAC address, by running arp(8);
    \<^item> \<^verbatim>\<open>host/windows/v4gwd.c\<close> keeps a permanent neighbor entry of 192.0.0.11 on the
      router's MAC address, by the IP Helper API, in the foreground or as a service;
      \<^verbatim>\<open>host/windows/v4gwd.ps1\<close> does so by cmdlets;
    \<^item> \<^verbatim>\<open>host/v4gwd.py\<close> (Linux) manages any number of interfaces, and keeps the route on
      kernels that have \<open>RTA_VIA\<close>, the permanent neighbor entry on older ones;
    \<^item> \<^verbatim>\<open>host/systemd-networkd/0001-...patch\<close> makes networkd request that route when a
      DHCPv4 lease names 192.0.0.11, and move it when the list of IPv6 routers changes;
    \<^item> \<^verbatim>\<open>router/debian/usr/local/sbin/v4gwrd.py\<close> learns of leases from a FIFO and keeps, for
      each leased IPv4 address, a route by an IPv6 address of its host; the DHCP server runs
      \<^verbatim>\<open>v4gw-lease-notify.sh\<close>, which writes to the FIFO, or, where there is no daemon,
      \<^verbatim>\<open>v4gw-lease.sh\<close>, which replaces and deletes the routes itself.

  A host daemon has one central operation, \<open>reconcile\<close>: look at the interface, the sentinel (a
  state file or an IPv4 route by 192.0.0.11) and the router, then install or withdraw. \<open>main\<close>
  runs it once and then in a loop, after an event or a timeout, until a signal or a control
  request arrives, and withdraws at the end. The macOS and the Windows daemon also keep a map
  from the own MAC of the interface to the MAC of its router, a directory of files or a registry
  key, that serves while the router is not resolved yet.

  \<^bold>\<open>The theories.\<close>

    \<^item> \<open>V4_Prelude\<close>: programs that may fault (\<open>prog\<close>), total and partial preconditions, the part
      of the state all daemons have, replacing a file, loops over lists, bytes, addresses, and
      the pieces of the C library they call (\<open>fgets\<close>, \<open>strncmp\<close>, \<open>atoi\<close>, \<open>getopt\<close>).
    \<^item> \<open>Route_Msg\<close>: the routing socket's message format. The readers work on raw bytes the way the
      code does; an encoder \<open>enc_msgs\<close> of well-formed messages says what a kernel writes. The
      locale \<open>rt_scanner\<close> turns a loop over a table into a search over its messages, and is
      interpreted for each of the six scans of the BSD daemons.
    \<^item> \<open>Bsd_Os\<close>: the system calls both BSD daemons make, the two-step read of a table, lines of
      files, and the embedding of a scope into a link-local address.
    \<^item> \<open>Daemon_Loop\<close>: the life of a daemon as a step relation with an environment that acts
      between any two of its steps. The locales \<open>daemon_loop\<close> and \<open>safe_daemon_loop\<close> conclude, for
      every reachable phase, that the invariant holds, that nothing is active once stopped, that
      no step faults and that the daemon can always finish. All six daemons interpret them; the
      second asks that nothing uncaught is raised of the two Python daemons, whose properties rest
      on the first alone.
    \<^item> \<open>Entry_Keeper\<close>: what carrying out a decision does to the kernel's entry (locale
      \<open>entry_keeper\<close>), from what installing, withdrawing and forgetting do, and that a daemon
      which has done it has nothing left to do (\<open>steady_keeper\<close>). The host daemons that
      remember their entry, those in C and the one for Linux, interpret both.
    \<^item> \<open>Freebsd_Select\<close> (\<open>pref_rank\<close>, \<open>select_router\<close>), \<open>Freebsd_Sentinel\<close> (\<open>sentinel_in_file\<close>,
      \<open>sentinel_in_fib\<close>, \<open>static_default_router\<close>), \<open>Freebsd_Route\<close> (\<open>fill_gateway\<close>, \<open>route_msg\<close>,
      \<open>install\<close>, \<open>withdraw\<close>), \<open>Freebsd_Daemon\<close> (\<open>reconcile\<close>, \<open>main\<close>, the loop and the signals),
      \<open>Freebsd_Fib\<close> (the daemon against a kernel that answers routing messages), \<open>Freebsd_Hook\<close>
      (the exit hook, and the state file after a run of DHCP events) and \<open>Freebsd_Properties\<close>
      (C1 to C9).
    \<^item> \<open>Mac_Text\<close>: MAC addresses as text and the locales \<open>mac_codec\<close> and \<open>mac_cache\<close> of the map,
      interpreted by both daemons that have one; the router daemon's reader is another codec.
    \<^item> \<open>Macos_Scan\<close> (\<open>get_rti_info\<close>, \<open>find_default_router\<close>, \<open>router_lladdr\<close>,
      \<open>arp_entry_present\<close>, \<open>sentinel_in_fib\<close>), \<open>Macos_Cache\<close> (\<open>run\<close>, \<open>iface_lladdr\<close>, the map),
      \<open>Macos_Daemon\<close> (\<open>install\<close>, \<open>withdraw\<close>, \<open>reconcile\<close>, \<open>dry_run_report\<close>, \<open>main\<close>),
      \<open>Macos_Pass\<close> (invariant, safety, life), \<open>Macos_Arp\<close> (a pass against arp(8)),
      \<open>Macos_Steady\<close> (a second pass), \<open>Macos_Demo\<close> (the start, the dry run, torn writes, a small
      world) and \<open>Macos_Properties\<close> (C10 to C14).
    \<^item> \<open>Windows_Tables\<close> (\<open>resolve_luid\<close>, \<open>iface_present\<close>, \<open>interface_mac\<close>, the registry map, the
      scans), \<open>Windows_Daemon\<close> (\<open>fill_sentinel_row\<close>, \<open>install\<close>, \<open>withdraw\<close>, \<open>reconcile\<close>,
      \<open>dry_run_report\<close>, \<open>run_worker\<close>, the service, \<open>main\<close>), \<open>Windows_Pass\<close> (invariant, life),
      \<open>Windows_Entry\<close> (a pass against the neighbor table), \<open>Windows_Steady\<close> (a second pass),
      \<open>Windows_Demo\<close> (the effect of \<open>install\<close>, a small world) and \<open>Windows_Properties\<close> (C15 to
      C19).
    \<^item> \<open>Powershell_Daemon\<close> (every function of the script, \<open>main\<close>), \<open>Powershell_Pass\<close> (the laws of
      the cmdlets, the decision, a pass against the neighbor table and the registry) and
      \<open>Powershell_Properties\<close> (the \<open>finally\<close> block, the life, a small system, C20 to C22).
    \<^item> \<open>Networkd_Gateway\<close> (the functions the patch adds, the selection as a search for a best
      entry, an update against networkd's set of routes), \<open>Networkd_Properties\<close> (C23 to C25).
    \<^item> \<open>Python_Os\<close>: calls of Python that may raise an exception, and what a \<open>try\<close> catches.
    \<^item> \<open>Linux_Daemon\<close> (\<open>Interface\<close>, \<open>main\<close>, \<open>serve\<close>), \<open>Linux_Pass\<close> (a pass over one interface),
      \<open>Linux_Life\<close> (invariant and life), \<open>Linux_Keeper\<close> (the entries of one and of all interfaces)
      and \<open>Linux_Properties\<close> (C26 to C30).
    \<^item> \<open>Router_Daemon\<close> (\<open>Manager\<close>, \<open>main\<close>, \<open>serve\<close>), \<open>Router_Table\<close> (lines of the FIFO and the
      table of leases), \<open>Router_Restart\<close> (the lease file), \<open>Router_Follow\<close> (next hops, and the
      kernel's routes; the locale \<open>route_table\<close>, interpreted twice, has what the operations keep of
      a relation of routes and table), \<open>Router_Life\<close> (invariant and life), \<open>Router_Notify\<close> (the notifying script
      and the daemon that reads its lines), \<open>Router_Script\<close> (the script without a daemon, and the
      text of addresses) and \<open>Router_Properties\<close> (C31 to C40).

  Definitions keep the names of the functions they model. The FreeBSD daemon has the plain names;
  where the others have a function of the same name, theirs end in \<open>_arp\<close> or \<open>_win\<close>, or begin
  with \<open>lx_\<close> (Linux), \<open>rd_\<close> (router) or \<open>ps_\<close> (PowerShell); \<open>nd_\<close> begins what belongs to
  networkd.

  \<^bold>\<open>How the code is modelled.\<close> Static variables are the fields of a state record
  (\<open>fb_state\<close>, \<open>mc_state\<close>, \<open>wn_state\<close>, \<open>nd_state\<close>, \<open>lx_state\<close>, \<open>rd_state\<close>) that extends \<open>os_state\<close>: the world outside (\<open>kern\<close>, of any
  type), the files or registry values (\<open>files\<close>) and the history of requests and log lines
  (\<open>out\<close>), which no operation reads. A system call is a parameter, a function of the world that
  returns a result and the next world; nothing is assumed of it but what a theorem names. So a
  table may change between the call that sizes it and the one that reads it, and any call may
  fail. A function is a \<open>prog\<close>: \<open>None\<close> is a C fault, that is a read or write outside an object,
  the use of an uninitialised one, an overflow of \<open>int\<close>, or a loop that does not end; in the
  Python programs \<open>None\<close> is an exception that nothing catches. A terminating error of PowerShell is
  a value (\<open>Thrown\<close>), since the script's \<open>finally\<close> block runs after it. In the shell scripts a
  command that fails under \<^verbatim>\<open>set -e\<close> ends the script with its status.

  A method of Linux's \<open>Interface\<close> runs over a state that holds the object (\<open>li_state\<close>), and
  \<open>on_iface\<close> runs it on an entry of the daemon's dictionary. Dictionaries are association lists,
  in the order of insertion; a Python set is iterated in an order that is a parameter
  (\<open>lx_set_order\<close>). Texts are ASCII. The Linux daemon passes addresses on as text; the router
  daemon computes with IPv6 addresses, and there they are byte lists: the texts that kernel and
  \<open>ipaddress\<close> print are canonical, so equal texts are equal addresses. The clock of the router
  daemon counts nanoseconds.

  Machine integers are words of their width; \<open>memcmp\<close>, \<open>in6_addr\<close> and MAC addresses are byte
  lists. Structures that the code takes apart itself (messages of the routing socket, entries of
  the router list, socket addresses) stay bytes, at the offsets of the LP64 little-endian ABI:
  \<open>struct rt_msghdr\<close> is 152 bytes on FreeBSD and 92 on macOS, socket addresses are padded to 8
  and 4 bytes, \<open>AF_INET6\<close> is 28 and 30, and \<open>struct in6_defrouter\<close> has 41 bytes. The tables of
  the IP Helper API are arrays of structures and are modelled as lists of records.

  Loops over tables of a known length are structural. The scan of a routing dump advances by a
  length read from the buffer, so a zero length never ends: \<open>rtm_scan\<close> is a partial function, and
  the wait for a child (\<open>wait_loop\<close>) is another. No fuel is used: that a loop ends is proved
  where it is claimed, from well-formed messages (C9, and the lemmas on each scan) or from a wait that reports
  (C13, with the converse). The loop that takes lines from the router's buffer ends because each
  line shortens it.

  \<^bold>\<open>What the properties show.\<close> For each host daemon: what the kernel holds after one pass
  (C1, C10, C15, C20, C29), the decision a pass takes as a function of the tables (C2, C11, C16,
  C26, and within C20), that a pass repeated does nothing (C3, C12, C17, C28), which router is
  selected (C4, C18, C27), and the whole life from \<open>main\<close> to the end under any interleaving (C8,
  C9, C14, C19, C21, C30): what the last step takes out of the kernel and what it leaves there. For the C daemons also that no byte outside a buffer is read (C5), the
  bytes that are sent (C7) and the end of the wait for a child (C13). The FreeBSD daemon sees the
  sentinel exactly when the last lease that the hook reported designates it (C6). The PowerShell
  daemon gives up a gateway when the registry refuses it (C22). The patch selects as FreeBSD does
  (C23), moves the route to a better router on a kernel that can have it (C24) and leaves it when
  it has none (C25). For the
  router: the leases of the daemon are those that the notifying script reported (C31), the table
  as a map of leases (C32), the lease file (C33), the derived address (C34) and the one that the
  script without a daemon writes (C35), the choice of a next hop (C36), the kernel's routes (C37
  to C39), and that at no time of its life it has a route to an address that is not leased (C40). Lemmas beside them state what each scan
  finds, the start, the dry run, the echo of own messages, that a pass of the FreeBSD daemon is
  safe, when the map of the macOS daemon may be trusted, the framing of the FIFO and the statuses
  of the Windows service. C9, C13, C20, C21, C22, C25, C29, C35, C39 and the lemmas
  \<open>fb_install_after_flush\<close>, \<open>fb_require_route_erases\<close>, \<open>fb_reserved_selected\<close>, \<open>fb_iter_fault\<close>,
  \<open>mc_cache_torn\<close>, \<open>lx_uncaught\<close>, \<open>lx_install_after_flush\<close> and \<open>lx_selects_last\<close> (among equal
  routers the last of the dump) state behaviour the code or its documents probably do not intend.

  \<^bold>\<open>Hypotheses.\<close> \<open>dump_ok\<close>, \<open>ifaddrs_ok\<close>, \<open>arrays_ok\<close>: the kernel returns well-formed
  messages and structures. \<open>quiet_reads\<close>, \<open>mc_quiet\<close>, \<open>wn_quiet\<close>: the world stands still while the
  daemon only looks; \<open>fb_sees\<close> and \<open>mc_sees\<close> then relate bytes and messages. \<open>rtsock_law\<close>,
  \<open>arp_law\<close>, \<open>nbr_law\<close>, \<open>stop_law\<close>: the documented effect of routing messages, each on the prefix
  of its destination and netmask, of arp(8) and of the neighbor calls; \<open>nd_law\<close> and
  \<open>nd_request_law\<close> of removing and requesting a route in networkd, \<open>lx_laws\<close> and \<open>rd_law\<close> of
  netlink's replace and delete requests. \<open>lx_key_law\<close>: Linux has one IPv4 route of a prefix and
  metric. \<open>lx_tables_law\<close> and \<open>rd_io_law\<close>: what these requests, and waiting and reading, leave
  alone. \<open>lx_quiet\<close> and \<open>rd_quiet\<close>: reading changes nothing; \<open>lx_sees\<close>: what the tables show;
  \<open>lx_shows\<close>: what they show but for the daemon's own IPv4 routes, which come and go in a dump.
  \<open>rd_sound\<close> (C37, C38): no call raises an exception but those the code catches. \<open>rd_disk_ok\<close>:
  the lease file is written. \<open>ps_law\<close>: the documented
  effect of the cmdlets in an elevated session. \<open>hook_works\<close>: the hook's commands succeed. \<open>dn_ok\<close>:
  dnsmasq's arguments are words. \<open>wait_ok\<close>: a started child reports in the end. \<open>whole_writes\<close>:
  what is written reaches the file. Every property with a hypothesis has a witness on a concrete machine.

  \<^bold>\<open>Not modelled.\<close> Releasing memory and descriptors, openlog and closelog, WSAStartup and the
  creation of the log directory; the text of log lines, reports and usage messages (they are
  events with their arguments); what a child does between fork and execv. The handlers and
  callbacks run between two steps of the worker: they touch the signal flag, the events and the
  service status, which a pass does not read. A race of two handlers inside \<open>report\<close> is not
  modelled. The counter of message sequence numbers wraps at 32 bits here, where the code's
  \<open>int\<close> would overflow after as many messages. argparse,
  the set-up of pipes and sockets and the use of the wake-up pipe are left to the parameters; a
  signal (and Ctrl-C) that arrives in the middle of a pass takes effect at the end of the step. Of networkd,
  which is not in the repository, only what the patch adds to the DHCPv4 client is modelled. The
  hook that keepalived runs on a failover restarts one service and has nothing to prove; the
  configuration files, packaging, the tests of the lab and the site are no programs of the system,
  and the implementations under legacy are superseded by those modelled here.
\<close>

end
